(* ===== verification/Prelude.thy ===== *)
theory Prelude
  imports Main
begin

text \<open>
  Shared vocabulary of the development. Go strings and byte slices are lists of bytes, so
  both are \<open>string\<close> (a list of 8-bit characters). An operation of the application either
  returns a value or panics; a Go \<open>error\<close> value is a value of the datatype \<open>error\<close>, and
  a pair \<open>(value, error)\<close> of which the code uses exactly one half is a sum
  \<open>error + value\<close>. The lemmas are generic facts on strings, options and association lists.
\<close>

section \<open>Types shared by the components\<close>

type_synonym bytes = string

abbreviation byte :: "char \<Rightarrow> nat" where
  "byte c \<equiv> of_char c"

text \<open>What a call of a Go function amounts to: it returns, or it panics with a message.\<close>

datatype 'a outcome = Ret 'a | Panic string

fun is_panic :: "'a outcome \<Rightarrow> bool" where
  "is_panic (Panic _) = True"
| "is_panic (Ret _) = False"

text \<open>
  Sequencing in the presence of panics: the next call runs in the state the first one left,
  and a panic ends the sequence.
\<close>

definition and_then :: "'a outcome \<times> 'w \<Rightarrow> ('a \<Rightarrow> 'w \<Rightarrow> 'b outcome \<times> 'w) \<Rightarrow> 'b outcome \<times> 'w" where
  "and_then r f = (case r of (Panic m, w) \<Rightarrow> (Panic m, w) | (Ret a, w) \<Rightarrow> f a w)"

lemma and_then_simps [simp]:
  "and_then (Panic m, w) f = (Panic m, w)"
  "and_then (Ret a, w) f = f a w"
  by (simp_all add: and_then_def)

lemma and_then_Ret:
  "and_then r f = (Ret b, w') \<longleftrightarrow> (\<exists>a w. r = (Ret a, w) \<and> f a w = (Ret b, w'))"
  by (auto simp: and_then_def split: prod.splits outcome.splits)

definition nil_dereference :: string where
  "nil_dereference = ''invalid memory address or nil pointer dereference''"

text \<open>
  Error values. \<open>ErrText\<close> is \<open>errors.New\<close> with its text, \<open>ErrWrap\<close> an error wrapped
  with a prefix (\<open>errors.WithMessage\<close>, \<open>errors.Errorf\<close> with the error as its last verb);
  \<open>ErrJsonSyntax\<close>, \<open>ErrJsonType\<close> and \<open>ErrBase64\<close> are the kinds of error \<open>json.Unmarshal\<close>
  returns, the second naming the field whose value has the wrong JSON type;
  \<open>ErrKeyUtf8\<close> and \<open>ErrKeyRune\<close> are those of a composite key's validation (the text that is
  not UTF-8, a rune that is not allowed and its position).
\<close>

datatype error =
    ErrText string
  | ErrWrap string error
  | ErrJsonSyntax
  | ErrJsonType string
  | ErrBase64
  | ErrKeyUtf8 string
  | ErrKeyRune nat nat

section \<open>Hint collections\<close>

named_theorems codec_simps \<open>evaluation of the text codecs\<close>
named_theorems record_simps \<open>projections of marshalled records\<close>

section \<open>Strings\<close>

text \<open>\<open>strings.Replace(value, c, "", -1)\<close> for a one-character pattern removes every \<open>c\<close>.\<close>

definition remove_char :: "char \<Rightarrow> string \<Rightarrow> string" where
  "remove_char c s = filter (\<lambda>x. x \<noteq> c) s"

lemma remove_char_notin [simp]: "c \<notin> set (remove_char c s)"
  by (simp add: remove_char_def)

lemma remove_char_id: "c \<notin> set s \<Longrightarrow> remove_char c s = s"
  by (auto simp: remove_char_def intro!: filter_True)

lemma set_remove_char: "set (remove_char c s) = set s - {c}"
  by (auto simp: remove_char_def)

fun starts_with :: "string \<Rightarrow> string \<Rightarrow> bool" where
  "starts_with [] s = True"
| "starts_with (c # cs) [] = False"
| "starts_with (c # cs) (d # ds) = (c = d \<and> starts_with cs ds)"

lemma starts_with_iff: "starts_with p s \<longleftrightarrow> (\<exists>r. s = p @ r)"
  by (induction p s rule: starts_with.induct) auto

lemma byte_lt [simp]: "byte c < 256"
  by simp

lemma char_byte_eq: "byte c = n \<Longrightarrow> c = char_of n"
  by auto

text \<open>Character ranges, by byte value.\<close>

definition in_range :: "char \<Rightarrow> char \<Rightarrow> char \<Rightarrow> bool" where
  "in_range lo hi c \<longleftrightarrow> byte lo \<le> byte c \<and> byte c \<le> byte hi"

definition is_digit :: "char \<Rightarrow> bool" where
  "is_digit c \<longleftrightarrow> in_range (CHR ''0'') (CHR ''9'') c"

section \<open>Positions in a list without repetitions\<close>

fun index_of :: "'a list \<Rightarrow> 'a \<Rightarrow> nat option" where
  "index_of [] x = None"
| "index_of (y # ys) x = (if x = y then Some 0 else map_option Suc (index_of ys x))"

lemma index_of_nth: "distinct xs \<Longrightarrow> i < length xs \<Longrightarrow> index_of xs (xs ! i) = Some i"
proof (induction xs arbitrary: i)
  case Nil
  then show ?case by simp
next
  case (Cons y ys)
  then show ?case by (cases i) auto
qed

lemma index_of_None: "index_of xs x = None \<longleftrightarrow> x \<notin> set xs"
  by (induction xs) auto

lemma index_of_Some: "index_of xs x = Some i \<Longrightarrow> i < length xs \<and> xs ! i = x"
  by (induction xs arbitrary: i) (auto split: if_splits)

text \<open>Reading a list after an update, in range or not.\<close>

lemma nth_update_if: "xs[i := x] ! j = (if j = i \<and> i < length xs then x else xs ! j)"
  by (cases "i < length xs") (auto simp: nth_list_update list_update_beyond not_less)

section \<open>Association lists as stores\<close>

text \<open>A store keeps its keys in insertion order; a write to a known key keeps its place.\<close>

fun put :: "'k \<Rightarrow> 'v \<Rightarrow> ('k \<times> 'v) list \<Rightarrow> ('k \<times> 'v) list" where
  "put k v [] = [(k, v)]"
| "put k v ((k', v') # r) = (if k = k' then (k, v) # r else (k', v') # put k v r)"

lemma map_of_put [simp]: "map_of (put k v xs) = (map_of xs)(k \<mapsto> v)"
  by (induction k v xs rule: put.induct) auto

lemma keys_put: "fst ` set (put k v xs) = insert k (fst ` set xs)"
  by (induction k v xs rule: put.induct) auto

lemma distinct_put: "distinct (map fst xs) \<Longrightarrow> distinct (map fst (put k v xs))"
proof (induction k v xs rule: put.induct)
  case (1 k v)
  then show ?case by simp
next
  case (2 k v k' v' r)
  then show ?case using keys_put [of k v r] by auto
qed

lemma set_put_subset: "set (put k v xs) \<subseteq> insert (k, v) (set xs)"
  by (induction k v xs rule: put.induct) auto

lemma length_put: "length xs \<le> length (put k v xs) \<and> length (put k v xs) \<le> Suc (length xs)"
  by (induction k v xs rule: put.induct) auto

lemma put_all: "(\<forall>p \<in> set xs. P p) \<Longrightarrow> P (k, v) \<Longrightarrow> p \<in> set (put k v xs) \<Longrightarrow> P p"
  using set_put_subset [of k v xs] by auto

end
