(* ===== verification/Codecs.thy ===== *)
theory Codecs
  imports Prelude
begin

text \<open>
  The text codecs of Go's standard library that the application calls: base64 with the
  standard alphabet (a \<open>[]byte\<close> field of a JSON document) and with the URL alphabet
  (\<open>sessionId\<close> in app/session/sessionManager.go), and \<open>url.QueryEscape\<close> /
  \<open>url.QueryUnescape\<close> (the session cookie and the download file name). Both decoders are
  partial, as in the library; the lemmas are the round trips.
\<close>

section \<open>Base64\<close>

definition std_alphabet :: string where
  "std_alphabet = ''ABCDEFGHIJKLMNOPQRSTUVWXYZabcdefghijklmnopqrstuvwxyz0123456789+/''"

definition url_alphabet :: string where
  "url_alphabet = ''ABCDEFGHIJKLMNOPQRSTUVWXYZabcdefghijklmnopqrstuvwxyz0123456789-_''"

fun b64_encode :: "string \<Rightarrow> bytes \<Rightarrow> string" where
  "b64_encode al [] = []"
| "b64_encode al [a] =
     [al ! (byte a div 4), al ! (byte a mod 4 * 16), CHR ''='', CHR ''='']"
| "b64_encode al [a, b] =
     [al ! (byte a div 4), al ! (byte a mod 4 * 16 + byte b div 16),
      al ! (byte b mod 16 * 4), CHR ''='']"
| "b64_encode al (a # b # c # r) =
     al ! (byte a div 4) # al ! (byte a mod 4 * 16 + byte b div 16)
     # al ! (byte b mod 16 * 4 + byte c div 64) # al ! (byte c mod 64)
     # b64_encode al r"

text \<open>
  Decoding works on groups of four characters once the newlines the decoder skips are
  gone; padding is accepted in the last group only, and the unused low bits of the last
  character are ignored, as the non-strict decoder does.
\<close>

fun b64_groups :: "string \<Rightarrow> string \<Rightarrow> bytes option" where
  "b64_groups al [] = Some []"
| "b64_groups al (p # q # r # s # rest) =
     (case (index_of al p, index_of al q) of
        (Some x, Some y) \<Rightarrow>
          (if r = CHR ''='' then
             (if s = CHR ''='' \<and> rest = [] then Some [char_of (x * 4 + y div 16)] else None)
           else (case index_of al r of
             None \<Rightarrow> None
           | Some z \<Rightarrow>
               (if s = CHR ''='' then
                  (if rest = [] then Some [char_of (x * 4 + y div 16), char_of (y mod 16 * 16 + z div 4)]
                   else None)
                else (case (index_of al s, b64_groups al rest) of
                  (Some w, Some bs) \<Rightarrow>
                    Some (char_of (x * 4 + y div 16) # char_of (y mod 16 * 16 + z div 4)
                          # char_of (z mod 4 * 64 + w) # bs)
                | _ \<Rightarrow> None))))
      | _ \<Rightarrow> None)"
| "b64_groups al _ = None"

definition b64_decode :: "string \<Rightarrow> string \<Rightarrow> bytes option" where
  "b64_decode al s = b64_groups al (filter (\<lambda>c. c \<noteq> CHR 0x0A \<and> c \<noteq> CHR 0x0D) s)"

text \<open>What both alphabets have in common, and all the round trip needs.\<close>

definition alphabet_ok :: "string \<Rightarrow> bool" where
  "alphabet_ok al \<longleftrightarrow> distinct al \<and> length al = 64 \<and> CHR ''='' \<notin> set al
     \<and> CHR 0x0A \<notin> set al \<and> CHR 0x0D \<notin> set al"

lemma std_alphabet_ok [simp]: "alphabet_ok std_alphabet"
  by (simp add: alphabet_ok_def std_alphabet_def)

lemma url_alphabet_ok [simp]: "alphabet_ok url_alphabet"
  by (simp add: alphabet_ok_def url_alphabet_def)

lemma alphabet_index: "alphabet_ok al \<Longrightarrow> i < 64 \<Longrightarrow> index_of al (al ! i) = Some i"
  by (simp add: alphabet_ok_def index_of_nth)

lemma alphabet_not_pad: "alphabet_ok al \<Longrightarrow> i < 64 \<Longrightarrow> al ! i \<noteq> CHR ''=''"
  by (metis alphabet_ok_def nth_mem)

lemma alphabet_not_newline:
  "alphabet_ok al \<Longrightarrow> i < 64 \<Longrightarrow> al ! i \<noteq> CHR 0x0A \<and> al ! i \<noteq> CHR 0x0D"
  by (metis alphabet_ok_def nth_mem)

lemmas alphabet_facts = alphabet_index alphabet_not_pad alphabet_not_newline

lemma byte_parts [simp]:
  "byte a div 4 < 64" "byte a mod 4 * 16 < 64" "byte b mod 16 * 4 < 64"
  "byte a mod 4 * 16 + byte b div 16 < 64" "byte b mod 16 * 4 + byte c div 64 < 64"
  "byte c mod 64 < 64"
  using byte_lt [of a] byte_lt [of b] byte_lt [of c] by linarith+

lemma byte_quotients [simp]: "byte c div 16 < 16" "byte c div 64 < 4"
  using byte_lt [of c] by linarith+

lemma b64_encode_no_newline:
  "alphabet_ok al \<Longrightarrow> filter (\<lambda>c. c \<noteq> CHR 0x0A \<and> c \<noteq> CHR 0x0D) (b64_encode al s) = b64_encode al s"
  by (induction al s rule: b64_encode.induct) (simp_all add: alphabet_not_newline)

lemma b64_groups_encode: "alphabet_ok al \<Longrightarrow> b64_groups al (b64_encode al s) = Some s"
  by (induction al s rule: b64_encode.induct)
     (simp_all add: alphabet_index alphabet_not_pad)

lemma b64_roundtrip [simp]: "alphabet_ok al \<Longrightarrow> b64_decode al (b64_encode al s) = Some s"
  by (simp add: b64_decode_def b64_encode_no_newline b64_groups_encode)

lemma b64_encode_chars: "alphabet_ok al \<Longrightarrow> set (b64_encode al s) \<subseteq> insert (CHR ''='') (set al)"
  by (induction al s rule: b64_encode.induct) (auto simp: alphabet_ok_def)

lemma b64_encode_pad: "length s mod 3 \<noteq> 0 \<Longrightarrow> CHR ''='' \<in> set (b64_encode al s)"
  by (induction al s rule: b64_encode.induct) auto

lemma b64_encode_Nil_iff [simp]: "b64_encode al s = [] \<longleftrightarrow> s = []"
  by (cases "(al, s)" rule: b64_encode.cases) auto

section \<open>Query escaping\<close>

text \<open>\<open>shouldEscape\<close> in its query-component mode: only the unreserved characters stay.\<close>

definition unreserved :: "char \<Rightarrow> bool" where
  "unreserved c \<longleftrightarrow> in_range (CHR ''a'') (CHR ''z'') c \<or> in_range (CHR ''A'') (CHR ''Z'') c
     \<or> is_digit c \<or> c \<in> set ''-_.~''"

definition upper_hex :: string where
  "upper_hex = ''0123456789ABCDEF''"

fun query_escape :: "string \<Rightarrow> string" where
  "query_escape [] = []"
| "query_escape (c # cs) =
     (if unreserved c then c # query_escape cs
      else if c = CHR '' '' then CHR ''+'' # query_escape cs
      else CHR ''%'' # upper_hex ! (byte c div 16) # upper_hex ! (byte c mod 16) # query_escape cs)"

definition hex_val :: "char \<Rightarrow> nat option" where
  "hex_val c =
     (if is_digit c then Some (byte c - 48)
      else if in_range (CHR ''a'') (CHR ''f'') c then Some (byte c - 87)
      else if in_range (CHR ''A'') (CHR ''F'') c then Some (byte c - 55)
      else None)"

text \<open>\<open>QueryUnescape\<close> fails on a percent sign that two hexadecimal digits do not follow.\<close>

fun query_unescape :: "string \<Rightarrow> string option" where
  "query_unescape [] = Some []"
| "query_unescape (c # cs) =
     (if c = CHR ''%'' then
        (case cs of
           h # l # rest \<Rightarrow>
             (case (hex_val h, hex_val l, query_unescape rest) of
                (Some x, Some y, Some r) \<Rightarrow> Some (char_of (x * 16 + y) # r)
              | _ \<Rightarrow> None)
         | _ \<Rightarrow> None)
      else map_option (Cons (if c = CHR ''+'' then CHR '' '' else c)) (query_unescape cs))"

lemma hex_val_upper [simp]: "i < 16 \<Longrightarrow> hex_val (upper_hex ! i) = Some i"
proof -
  assume "i < 16"
  moreover have "list_all (\<lambda>i. hex_val (upper_hex ! i) = Some i) [0..<16]"
    by code_simp
  ultimately show ?thesis by (simp add: list_all_iff)
qed

lemma unreserved_plain: "unreserved c \<Longrightarrow> c \<noteq> CHR ''%'' \<and> c \<noteq> CHR ''+''"
  by (auto simp: unreserved_def is_digit_def in_range_def)

lemma byte_nibbles: "byte c div 16 < 16" "byte c mod 16 < 16"
  using byte_lt [of c] by linarith+

lemma query_roundtrip [simp]: "query_unescape (query_escape s) = Some s"
proof (induction s)
  case Nil
  show ?case by simp
next
  case (Cons c cs)
  then show ?case
    using unreserved_plain [of c] by (auto simp: byte_nibbles)
qed

lemma query_escape_id: "list_all unreserved s \<Longrightarrow> query_escape s = s"
  by (induction s) auto

lemma query_escape_changes: "c \<in> set s \<Longrightarrow> \<not> unreserved c \<Longrightarrow> c \<noteq> CHR '' '' \<Longrightarrow> CHR ''%'' \<in> set (query_escape s)"
  by (induction s) auto

end
