(* ===== verification/Decimal.thy ===== *)
theory Decimal
  imports Prelude
begin

text \<open>
  Decimal texts of integers: \<open>strconv.Itoa\<close>, \<open>strconv.ParseInt\<close> with a bit size, and
  Go's 64-bit \<open>int\<close> arithmetic as integers with the wrap-around written out.
\<close>

definition digit_char :: "nat \<Rightarrow> char" where
  "digit_char n = char_of (48 + n mod 10)"

fun decimal :: "nat \<Rightarrow> string" where
  "decimal n = (if n < 10 then [digit_char n] else decimal (n div 10) @ [digit_char n])"

declare decimal.simps [simp del]

definition itoa :: "int \<Rightarrow> string" where
  "itoa i = (if i < 0 then CHR ''-'' # decimal (nat (- i)) else decimal (nat i))"

definition digits_value :: "string \<Rightarrow> nat" where
  "digits_value s = foldl (\<lambda>v c. 10 * v + (byte c - 48)) 0 s"

definition parse_digits :: "string \<Rightarrow> nat option" where
  "parse_digits s = (if s \<noteq> [] \<and> list_all is_digit s then Some (digits_value s) else None)"

definition fits :: "nat \<Rightarrow> int \<Rightarrow> bool" where
  "fits bits i \<longleftrightarrow> - (2 ^ (bits - 1)) \<le> i \<and> i < 2 ^ (bits - 1)"

text \<open>\<open>strconv.ParseInt(s, 10, bits)\<close>: an optional sign, digits, and the range check.\<close>

definition parse_int :: "nat \<Rightarrow> string \<Rightarrow> int option" where
  "parse_int bits s =
     (let v = (case s of
                 [] \<Rightarrow> None
               | c # cs \<Rightarrow>
                   (if c = CHR ''-'' then map_option (\<lambda>n. - int n) (parse_digits cs)
                    else if c = CHR ''+'' then map_option int (parse_digits cs)
                    else map_option int (parse_digits s)))
      in case v of None \<Rightarrow> None | Some i \<Rightarrow> if fits bits i then Some i else None)"

definition wrap64 :: "int \<Rightarrow> int" where
  "wrap64 x = (x + 2 ^ 63) mod 2 ^ 64 - 2 ^ 63"

lemma wrap64_id: "fits 64 x \<Longrightarrow> wrap64 x = x"
  by (simp add: fits_def wrap64_def)

lemma wrap64_fits: "fits 64 (wrap64 x)"
proof -
  have "0 \<le> (x + 2 ^ 63) mod 2 ^ 64" "(x + 2 ^ 63) mod 2 ^ 64 < 2 ^ 64" by simp_all
  then show ?thesis by (simp add: fits_def wrap64_def)
qed

lemma byte_digit_char [simp]: "byte (digit_char n) = 48 + n mod 10"
proof -
  have "n mod 10 < 10" by simp
  then have "48 + n mod 10 < 256" by linarith
  then show ?thesis by (simp add: digit_char_def)
qed

lemma is_digit_char [simp]: "is_digit (digit_char n)"
proof -
  have "n mod 10 < 10" by simp
  then show ?thesis by (simp add: is_digit_def in_range_def)
qed

lemma decimal_digits: "list_all is_digit (decimal n)"
proof (induction n rule: decimal.induct)
  case (1 n)
  then show ?case by (subst decimal.simps) simp
qed

lemma decimal_Nil [simp]: "decimal n \<noteq> []"
  by (subst decimal.simps) simp

lemma digits_value_append: "digits_value (s @ [c]) = 10 * digits_value s + (byte c - 48)"
  by (simp add: digits_value_def)

lemma digits_value_decimal [simp]: "digits_value (decimal n) = n"
proof (induction n rule: decimal.induct)
  case (1 n)
  show ?case
  proof (cases "n < 10")
    case True
    then show ?thesis by (simp add: decimal.simps [of n] digits_value_def)
  next
    case False
    then show ?thesis using "1.IH" by (simp add: decimal.simps [of n] digits_value_append)
  qed
qed

lemma parse_digits_decimal [simp]: "parse_digits (decimal n) = Some n"
  by (simp add: parse_digits_def decimal_digits)

text \<open>The first digit: never a sign, and zero only for zero.\<close>

lemma decimal_first: "\<exists>c cs. decimal n = c # cs \<and> is_digit c \<and> (c = CHR ''0'' \<longrightarrow> cs = [] \<and> n = 0)"
proof (induction n rule: decimal.induct)
  case (1 n)
  show ?case
  proof (cases "n < 10")
    case True
    have "n = 0" if "digit_char n = CHR ''0''"
    proof -
      have "byte (digit_char n) = 48" using that by simp
      then show ?thesis using True by simp
    qed
    then show ?thesis using True by (simp add: decimal.simps [of n])
  next
    case False
    then have "n div 10 \<noteq> 0" by simp
    with "1.IH" [OF False] show ?thesis
      using False by (auto simp: decimal.simps [of n])
  qed
qed

lemma digit_not_sign: "is_digit c \<Longrightarrow> c \<noteq> CHR ''-'' \<and> c \<noteq> CHR ''+''"
  by (auto simp: is_digit_def in_range_def)

lemma parse_int_itoa: "fits bits i \<Longrightarrow> parse_int bits (itoa i) = Some i"
proof -
  assume i: "fits bits i"
  obtain c cs where c: "decimal (nat i) = c # cs" "is_digit c"
    using decimal_first by blast
  then have "parse_digits (c # cs) = Some (nat i)" by (metis parse_digits_decimal)
  then show ?thesis
    using i c digit_not_sign [OF c(2)] by (simp add: parse_int_def itoa_def)
qed

lemma parse_int_fits: "parse_int bits s = Some i \<Longrightarrow> fits bits i"
  by (auto simp: parse_int_def Let_def split: list.splits if_splits option.splits)

end
