(* ===== verification/Session.thy ===== *)
theory Session
  imports Codecs Decimal
begin

text \<open>
  The session package, app/session: the stores, the memory provider and the manager. A
  \<open>*SessionStore\<close> is an address in the provider's heap, so that a handler's handle, the map
  of the provider and the list used by the garbage collector can name the same store, as
  they do in the code. \<open>session_ok\<close> is the invariant of the provider; the locale
  \<open>session_provider\<close> is what the request handlers rely on. Times are Unix seconds, passed in
  where the code reads the clock.
\<close>

section \<open>Stores and the memory provider\<close>

record store =
  ss_sid :: string
  ss_timeAccessed :: int
  ss_value :: "string \<rightharpoonup> string"

record provider =
  pr_sessions :: "string \<rightharpoonup> nat"
  pr_list :: "nat list"
  pr_heap :: "store list"

definition empty_provider :: provider where
  "empty_provider = \<lparr>pr_sessions = Map.empty, pr_list = [], pr_heap = []\<rparr>"

text \<open>A new element goes to the back of the list.\<close>

definition SessionInit :: "int \<Rightarrow> string \<Rightarrow> provider \<Rightarrow> nat \<times> provider" where
  "SessionInit now sid p =
     (let a = length (pr_heap p)
      in (a, p\<lparr>pr_heap := pr_heap p @ [\<lparr>ss_sid = sid, ss_timeAccessed = now, ss_value = Map.empty\<rparr>],
               pr_list := pr_list p @ [a],
               pr_sessions := (pr_sessions p)(sid \<mapsto> a)\<rparr>))"

definition SessionRead :: "int \<Rightarrow> string \<Rightarrow> provider \<Rightarrow> nat \<times> provider" where
  "SessionRead now sid p =
     (case pr_sessions p sid of
        Some a \<Rightarrow> (a, p)
      | None \<Rightarrow> SessionInit now sid p)"

definition SessionDestroy_provider :: "string \<Rightarrow> provider \<Rightarrow> provider" where
  "SessionDestroy_provider sid p =
     (case pr_sessions p sid of
        Some a \<Rightarrow> p\<lparr>pr_sessions := (pr_sessions p)(sid := None), pr_list := remove1 a (pr_list p)\<rparr>
      | None \<Rightarrow> p)"

text \<open>
  The collector looks at the back of the list only, and reads the clock in every round:
  \<open>clock i\<close> is the reading of round i. The addition is that of \<open>int64\<close>.
\<close>

function SessionGC :: "int \<Rightarrow> (nat \<Rightarrow> int) \<Rightarrow> provider \<Rightarrow> provider" where
  "SessionGC maxlifetime clock p =
     (if pr_list p = [] then p
      else
        (let a = last (pr_list p); st = pr_heap p ! a
         in if wrap64 (ss_timeAccessed st + maxlifetime) < clock 0
            then SessionGC maxlifetime (\<lambda>i. clock (Suc i))
                   (p\<lparr>pr_list := butlast (pr_list p), pr_sessions := (pr_sessions p)(ss_sid st := None)\<rparr>)
            else p))"
  by pat_completeness auto
termination
  by (relation "measure (\<lambda>(_, _, p). length (pr_list p))") (auto simp: Let_def)

declare SessionGC.simps [simp del]

definition move_to_front :: "'a \<Rightarrow> 'a list \<Rightarrow> 'a list" where
  "move_to_front a xs = (if a \<in> set xs then a # remove1 a xs else xs)"

definition SessionUpdate :: "int \<Rightarrow> string \<Rightarrow> provider \<Rightarrow> provider" where
  "SessionUpdate now sid p =
     (case pr_sessions p sid of
        Some a \<Rightarrow>
          p\<lparr>pr_heap := (pr_heap p)[a := (pr_heap p ! a)\<lparr>ss_timeAccessed := now\<rparr>],
            pr_list := move_to_front a (pr_list p)\<rparr>
      | None \<Rightarrow> p)"

definition set_values :: "nat \<Rightarrow> (string \<rightharpoonup> string) \<Rightarrow> provider \<Rightarrow> provider" where
  "set_values a m p = p\<lparr>pr_heap := (pr_heap p)[a := (pr_heap p ! a)\<lparr>ss_value := m\<rparr>]\<rparr>"

definition store_Set :: "int \<Rightarrow> nat \<Rightarrow> string \<Rightarrow> string \<Rightarrow> provider \<Rightarrow> provider" where
  "store_Set now a key v p =
     SessionUpdate now (ss_sid (pr_heap p ! a)) (set_values a ((ss_value (pr_heap p ! a))(key \<mapsto> v)) p)"

definition store_Get :: "int \<Rightarrow> nat \<Rightarrow> string \<Rightarrow> provider \<Rightarrow> string option \<times> provider" where
  "store_Get now a key p =
     (let p1 = SessionUpdate now (ss_sid (pr_heap p ! a)) p
      in (ss_value (pr_heap p1 ! a) key, p1))"

definition store_Delete :: "int \<Rightarrow> nat \<Rightarrow> string \<Rightarrow> provider \<Rightarrow> provider" where
  "store_Delete now a key p =
     SessionUpdate now (ss_sid (pr_heap p ! a)) (set_values a ((ss_value (pr_heap p ! a))(key := None)) p)"

definition store_SessionID :: "nat \<Rightarrow> provider \<Rightarrow> string" where
  "store_SessionID a p = ss_sid (pr_heap p ! a)"

section \<open>The manager\<close>

record manager =
  cookieName :: string
  m_provider :: provider
  maxLifeTime :: int

type_synonym providers = "string \<rightharpoonup> provider"

definition Register :: "string \<Rightarrow> provider option \<Rightarrow> providers \<Rightarrow> providers outcome" where
  "Register name p provides =
     (case p of
        None \<Rightarrow> Panic ''session: Register provider is nil''
      | Some pr \<Rightarrow>
          (if provides name \<noteq> None then Panic (''session: Register called twice for provider '' @ name)
           else Ret (provides(name \<mapsto> pr))))"

definition NewManager :: "providers \<Rightarrow> string \<Rightarrow> string \<Rightarrow> int \<Rightarrow> error + manager" where
  "NewManager provides provideName cookie_name life =
     (case provides provideName of
        None \<Rightarrow> Inl (ErrText (''session: unknown provide '' @ provideName @ '' (forgotten import?)''))
      | Some p \<Rightarrow> Inr \<lparr>cookieName = cookie_name, m_provider = p, maxLifeTime = life\<rparr>)"

text \<open>The package's \<open>init\<close>: the global manager, or a nil one.\<close>

definition session_init :: "manager option outcome" where
  "session_init =
     (case Register ''memory'' (Some empty_provider) Map.empty of
        Panic m \<Rightarrow> Panic m
      | Ret provides \<Rightarrow>
          (case NewManager provides ''memory'' ''sessionid'' 3600 of
             Inl e \<Rightarrow> Ret None
           | Inr m \<Rightarrow> Ret (Some m)))"

text \<open>Thirty-two random bytes, or nothing when the source of randomness fails.\<close>

definition sessionId :: "bytes option \<Rightarrow> string" where
  "sessionId rnd = (case rnd of None \<Rightarrow> '''' | Some b \<Rightarrow> b64_encode url_alphabet b)"

datatype cookie_header = SetSession string | ExpireSession

text \<open>
  \<open>cookie\<close> is what \<open>r.Cookie(cookieName)\<close> finds in the request. An escape that is not one
  makes the unescaped identifier empty, since its error is ignored.
\<close>

definition unescaped :: "string \<Rightarrow> string" where
  "unescaped v = (case query_unescape v of None \<Rightarrow> '''' | Some s \<Rightarrow> s)"

definition SessionStart ::
    "int \<Rightarrow> bytes option \<Rightarrow> string option \<Rightarrow> manager \<Rightarrow> nat \<times> cookie_header list \<times> manager" where
  "SessionStart now rnd cookie m =
     (if cookie = None \<or> cookie = Some '''' then
        (let sid = sessionId rnd
         in (case SessionInit now sid (m_provider m) of
               (session, p) \<Rightarrow> (session, [SetSession (query_escape sid)], m\<lparr>m_provider := p\<rparr>)))
      else
        (case SessionRead now (unescaped (the cookie)) (m_provider m) of
           (session, p) \<Rightarrow> (session, [], m\<lparr>m_provider := p\<rparr>)))"

text \<open>Destroying takes the cookie's value as it stands, without unescaping it.\<close>

definition SessionDestroy :: "string option \<Rightarrow> manager \<Rightarrow> cookie_header list \<times> manager" where
  "SessionDestroy cookie m =
     (case cookie of
        None \<Rightarrow> ([], m)
      | Some v \<Rightarrow>
          (if v = '''' then ([], m)
           else ([ExpireSession], m\<lparr>m_provider := SessionDestroy_provider v (m_provider m)\<rparr>)))"

text \<open>One run of the collector, and the delay in nanoseconds after which it runs again.\<close>

definition GC :: "(nat \<Rightarrow> int) \<Rightarrow> manager \<Rightarrow> manager \<times> int" where
  "GC clock m = (m\<lparr>m_provider := SessionGC (maxLifeTime m) clock (m_provider m)\<rparr>, maxLifeTime m)"

section \<open>The invariant of the provider\<close>

text \<open>
  The list has no repetitions and names allocated stores, and what the map says of an
  identifier is a store in the list that carries it.
\<close>

definition session_ok :: "provider \<Rightarrow> bool" where
  "session_ok p \<longleftrightarrow>
     distinct (pr_list p) \<and> (\<forall>a \<in> set (pr_list p). a < length (pr_heap p))
     \<and> (\<forall>sid a. pr_sessions p sid = Some a \<longrightarrow> a \<in> set (pr_list p) \<and> ss_sid (pr_heap p ! a) = sid)"

lemma session_ok_empty [simp]: "session_ok empty_provider"
  by (simp add: session_ok_def empty_provider_def)

lemma session_okD:
  assumes "session_ok p" "pr_sessions p sid = Some a"
  shows "a \<in> set (pr_list p)" "a < length (pr_heap p)" "ss_sid (pr_heap p ! a) = sid"
  using assms by (auto simp: session_ok_def)

lemma session_ok_init: "session_ok p \<Longrightarrow> session_ok (snd (SessionInit now sid p))"
  by (fastforce simp: session_ok_def SessionInit_def Let_def nth_append)

lemma session_ok_read: "session_ok p \<Longrightarrow> session_ok (snd (SessionRead now sid p))"
  by (simp add: SessionRead_def session_ok_init split: option.splits)

lemma session_ok_destroy: "session_ok p \<Longrightarrow> session_ok (SessionDestroy_provider sid p)"
proof (cases "pr_sessions p sid")
  case (Some x)
  assume ok: "session_ok p"
  have "a \<noteq> x" if "pr_sessions p sid' = Some a" "sid' \<noteq> sid" for sid' a
    using session_okD(3) [OF ok that(1)] session_okD(3) [OF ok Some] that(2) by auto
  with ok Some show ?thesis
    using set_remove1_subset [of x "pr_list p"]
    by (auto simp: session_ok_def SessionDestroy_provider_def in_set_remove1)
qed (simp add: SessionDestroy_provider_def)

lemma set_move_to_front [simp]: "set (move_to_front a xs) = set xs"
proof (cases "a \<in> set xs")
  case True
  have "insert a (set (remove1 a xs)) = set xs"
  proof
    show "insert a (set (remove1 a xs)) \<subseteq> set xs" using True set_remove1_subset [of a xs] by auto
    show "set xs \<subseteq> insert a (set (remove1 a xs))" by (metis in_set_remove1 insertCI subsetI)
  qed
  with True show ?thesis by (simp add: move_to_front_def)
qed (simp add: move_to_front_def)

lemma distinct_move_to_front: "distinct xs \<Longrightarrow> distinct (move_to_front a xs)"
  by (simp add: move_to_front_def)

lemma session_ok_update: "session_ok p \<Longrightarrow> session_ok (SessionUpdate now sid p)"
  by (auto simp: session_ok_def SessionUpdate_def distinct_move_to_front nth_list_update split: option.splits)

lemma session_ok_values: "session_ok p \<Longrightarrow> session_ok (set_values a m p)"
  by (cases "a < length (pr_heap p)") (auto simp: session_ok_def set_values_def nth_list_update not_less list_update_beyond)

lemma session_ok_gc: "session_ok p \<Longrightarrow> session_ok (SessionGC life clock p)"
proof (induction life clock p rule: SessionGC.induct)
  case (1 life clock p)
  show ?case
  proof (cases "pr_list p = []")
    case False
    let ?a = "last (pr_list p)"
    let ?p = "p\<lparr>pr_list := butlast (pr_list p), pr_sessions := (pr_sessions p)(ss_sid (pr_heap p ! ?a) := None)\<rparr>"
    have "a \<in> set (butlast (pr_list p))" if "a \<in> set (pr_list p)" "a \<noteq> ?a" for a
      using that False by (metis append_butlast_last_id in_set_butlast_appendI rotate1.simps(2) set_ConsD set_rotate1)
    then have "session_ok ?p"
      using "1.prems" by (auto simp: session_ok_def distinct_butlast dest: in_set_butlastD)
    with 1 False show ?thesis by (subst SessionGC.simps) (simp add: Let_def)
  qed (subst SessionGC.simps, use 1 in simp)
qed

section \<open>What the handlers rely on\<close>

text \<open>
  The interface of a provider and its sessions: \<open>view\<close> is the values of the session an
  identifier names, and \<open>handle\<close> says that a handle is the session of an identifier. An
  operation on one session does not touch the others, and the collector only removes
  sessions.
\<close>

locale session_provider =
  fixes inv :: "'p \<Rightarrow> bool"
    and view :: "'p \<Rightarrow> string \<Rightarrow> (string \<rightharpoonup> string) option"
    and handle :: "'p \<Rightarrow> 'h \<Rightarrow> string \<Rightarrow> bool"
    and init :: "int \<Rightarrow> string \<Rightarrow> 'p \<Rightarrow> 'h \<times> 'p"
    and read :: "int \<Rightarrow> string \<Rightarrow> 'p \<Rightarrow> 'h \<times> 'p"
    and put_value :: "int \<Rightarrow> 'h \<Rightarrow> string \<Rightarrow> string \<Rightarrow> 'p \<Rightarrow> 'p"
    and get_value :: "int \<Rightarrow> 'h \<Rightarrow> string \<Rightarrow> 'p \<Rightarrow> string option \<times> 'p"
    and delete_value :: "int \<Rightarrow> 'h \<Rightarrow> string \<Rightarrow> 'p \<Rightarrow> 'p"
    and destroy :: "string \<Rightarrow> 'p \<Rightarrow> 'p"
    and gc :: "int \<Rightarrow> (nat \<Rightarrow> int) \<Rightarrow> 'p \<Rightarrow> 'p"
  assumes handle_view: "inv p \<Longrightarrow> handle p h sid \<Longrightarrow> view p sid \<noteq> None"
    and init_law: "inv p \<Longrightarrow> init now sid p = (h, p') \<Longrightarrow>
      inv p' \<and> handle p' h sid \<and> view p' = (view p)(sid \<mapsto> Map.empty)"
    and read_law: "inv p \<Longrightarrow> read now sid p = (h, p') \<Longrightarrow>
      inv p' \<and> handle p' h sid
      \<and> view p' = (view p)(sid \<mapsto> (case view p sid of None \<Rightarrow> Map.empty | Some m \<Rightarrow> m))"
    and put_law: "inv p \<Longrightarrow> handle p h sid \<Longrightarrow>
      inv (put_value now h k v p) \<and> handle (put_value now h k v p) h sid
      \<and> view (put_value now h k v p) = (view p)(sid \<mapsto> (the (view p sid))(k \<mapsto> v))"
    and get_law: "inv p \<Longrightarrow> handle p h sid \<Longrightarrow> get_value now h k p = (r, p') \<Longrightarrow>
      inv p' \<and> handle p' h sid \<and> view p' = view p \<and> r = the (view p sid) k"
    and delete_law: "inv p \<Longrightarrow> handle p h sid \<Longrightarrow>
      inv (delete_value now h k p) \<and> handle (delete_value now h k p) h sid
      \<and> view (delete_value now h k p) = (view p)(sid \<mapsto> (the (view p sid))(k := None))"
    and destroy_law: "inv p \<Longrightarrow> inv (destroy sid p) \<and> view (destroy sid p) = (view p)(sid := None)"
    and gc_law: "inv p \<Longrightarrow> inv (gc life clock p) \<and> view (gc life clock p) \<subseteq>\<^sub>m view p"
begin

text \<open>Reading a value by identifier, as a later request does.\<close>

lemma read_get:
  assumes "inv p" "read now sid p = (h, p1)" "get_value now' h k p1 = (r, p2)"
  shows "r = (case view p sid of None \<Rightarrow> None | Some m \<Rightarrow> m k)"
    and "inv p2" and "view p2 = (view p)(sid \<mapsto> (case view p sid of None \<Rightarrow> Map.empty | Some m \<Rightarrow> m))"
  using read_law [OF assms(1,2)] get_law [of p1 h sid now' k r p2] assms(3)
  by (auto split: option.splits)

lemma put_get:
  assumes "inv p" "handle p h sid" "get_value now h k' (put_value now' h k v p) = (r, p2)"
  shows "r = (if k' = k then Some v else the (view p sid) k')"
  using put_law [OF assms(1,2), of now' k v] get_law [of "put_value now' h k v p" h sid now k' r p2] assms(3)
  by auto

lemma delete_get:
  assumes "inv p" "handle p h sid" "get_value now h k (delete_value now' h k p) = (r, p2)"
  shows "r = None"
  using delete_law [OF assms(1,2), of now' k] get_law [of "delete_value now' h k p" h sid now k r p2] assms(3)
  by auto

text \<open>A session that was written is still there later unless it is destroyed or collected.\<close>

lemma put_then_read:
  assumes "inv p" "handle p h sid" "read now sid (put_value now' h k v p) = (h', p1)" "get_value now h' k p1 = (r, p2)"
  shows "r = Some v"
  using put_law [OF assms(1,2), of now' k v] read_get(1) [OF _ assms(3,4)] by simp

lemma gone_after_destroy:
  assumes "inv p" "read now sid (destroy sid p) = (h, p1)" "get_value now h k p1 = (r, p2)"
  shows "r = None"
  using destroy_law [OF assms(1), of sid] read_get(1) [OF _ assms(2,3)] by simp

end

definition view_of :: "provider \<Rightarrow> string \<Rightarrow> (string \<rightharpoonup> string) option" where
  "view_of p sid = map_option (\<lambda>a. ss_value (pr_heap p ! a)) (pr_sessions p sid)"

definition handle_of :: "provider \<Rightarrow> nat \<Rightarrow> string \<Rightarrow> bool" where
  "handle_of p a sid \<longleftrightarrow> pr_sessions p sid = Some a"

lemma view_init:
  "session_ok p \<Longrightarrow> SessionInit now sid p = (h, p') \<Longrightarrow>
     handle_of p' h sid \<and> view_of p' = (view_of p)(sid \<mapsto> Map.empty)"
  by (auto simp: SessionInit_def Let_def handle_of_def view_of_def fun_eq_iff nth_append
      dest: session_okD(2) intro!: map_option_cong)

lemma view_update:
  assumes "session_ok p"
  shows "view_of (SessionUpdate now sid p) = view_of p" "handle_of (SessionUpdate now sid p) = handle_of p"
proof -
  have "pr_sessions (SessionUpdate now sid p) = pr_sessions p"
    by (simp add: SessionUpdate_def split: option.splits)
  moreover have "ss_value (pr_heap (SessionUpdate now sid p) ! a) = ss_value (pr_heap p ! a)" if "a < length (pr_heap p)" for a
    using that by (cases "pr_sessions p sid = Some a") (auto simp: SessionUpdate_def split: option.splits)
  ultimately show "view_of (SessionUpdate now sid p) = view_of p" "handle_of (SessionUpdate now sid p) = handle_of p"
    using session_okD(2) [OF assms] by (auto simp: view_of_def handle_of_def fun_eq_iff intro!: map_option_cong)
qed

lemma view_values:
  assumes "session_ok p" "handle_of p a sid"
  shows "view_of (set_values a m p) = (view_of p)(sid \<mapsto> m)" "handle_of (set_values a m p) = handle_of p"
proof -
  have a: "a < length (pr_heap p)" using assms session_okD(2) by (auto simp: handle_of_def)
  have other: "pr_heap (set_values a m p) ! b = pr_heap p ! b" if "pr_sessions p sid' = Some b" "sid' \<noteq> sid" for sid' b
  proof -
    have "b \<noteq> a"
      using session_okD(3) [OF assms(1) that(1)] session_okD(3) [OF assms(1), of sid a] assms(2) that(2)
      by (auto simp: handle_of_def)
    then show ?thesis by (simp add: set_values_def)
  qed
  have "view_of (set_values a m p) x = ((view_of p)(sid \<mapsto> m)) x" for x
  proof (cases "x = sid")
    case True
    with a assms(2) show ?thesis by (simp add: view_of_def handle_of_def set_values_def)
  next
    case False
    then show ?thesis
      using other [of x] by (cases "pr_sessions p x") (simp_all add: view_of_def, simp_all add: set_values_def)
  qed
  then show "view_of (set_values a m p) = (view_of p)(sid \<mapsto> m)" by blast
  show "handle_of (set_values a m p) = handle_of p"
    by (simp add: handle_of_def fun_eq_iff set_values_def)
qed

lemma view_gc: "view_of (SessionGC life clock p) \<subseteq>\<^sub>m view_of p"
proof (induction life clock p rule: SessionGC.induct)
  case (1 life clock p)
  let ?p = "p\<lparr>pr_list := butlast (pr_list p),
    pr_sessions := (pr_sessions p)(ss_sid (pr_heap p ! last (pr_list p)) := None)\<rparr>"
  have "view_of ?p \<subseteq>\<^sub>m view_of p" by (auto simp: map_le_def view_of_def)
  with 1 show ?case
    by (subst SessionGC.simps) (auto simp: Let_def intro: map_le_trans)
qed

interpretation memory: session_provider session_ok view_of handle_of SessionInit SessionRead
  store_Set store_Get store_Delete SessionDestroy_provider SessionGC
proof
  show "session_ok p' \<and> handle_of p' h sid
      \<and> view_of p' = (view_of p)(sid \<mapsto> (case view_of p sid of None \<Rightarrow> Map.empty | Some m \<Rightarrow> m))"
    if "session_ok p" "SessionRead now sid p = (h, p')" for p now sid h p'
  proof (cases "pr_sessions p sid")
    case None
    then have "view_of p sid = None" by (simp add: view_of_def)
    with None that session_ok_init [of p now sid] view_init [of p now sid h p'] show ?thesis
      by (simp add: SessionRead_def)
  next
    case (Some a)
    with that show ?thesis by (auto simp: SessionRead_def handle_of_def view_of_def fun_eq_iff)
  qed
  show "session_ok p' \<and> handle_of p' h sid \<and> view_of p' = view_of p \<and> r = the (view_of p sid) k"
    if "session_ok p" "handle_of p h sid" "store_Get now h k p = (r, p')" for p h sid now k r p'
    using that session_ok_update [of p] view_update [OF that(1)]
    by (auto simp: store_Get_def Let_def) (metis handle_of_def option.sel option.simps(9) view_of_def)
  show "session_ok (SessionDestroy_provider sid p)
      \<and> view_of (SessionDestroy_provider sid p) = (view_of p)(sid := None)" if "session_ok p" for p sid
    using session_ok_destroy [OF that, of sid]
    by (auto simp: SessionDestroy_provider_def view_of_def fun_eq_iff split: option.splits)
  show "session_ok (SessionGC life clock p) \<and> view_of (SessionGC life clock p) \<subseteq>\<^sub>m view_of p"
    if "session_ok p" for p life clock
    using that session_ok_gc view_gc by blast
  show "session_ok p' \<and> handle_of p' h sid \<and> view_of p' = (view_of p)(sid \<mapsto> Map.empty)"
    if "session_ok p" "SessionInit now sid p = (h, p')" for p now sid h p'
    using that session_ok_init [of p now sid] view_init [of p now sid h p'] by simp
  have stored: "session_ok (SessionUpdate now (ss_sid (pr_heap p ! h)) (set_values h m p))
      \<and> handle_of (SessionUpdate now (ss_sid (pr_heap p ! h)) (set_values h m p)) h sid
      \<and> view_of (SessionUpdate now (ss_sid (pr_heap p ! h)) (set_values h m p)) = (view_of p)(sid \<mapsto> m)"
    if "session_ok p" "handle_of p h sid" for p h sid m now
    using that session_ok_values [of p h m] session_ok_update [of "set_values h m p"]
      view_update [of "set_values h m p"] view_values [OF that] by simp
  have vals: "ss_value (pr_heap p ! h) = the (view_of p sid)" if "handle_of p h sid" for p h sid
    using that by (simp add: handle_of_def view_of_def)
  show "session_ok (store_Set now h k v p) \<and> handle_of (store_Set now h k v p) h sid
      \<and> view_of (store_Set now h k v p) = (view_of p)(sid \<mapsto> (the (view_of p sid))(k \<mapsto> v))"
    if "session_ok p" "handle_of p h sid" for p h sid now k v
    using stored [OF that] vals [OF that(2)] by (simp add: store_Set_def)
  show "session_ok (store_Delete now h k p) \<and> handle_of (store_Delete now h k p) h sid
      \<and> view_of (store_Delete now h k p) = (view_of p)(sid \<mapsto> (the (view_of p sid))(k := None))"
    if "session_ok p" "handle_of p h sid" for p h sid now k
    using stored [OF that] vals [OF that(2)] by (simp add: store_Delete_def)
qed (simp add: handle_of_def view_of_def)

section \<open>The collector\<close>

text \<open>
  The stronger invariant that holds as long as a session is only created under an
  identifier that has none: every store in the list is the one its identifier names.
\<close>

definition session_unique :: "provider \<Rightarrow> bool" where
  "session_unique p \<longleftrightarrow>
     session_ok p \<and> (\<forall>a \<in> set (pr_list p). pr_sessions p (ss_sid (pr_heap p ! a)) = Some a)"

definition expired :: "int \<Rightarrow> int \<Rightarrow> store \<Rightarrow> bool" where
  "expired life now st \<longleftrightarrow> wrap64 (ss_timeAccessed st + life) < now"

lemma session_unique_init:
  assumes "session_unique p" "pr_sessions p sid = None"
  shows "session_unique (snd (SessionInit now sid p))"
proof -
  have "ss_sid (pr_heap p ! a) \<noteq> sid" if "a \<in> set (pr_list p)" for a
    using that assms by (auto simp: session_unique_def)
  moreover have "a < length (pr_heap p)" if "a \<in> set (pr_list p)" for a
    using that assms(1) by (simp add: session_unique_def session_ok_def)
  ultimately show ?thesis
    using assms session_ok_init [of p now sid]
    by (auto simp: session_unique_def SessionInit_def Let_def nth_append)
qed

lemma session_unique_read: "session_unique p \<Longrightarrow> session_unique (snd (SessionRead now sid p))"
  by (cases "pr_sessions p sid") (simp_all add: SessionRead_def session_unique_init)

lemma session_unique_gc_step:
  assumes "session_unique p" "pr_list p \<noteq> []"
  defines "a \<equiv> last (pr_list p)"
  shows "session_unique (p\<lparr>pr_list := butlast (pr_list p), pr_sessions := (pr_sessions p)(ss_sid (pr_heap p ! a) := None)\<rparr>)"
proof -
  have split: "pr_list p = butlast (pr_list p) @ [a]" using assms(2) by (simp add: a_def)
  have d: "distinct (pr_list p)" using assms(1) by (simp add: session_unique_def session_ok_def)
  then have na: "a \<notin> set (butlast (pr_list p))" by (subst (asm) split) simp
  have other: "ss_sid (pr_heap p ! b) \<noteq> ss_sid (pr_heap p ! a)" if "b \<in> set (butlast (pr_list p))" for b
    using that na assms(1) in_set_butlastD [OF that] last_in_set [OF assms(2)]
    unfolding session_unique_def a_def by (metis option.inject)
  have keep: "b \<in> set (butlast (pr_list p))" if "pr_sessions p sid = Some b" "sid \<noteq> ss_sid (pr_heap p ! a)" for sid b
  proof -
    have "b \<in> set (pr_list p)" "ss_sid (pr_heap p ! b) = sid"
      using session_okD [of p sid b] assms(1) that(1) by (simp_all add: session_unique_def)
    with that(2) split show ?thesis by (metis Un_iff empty_iff empty_set insert_iff list.simps(15) set_append)
  qed
  show ?thesis
    using assms(1) d other keep by (auto simp: session_unique_def session_ok_def distinct_butlast dest: in_set_butlastD)
qed

text \<open>Only expired sessions are removed, and a session that stays keeps its store.\<close>

lemma gc_removed_expired:
  assumes "session_unique p" "pr_sessions p sid = Some a" "pr_sessions (SessionGC life clock p) sid = None"
  shows "\<exists>i. expired life (clock i) (pr_heap p ! a)"
  using assms
proof (induction life clock p rule: SessionGC.induct)
  case (1 life clock p)
  let ?a = "last (pr_list p)"
  let ?p = "p\<lparr>pr_list := butlast (pr_list p), pr_sessions := (pr_sessions p)(ss_sid (pr_heap p ! ?a) := None)\<rparr>"
  have ne: "pr_list p \<noteq> []" "expired life (clock 0) (pr_heap p ! ?a)"
    using 1(3,4) by (auto simp: expired_def Let_def SessionGC.simps [of life clock p] split: if_splits)
  show ?case
  proof (cases "sid = ss_sid (pr_heap p ! ?a)")
    case True
    then have "pr_sessions p sid = Some ?a" using 1(2) ne(1) by (simp add: session_unique_def)
    with 1(3) ne(2) show ?thesis by auto
  next
    case False
    have "\<exists>i. expired life (clock (Suc i)) (pr_heap ?p ! a)"
    proof (rule 1(1) [OF ne(1) refl refl])
      show "wrap64 (ss_timeAccessed (pr_heap p ! ?a) + life) < clock 0" using ne(2) by (simp add: expired_def)
      show "session_unique ?p" using session_unique_gc_step [OF 1(2) ne(1)] .
      show "pr_sessions ?p sid = Some a" using False 1(3) by simp
      show "pr_sessions (SessionGC life (\<lambda>i. clock (Suc i)) ?p) sid = None"
        using 1(4) ne by (simp add: SessionGC.simps [of life clock p] Let_def expired_def)
    qed
    then show ?thesis by auto
  qed
qed

text \<open>With the list in order of access, the most recent first, nothing expired is left.\<close>

definition by_access :: "provider \<Rightarrow> bool" where
  "by_access p \<longleftrightarrow> sorted_wrt (\<lambda>a b. ss_timeAccessed (pr_heap p ! a) \<ge> ss_timeAccessed (pr_heap p ! b)) (pr_list p)"

definition times_fit :: "int \<Rightarrow> provider \<Rightarrow> bool" where
  "times_fit life p \<longleftrightarrow> (\<forall>a \<in> set (pr_list p). fits 64 (ss_timeAccessed (pr_heap p ! a) + life))"

lemma gc_complete:
  assumes "by_access p" "times_fit life p"
  shows "\<forall>a \<in> set (pr_list (SessionGC life (\<lambda>_. now) p)). \<not> expired life now (pr_heap p ! a)"
  using assms
proof (induction "length (pr_list p)" arbitrary: p)
  case 0
  then show ?case by (simp add: SessionGC.simps)
next
  case (Suc n)
  let ?a = "last (pr_list p)"
  let ?p = "p\<lparr>pr_list := butlast (pr_list p), pr_sessions := (pr_sessions p)(ss_sid (pr_heap p ! ?a) := None)\<rparr>"
  have ne: "pr_list p \<noteq> []" using Suc.hyps(2) by auto
  then have split: "pr_list p = butlast (pr_list p) @ [?a]" by simp
  show ?case
  proof (cases "expired life now (pr_heap p ! ?a)")
    case True
    have "by_access ?p" using Suc.prems(1) unfolding by_access_def by (subst (asm) split) (simp add: sorted_wrt_append)
    moreover have "times_fit life ?p" using Suc.prems(2) by (auto simp: times_fit_def dest: in_set_butlastD)
    ultimately have "\<forall>a \<in> set (pr_list (SessionGC life (\<lambda>_. now) ?p)). \<not> expired life now (pr_heap ?p ! a)"
      using Suc.hyps(2) by (intro Suc.hyps(1)) auto
    with True ne show ?thesis by (simp add: SessionGC.simps [of life _ p] Let_def expired_def)
  next
    case False
    have "ss_timeAccessed (pr_heap p ! a) \<ge> ss_timeAccessed (pr_heap p ! ?a)" if "a \<in> set (pr_list p)" for a
      using Suc.prems(1) that unfolding by_access_def by (subst (asm) (1 2) split) (auto simp: sorted_wrt_append)
    with False Suc.prems(2) ne have "\<not> expired life now (pr_heap p ! a)" if "a \<in> set (pr_list p)" for a
      using that by (fastforce simp: expired_def times_fit_def wrap64_id)
    with False ne show ?thesis by (simp add: SessionGC.simps [of life _ p] Let_def expired_def)
  qed
qed

section \<open>The manager as a state machine\<close>

text \<open>
  The steps of the session manager; a new session gets an identifier that no session has, as
  32 random bytes do. Handles are stores that exist, of live sessions or not.
\<close>

inductive session_step :: "manager \<Rightarrow> manager \<Rightarrow> bool" where
  start: "SessionStart now rnd cookie m = (a, hs, m') \<Longrightarrow>
    cookie = None \<or> cookie = Some '''' \<longrightarrow> pr_sessions (m_provider m) (sessionId rnd) = None \<Longrightarrow> session_step m m'"
| destroy: "SessionDestroy cookie m = (hs, m') \<Longrightarrow> session_step m m'"
| collect: "GC clock m = (m', delay) \<Longrightarrow> session_step m m'"
| set_value: "a < length (pr_heap (m_provider m)) \<Longrightarrow>
    session_step m (m\<lparr>m_provider := store_Set now a k v (m_provider m)\<rparr>)"
| get_value: "a < length (pr_heap (m_provider m)) \<Longrightarrow>
    session_step m (m\<lparr>m_provider := snd (store_Get now a k (m_provider m))\<rparr>)"
| delete_value: "a < length (pr_heap (m_provider m)) \<Longrightarrow>
    session_step m (m\<lparr>m_provider := store_Delete now a k (m_provider m)\<rparr>)"

inductive session_reachable :: "manager \<Rightarrow> bool" where
  init: "session_init = Ret (Some m) \<Longrightarrow> session_reachable m"
| step: "session_reachable m \<Longrightarrow> session_step m m' \<Longrightarrow> session_reachable m'"

inductive_cases session_stepE: "session_step m m'"

lemma session_init_manager:
  "session_init = Ret (Some \<lparr>cookieName = ''sessionid'', m_provider = empty_provider, maxLifeTime = 3600\<rparr>)"
  by (simp add: session_init_def Register_def NewManager_def)

lemma session_unique_update: "session_unique p \<Longrightarrow> session_unique (SessionUpdate now sid p)"
proof -
  assume u: "session_unique p"
  have sids: "ss_sid (pr_heap (SessionUpdate now sid p) ! a) = ss_sid (pr_heap p ! a)" if "a < length (pr_heap p)" for a
    using that by (cases "pr_sessions p sid = Some a") (auto simp: SessionUpdate_def split: option.splits)
  have "set (pr_list (SessionUpdate now sid p)) = set (pr_list p)"
    "pr_sessions (SessionUpdate now sid p) = pr_sessions p"
    by (simp_all add: SessionUpdate_def split: option.splits)
  with u sids session_ok_update [of p now sid] show ?thesis
    by (auto simp: session_unique_def session_ok_def)
qed

lemma session_unique_values: "session_unique p \<Longrightarrow> session_unique (set_values a m p)"
  using session_ok_values [of p a m]
  by (cases "a < length (pr_heap p)")
     (auto simp: session_unique_def set_values_def nth_list_update list_update_beyond)

lemma session_unique_destroy: "session_unique p \<Longrightarrow> session_unique (SessionDestroy_provider sid p)"
proof (cases "pr_sessions p sid")
  case (Some x)
  assume u: "session_unique p"
  then have d: "distinct (pr_list p)" "ss_sid (pr_heap p ! x) = sid"
    using session_okD(3) [of p sid x] Some by (simp_all add: session_unique_def session_ok_def)
  have "ss_sid (pr_heap p ! b) \<noteq> sid" if "b \<in> set (pr_list p)" "b \<noteq> x" for b
    using u that Some by (metis option.inject session_unique_def)
  with u d Some session_ok_destroy [of p sid] show ?thesis
    by (auto simp: session_unique_def SessionDestroy_provider_def)
qed (simp add: SessionDestroy_provider_def)

lemma session_unique_gc: "session_unique p \<Longrightarrow> session_unique (SessionGC life clock p)"
proof (induction life clock p rule: SessionGC.induct)
  case (1 life clock p)
  then show ?case
    using session_unique_gc_step [OF 1(2)]
    by (subst SessionGC.simps) (simp add: Let_def)
qed

lemma session_step_unique:
  assumes "session_step m m'" "session_unique (m_provider m)"
  shows "session_unique (m_provider m')"
  using assms
proof (cases rule: session_step.cases)
  case (start now rnd cookie a hs)
  with assms(2) session_unique_init [of "m_provider m" "sessionId rnd" now]
    session_unique_read [of "m_provider m" now "unescaped (the cookie)"]
  show ?thesis by (auto simp: SessionStart_def Let_def split: prod.splits if_splits)
next
  case (destroy cookie hs)
  with assms(2) session_unique_destroy show ?thesis
    by (auto simp: SessionDestroy_def split: option.splits if_splits)
qed (use assms(2) session_unique_gc session_unique_update session_unique_values in
  \<open>auto simp: GC_def store_Set_def store_Get_def store_Delete_def Let_def\<close>)

lemma session_step_settings: "session_step m m' \<Longrightarrow> cookieName m' = cookieName m \<and> maxLifeTime m' = maxLifeTime m"
  by (auto elim!: session_stepE simp: SessionStart_def SessionDestroy_def GC_def Let_def
      split: prod.splits if_splits option.splits)

lemma reachable_unique:
  "session_reachable m \<Longrightarrow> session_unique (m_provider m) \<and> cookieName m = ''sessionid'' \<and> maxLifeTime m = 3600"
proof (induction rule: session_reachable.induct)
  case (init m)
  then show ?case
    by (auto simp: session_init_manager session_unique_def) (simp add: empty_provider_def)
next
  case (step m m')
  then show ?case using session_step_unique session_step_settings by simp
qed

lemma encode_url_chars: "set (b64_encode url_alphabet s) \<subseteq> insert (CHR ''='') (set url_alphabet)"
  using b64_encode_chars url_alphabet_ok by blast

lemma query_escape_Nil_iff [simp]: "query_escape s = [] \<longleftrightarrow> s = []"
  by (metis option.inject query_escape.simps(1) query_roundtrip)

lemma sid_escape_differs:
  assumes "length b mod 3 \<noteq> 0"
  shows "query_escape (b64_encode url_alphabet b) \<noteq> b64_encode url_alphabet b"
proof
  assume eq: "query_escape (b64_encode url_alphabet b) = b64_encode url_alphabet b"
  have "CHR ''%'' \<in> set (query_escape (b64_encode url_alphabet b))"
    by (rule query_escape_changes [OF b64_encode_pad [OF assms]]) (simp_all add: unreserved_def is_digit_def in_range_def)
  with eq encode_url_chars [of b] show False by (auto simp: url_alphabet_def)
qed

section \<open>Properties\<close>

text \<open>
  C17: In every reachable state of the session manager the provider's structures agree: the
  list has no repetitions, the map sends an identifier to a store of the list that carries
  it, and every store of the list is the one its identifier names.
\<close>

theorem session_structures_agree:
  assumes "session_reachable m"
  shows "session_unique (m_provider m) \<and> session_ok (m_provider m)"
  using reachable_unique [OF assms] by (simp add: session_unique_def)

definition initial_manager :: manager where
  "initial_manager = \<lparr>cookieName = ''sessionid'', m_provider = empty_provider, maxLifeTime = 3600\<rparr>"

definition visited_manager :: manager where
  "visited_manager = snd (snd (SessionStart 0 (Some (replicate 32 (CHR ''r''))) None initial_manager))"

lemma visited_reachable: "session_reachable visited_manager"
proof (rule session_reachable.step)
  show "session_reachable initial_manager"
    by (rule session_reachable.init) (simp add: session_init_manager initial_manager_def)
  have "SessionStart 0 (Some (replicate 32 (CHR ''r''))) None initial_manager
      = (fst (SessionStart 0 (Some (replicate 32 (CHR ''r''))) None initial_manager),
         fst (snd (SessionStart 0 (Some (replicate 32 (CHR ''r''))) None initial_manager)), visited_manager)"
    by (simp add: visited_manager_def)
  then show "session_step initial_manager visited_manager"
    by (rule session_step.start) (simp add: initial_manager_def empty_provider_def)
qed

lemma session_structures_agree_witness:
  "session_unique (m_provider visited_manager) \<and> pr_list (m_provider visited_manager) = [0]"
  using session_structures_agree [OF visited_reachable]
  by (simp add: visited_manager_def SessionStart_def SessionInit_def initial_manager_def empty_provider_def Let_def)

text \<open>
  C35: The collector removes nothing that is in use: in a reachable state, a session that one
  of its runs removes had not been used for longer than the maximal life time at
  some reading of the clock during the run.
\<close>

theorem gc_removes_expired_only:
  assumes "session_reachable m" "pr_sessions (m_provider m) sid = Some a"
    and "pr_sessions (m_provider (fst (GC clock m))) sid = None"
  shows "\<exists>i. wrap64 (ss_timeAccessed (pr_heap (m_provider m) ! a) + 3600) < clock i"
  using gc_removed_expired [of "m_provider m" sid a 3600 clock] reachable_unique [OF assms(1)] assms(2,3)
  by (simp add: GC_def expired_def)

lemma visited_provider:
  "m_provider visited_manager =
     \<lparr>pr_sessions = [sessionId (Some (replicate 32 (CHR ''r''))) \<mapsto> 0], pr_list = [0],
      pr_heap = [\<lparr>ss_sid = sessionId (Some (replicate 32 (CHR ''r''))), ss_timeAccessed = 0, ss_value = Map.empty\<rparr>]\<rparr>"
  by (simp add: visited_manager_def SessionStart_def SessionInit_def initial_manager_def empty_provider_def Let_def)

lemma gc_removes_expired_only_witness:
  "pr_sessions (m_provider (fst (GC (\<lambda>_. 5000) visited_manager))) (sessionId (Some (replicate 32 (CHR ''r'')))) = None
     \<and> (\<exists>i::nat. wrap64 (0 + 3600) < 5000)"
proof -
  have gone: "pr_sessions (m_provider (fst (GC (\<lambda>_. 5000) visited_manager))) (sessionId (Some (replicate 32 (CHR ''r'')))) = None"
    using reachable_unique [OF visited_reachable]
    by (simp add: GC_def visited_provider SessionGC.simps wrap64_def)
  have "pr_sessions (m_provider visited_manager) (sessionId (Some (replicate 32 (CHR ''r'')))) = Some 0"
    by (simp add: visited_provider)
  from gc_removes_expired_only [OF visited_reachable this gone] gone show ?thesis
    by (simp add: visited_provider)
qed

text \<open>
  When the list is in order of access, the most recently used session first, one run of
  the collector leaves no expired session behind.
\<close>

lemma gc_collects_all_in_order:
  assumes "by_access (m_provider m)" "times_fit (maxLifeTime m) (m_provider m)"
  shows "\<forall>a \<in> set (pr_list (m_provider (fst (GC (\<lambda>_. now) m)))).
    \<not> expired (maxLifeTime m) now (pr_heap (m_provider m) ! a)"
  using gc_complete [OF assms, of now] by (simp add: GC_def)

lemma gc_collects_all_in_order_witness:
  "list_all (\<lambda>a. \<not> expired 3600 5000 (pr_heap (m_provider visited_manager) ! a))
     (pr_list (m_provider (fst (GC (\<lambda>_. 5000) visited_manager))))"
proof -
  have life: "maxLifeTime visited_manager = 3600" using reachable_unique [OF visited_reachable] by simp
  show ?thesis unfolding list_all_iff
    by (rule gc_collects_all_in_order [of visited_manager 5000, unfolded life])
       (simp_all add: visited_provider by_access_def times_fit_def fits_def)
qed

text \<open>
  The order is not kept, though: a new session goes to the back of the list, where the
  collector looks first. After a session is created, and until it has expired itself or
  been used, the collector removes nothing, whatever other sessions have expired.
\<close>

lemma new_session_shields_expired:
  assumes "clock 0 \<le> now + life" "fits 64 (now + life)"
  shows "SessionGC life clock (snd (SessionInit now sid p)) = snd (SessionInit now sid p)"
  using assms
  by (subst SessionGC.simps) (simp add: SessionInit_def Let_def wrap64_id)

text \<open>A session not used for a day, and a visitor a minute ago.\<close>

lemma new_session_shields_expired_witness:
  "let p = snd (SessionInit 86400 ''new'' (snd (SessionInit 0 ''old'' empty_provider)))
   in SessionGC 3600 (\<lambda>_. 86460) p = p \<and> pr_sessions p ''old'' = Some 0
      \<and> expired 3600 86460 (pr_heap p ! 0)"
proof -
  have "SessionGC 3600 (\<lambda>_. 86460) (snd (SessionInit 86400 ''new'' (snd (SessionInit 0 ''old'' empty_provider))))
      = snd (SessionInit 86400 ''new'' (snd (SessionInit 0 ''old'' empty_provider)))"
    by (rule new_session_shields_expired) (simp_all add: fits_def)
  then show ?thesis
    by (simp add: SessionInit_def empty_provider_def Let_def expired_def wrap64_def)
qed

text \<open>
  A browser gets its session back. When SessionStart without a cookie has created a
  session and set a cookie, SessionStart with that cookie finds the same session and
  changes nothing.
\<close>

lemma session_cookie_roundtrip:
  assumes "SessionStart now rnd None m = (a, [SetSession v], m')" "v \<noteq> ''''"
  shows "SessionStart now' rnd' (Some v) m' = (a, [], m')"
proof -
  have v: "v = query_escape (sessionId rnd)" and m': "m' = m\<lparr>m_provider := snd (SessionInit now (sessionId rnd) (m_provider m))\<rparr>"
    and a: "a = fst (SessionInit now (sessionId rnd) (m_provider m))"
    using assms(1) by (auto simp: SessionStart_def Let_def split: prod.splits)
  have "pr_sessions (m_provider m') (sessionId rnd) = Some a"
    by (simp add: m' a SessionInit_def Let_def)
  with assms(2) show ?thesis by (simp add: SessionStart_def SessionRead_def unescaped_def v)
qed

lemma session_cookie_roundtrip_witness:
  "SessionStart 9 None (Some (query_escape (sessionId (Some (replicate 32 (CHR ''r'')))))) visited_manager = (0, [], visited_manager)"
proof (rule session_cookie_roundtrip [of 0 "Some (replicate 32 (CHR ''r''))" initial_manager])
  show "query_escape (sessionId (Some (replicate 32 (CHR ''r'')))) \<noteq> ''''" by (simp add: sessionId_def)
qed (simp add: SessionStart_def visited_manager_def SessionInit_def initial_manager_def empty_provider_def Let_def)

text \<open>
  SessionDestroy does not destroy the session of a cookie the manager has set. The
  identifier of 32 random bytes ends in an equals sign, the cookie carries it escaped, and
  SessionDestroy looks for the escaped text: the session stays in the map with its values.
  (The browser is told to drop the cookie all the same.)
\<close>

lemma destroy_misses_own_cookie:
  assumes "length b = 32"
  shows "pr_sessions (m_provider (snd (SessionDestroy (Some (query_escape (sessionId (Some b)))) m))) (sessionId (Some b))
      = pr_sessions (m_provider m) (sessionId (Some b))
    \<and> fst (SessionDestroy (Some (query_escape (sessionId (Some b)))) m) = [ExpireSession]"
proof -
  have ne: "query_escape (sessionId (Some b)) \<noteq> sessionId (Some b)"
    using sid_escape_differs [of b] assms by (simp add: sessionId_def)
  have "sessionId (Some b) \<noteq> []" using assms by (auto simp: sessionId_def)
  with ne show ?thesis
    by (simp add: SessionDestroy_def SessionDestroy_provider_def split: option.splits)
qed

lemma destroy_misses_own_cookie_witness:
  "pr_sessions (m_provider (snd (SessionDestroy (Some (query_escape (sessionId (Some (replicate 32 (CHR ''r'')))))) visited_manager)))
     (sessionId (Some (replicate 32 (CHR ''r'')))) = Some 0"
  using destroy_misses_own_cookie [of "replicate 32 (CHR ''r'')" visited_manager]
  by (simp add: visited_provider)

text \<open>
  A session is chosen by whoever sends the cookie. Every cookie value starts the session of
  its unescaped text, creating it under that very identifier when there is none; all the
  values that are not well escaped share the session of the empty identifier.
\<close>

lemma cookie_chooses_session:
  assumes "session_ok (m_provider m)" "v \<noteq> ''''" "SessionStart now rnd (Some v) m = (a, hs, m')"
  shows "handle_of (m_provider m') a (case query_unescape v of Some sid \<Rightarrow> sid | None \<Rightarrow> '''') \<and> hs = []"
  using assms memory.read_law [OF assms(1)]
  by (auto simp: SessionStart_def unescaped_def split: prod.splits option.splits)

lemma cookie_chooses_session_witness:
  "handle_of (m_provider (snd (snd (SessionStart 5 None (Some ''%%'') initial_manager)))) 0 ''''"
  using session_ok_empty [unfolded empty_provider_def] cookie_chooses_session [of initial_manager "''%%''" 5 None 0 "[]"
      "snd (snd (SessionStart 5 None (Some ''%%'') initial_manager))"]
  by (simp add: initial_manager_def SessionStart_def SessionRead_def SessionInit_def empty_provider_def unescaped_def
      hex_val_def Let_def)

end
