(* ===== verification/Paths.thy ===== *)
theory Paths
  imports Prelude
begin

text \<open>
  Go's package \<open>path\<close>, as far as the file handling uses it: \<open>Clean\<close>, \<open>Dir\<close> and \<open>Base\<close> on
  slash-separated paths. Cleaning is lexical: empty elements and dots go, a double dot
  removes the element before it.
\<close>

section \<open>Splitting and joining\<close>

fun split_slash :: "string \<Rightarrow> string list" where
  "split_slash [] = [[]]"
| "split_slash (c # s) =
     (if c = CHR ''/'' then [] # split_slash s
      else (case split_slash s of p # ps \<Rightarrow> (c # p) # ps | [] \<Rightarrow> [[c]]))"

fun join_slash :: "string list \<Rightarrow> string" where
  "join_slash [] = []"
| "join_slash [p] = p"
| "join_slash (p # q # ps) = p @ CHR ''/'' # join_slash (q # ps)"

lemma split_slash_nonempty [simp]: "split_slash s \<noteq> []"
  by (induction s) (auto split: list.splits)

lemma join_split [simp]: "join_slash (split_slash s) = s"
proof (induction s)
  case (Cons c s)
  then show ?case
    by (cases "split_slash s" rule: join_slash.cases) (auto split: list.splits)
qed simp

lemma join_Cons: "ps \<noteq> [] \<Longrightarrow> join_slash (p # ps) = p @ CHR ''/'' # join_slash ps"
  by (cases ps) auto

lemma split_join: "\<forall>p \<in> set ps. CHR ''/'' \<notin> set p \<Longrightarrow> ps \<noteq> [] \<Longrightarrow> split_slash (join_slash ps) = ps"
proof (induction ps rule: join_slash.induct)
  case (2 p)
  then have "CHR ''/'' \<notin> set p" by simp
  then show ?case by (induction p) auto
next
  case (3 p q ps)
  have "split_slash (p @ CHR ''/'' # s) = p # split_slash s" if "CHR ''/'' \<notin> set p" for s
    using that by (induction p) auto
  with 3 show ?case by simp
qed simp

lemma split_slash_append: "split_slash (s @ CHR ''/'' # t) = split_slash s @ split_slash t"
  by (induction s) (auto split: list.splits)

lemma split_slash_single: "CHR ''/'' \<notin> set s \<Longrightarrow> split_slash s = [s]"
  by (induction s) auto

lemma split_slash_parts: "p \<in> set (split_slash s) \<Longrightarrow> CHR ''/'' \<notin> set p"
proof (induction s arbitrary: p)
  case (Cons c s)
  then show ?case by (cases "split_slash s") (auto split: if_splits)
qed simp

section \<open>Clean, Dir and Base\<close>

definition dot :: string where "dot = ''.''"
definition dot_dot :: string where "dot_dot = ''..''"

text \<open>The elements kept so far, the last one first.\<close>

fun clean_parts :: "bool \<Rightarrow> string list \<Rightarrow> string list \<Rightarrow> string list" where
  "clean_parts rooted st [] = rev st"
| "clean_parts rooted st (p # ps) =
     (if p = [] \<or> p = dot then clean_parts rooted st ps
      else if p = dot_dot then
        (case st of
           [] \<Rightarrow> clean_parts rooted (if rooted then [] else [dot_dot]) ps
         | q # st' \<Rightarrow> clean_parts rooted (if q = dot_dot then dot_dot # st else st') ps)
      else clean_parts rooted (p # st) ps)"

definition path_Clean :: "string \<Rightarrow> string" where
  "path_Clean path =
     (let rooted = (path \<noteq> [] \<and> hd path = CHR ''/'');
          out = join_slash (clean_parts rooted [] (split_slash path))
      in if rooted then CHR ''/'' # out else if out = [] then dot else out)"

text \<open>Everything up to the last slash, and what follows it.\<close>

definition path_Split :: "string \<Rightarrow> string \<times> string" where
  "path_Split path =
     (let f = rev (takeWhile (\<lambda>c. c \<noteq> CHR ''/'') (rev path))
      in (take (length path - length f) path, f))"

definition path_Dir :: "string \<Rightarrow> string" where
  "path_Dir path = path_Clean (fst (path_Split path))"

definition path_Base :: "string \<Rightarrow> string" where
  "path_Base path =
     (if path = [] then dot
      else (let p = rev (dropWhile (\<lambda>c. c = CHR ''/'') (rev path)); b = snd (path_Split p)
            in if b = [] then ''/'' else b))"

lemma path_Clean_examples:
  "path_Clean ''./tempUploadFiles/a.pdf'' = ''tempUploadFiles/a.pdf''"
  "path_Clean ''./tempUploadFiles/../../x.pdf'' = ''../x.pdf''"
  "path_Dir ''./tempUploadFiles/a.pdf'' = ''tempUploadFiles''"
  "path_Base ''../files/a.pdf'' = ''a.pdf''"
  by (simp_all add: path_Clean_def path_Dir_def path_Base_def path_Split_def dot_def dot_dot_def Let_def)

section \<open>The parent directory is shorter\<close>

definition weight :: "string list \<Rightarrow> nat" where
  "weight ps = (\<Sum>p\<leftarrow>ps. length p + 1)"

lemma weight_simps [simp]:
  "weight [] = 0" "weight (p # ps) = length p + 1 + weight ps" "weight (ps @ qs) = weight ps + weight qs"
  by (simp_all add: weight_def)

lemma weight_rev [simp]: "weight (rev ps) = weight ps"
  by (induction ps) auto

lemma join_weight: "length (join_slash ps) = weight ps - 1"
  by (induction ps rule: join_slash.induct) auto

lemma weight_split: "weight (split_slash s) = length s + 1"
  by (induction s) (auto split: list.splits)

lemma clean_weight: "weight (clean_parts rooted st ps) \<le> weight st + weight ps"
  by (induction rooted st ps rule: clean_parts.induct) (auto split: list.splits if_splits)

lemma clean_append_empty: "clean_parts rooted st (ps @ [[]]) = clean_parts rooted st ps"
  by (induction rooted st ps rule: clean_parts.induct) (auto split: list.splits)

lemma clean_dir_shorter: "length (path_Clean (d @ ''/'')) \<le> max 1 (length d)"
proof -
  have sp: "split_slash (d @ ''/'') = split_slash d @ [[]]" using split_slash_append [of d "[]"] by simp
  show ?thesis
  proof (cases d)
    case Nil
    then show ?thesis by (simp add: path_Clean_def Let_def)
  next
    case (Cons c d')
    let ?r = "c = CHR ''/''"
    have "weight (clean_parts ?r [] (split_slash d)) \<le> length d + (if ?r then 0 else 1)"
    proof (cases ?r)
      case True
      then have "clean_parts ?r [] (split_slash d) = clean_parts ?r [] (split_slash d')"
        by (simp add: Cons)
      with clean_weight [of ?r "[]" "split_slash d'"] show ?thesis by (simp add: weight_split Cons)
    next
      case False
      with clean_weight [of ?r "[]" "split_slash d"] show ?thesis by (simp add: weight_split)
    qed
    moreover have "path_Clean (d @ ''/'') =
        (if ?r then CHR ''/'' # join_slash (clean_parts ?r [] (split_slash d))
         else if join_slash (clean_parts ?r [] (split_slash d)) = [] then dot
         else join_slash (clean_parts ?r [] (split_slash d)))"
    proof -
      have "hd (d @ ''/'') = c" "d @ ''/'' \<noteq> []" by (simp_all add: Cons)
      then show ?thesis by (simp add: path_Clean_def sp clean_append_empty Let_def)
    qed
    moreover have "1 \<le> length d" by (simp add: Cons)
    ultimately show ?thesis by (auto simp: join_weight dot_def)
  qed
qed

lemma path_Split_dir:
  obtains "fst (path_Split p) = []" | d where "fst (path_Split p) = d @ ''/''" "length d < length p"
proof -
  define f where "f = rev (takeWhile (\<lambda>c. c \<noteq> CHR ''/'') (rev p))"
  define d where "d = rev (dropWhile (\<lambda>c. c \<noteq> CHR ''/'') (rev p))"
  have p: "p = d @ f"
    unfolding d_def f_def by (metis rev_append rev_rev_ident takeWhile_dropWhile_id)
  have "fst (path_Split p) = take (length p - length f) p"
    by (simp only: path_Split_def Let_def f_def fst_conv)
  also have "\<dots> = d" by (simp add: p)
  finally have fst: "fst (path_Split p) = d" .
  show thesis
  proof (cases "dropWhile (\<lambda>c. c \<noteq> CHR ''/'') (rev p)")
    case Nil
    with fst that(1) show thesis by (simp add: d_def)
  next
    case (Cons c r)
    then have "c = CHR ''/''" by (metis (mono_tags, lifting) dropWhile_eq_Cons_conv)
    with Cons have d: "d = rev r @ ''/''" by (simp add: d_def)
    then have "length (rev r) < length p" by (simp add: p)
    with d fst that(2) show thesis by simp
  qed
qed

lemma path_Dir_shorter: "1 < length p \<Longrightarrow> length (path_Dir p) < length p"
proof (cases rule: path_Split_dir [of p])
  case 1
  assume "1 < length p"
  with 1 show ?thesis by (simp add: path_Dir_def path_Clean_def dot_def Let_def)
next
  case (2 d)
  assume "1 < length p"
  with 2 clean_dir_shorter [of d] show ?thesis by (simp add: path_Dir_def)
qed

end
