(* ===== verification/Utf8.thy ===== *)
theory Utf8
  imports Prelude
begin

text \<open>
  UTF-8 as Go's \<open>unicode/utf8\<close> decodes it: a string either starts with the encoding of a
  rune (no overlong form, no surrogate, at most U+10FFFF) or its first byte is invalid and
  stands alone. The composite keys of the chaincode are checked with it, and
  \<open>encoding/json\<close> replaces what is not valid. A string is valid exactly when it is the
  concatenation of encoded runes, the form every proof about texts uses.
\<close>

section \<open>Runes\<close>

definition valid_rune :: "nat \<Rightarrow> bool" where
  "valid_rune r \<longleftrightarrow> r < 0xD800 \<or> (0xE000 \<le> r \<and> r < 0x110000)"

definition rune_error :: nat where
  "rune_error = 0xFFFD"

definition utf8_encode :: "nat \<Rightarrow> bytes" where
  "utf8_encode r =
     (if r < 0x80 then [char_of r]
      else if r < 0x800 then [char_of (0xC0 + r div 64), char_of (0x80 + r mod 64)]
      else if r < 0x10000 then
        [char_of (0xE0 + r div 4096), char_of (0x80 + r div 64 mod 64), char_of (0x80 + r mod 64)]
      else
        [char_of (0xF0 + r div 262144), char_of (0x80 + r div 4096 mod 64),
         char_of (0x80 + r div 64 mod 64), char_of (0x80 + r mod 64)])"

definition cont_byte :: "char \<Rightarrow> bool" where
  "cont_byte c \<longleftrightarrow> 0x80 \<le> byte c \<and> byte c < 0xC0"

text \<open>The rune a string starts with and the rest, or nothing when its first byte is invalid.\<close>

fun utf8_split :: "bytes \<Rightarrow> (nat \<times> bytes) option" where
  "utf8_split [] = None"
| "utf8_split (a # s) =
     (if byte a < 0x80 then Some (byte a, s)
      else if byte a < 0xC0 then None
      else if byte a < 0xE0 then
        (case s of
           b # s' \<Rightarrow>
             (let r = (byte a - 0xC0) * 64 + (byte b - 0x80)
              in if cont_byte b \<and> 0x80 \<le> r then Some (r, s') else None)
         | _ \<Rightarrow> None)
      else if byte a < 0xF0 then
        (case s of
           b # c # s' \<Rightarrow>
             (let r = (byte a - 0xE0) * 4096 + (byte b - 0x80) * 64 + (byte c - 0x80)
              in if cont_byte b \<and> cont_byte c \<and> 0x800 \<le> r \<and> valid_rune r
                 then Some (r, s') else None)
         | _ \<Rightarrow> None)
      else if byte a < 0xF8 then
        (case s of
           b # c # d # s' \<Rightarrow>
             (let r = (byte a - 0xF0) * 262144 + (byte b - 0x80) * 4096
                      + (byte c - 0x80) * 64 + (byte d - 0x80)
              in if cont_byte b \<and> cont_byte c \<and> cont_byte d \<and> 0x10000 \<le> r \<and> valid_rune r
                 then Some (r, s') else None)
         | _ \<Rightarrow> None)
      else None)"

lemma utf8_split_shorter: "utf8_split s = Some (r, t) \<Longrightarrow> length t < length s"
  by (cases s) (auto simp: Let_def split: if_splits list.splits)

lemma utf8_split_ascii [simp]: "byte c < 0x80 \<Longrightarrow> utf8_split (c # s) = Some (byte c, s)"
  by simp

lemma byte_lead: "n < 64 \<Longrightarrow> byte (char_of (0xC0 + n :: nat)) = 0xC0 + n"
  by simp

lemma byte_cont [simp]: "byte (char_of (0x80 + n mod 64 :: nat)) = 0x80 + n mod 64"
proof -
  have "n mod 64 < 64" by simp
  then have "0x80 + n mod 64 < 256" by linarith
  then show ?thesis by simp
qed

lemma cont_byte_cont [simp]: "cont_byte (char_of (0x80 + n mod 64 :: nat))"
proof -
  have "n mod 64 < 64" by simp
  then show ?thesis by (simp add: cont_byte_def del: of_char_of)
qed

lemma rune_parts:
  fixes r :: nat
  shows "r div 64 * 64 + r mod 64 = r"
    and "r div 4096 * 64 + r div 64 mod 64 = r div 64"
    and "r div 262144 * 64 + r div 4096 mod 64 = r div 4096"
  using div_mult_mod_eq [of r 64] div_mult_mod_eq [of "r div 64" 64]
    div_mult_mod_eq [of "r div 4096" 64]
  by (simp_all add: div_mult2_eq [symmetric])

lemma split2:
  assumes "0x80 \<le> r" "r < 0x800"
  shows "utf8_split (utf8_encode r @ s) = Some (r, s)"
proof -
  have q: "r div 64 < 32" using assms by simp
  then have "byte (char_of (0xC0 + r div 64)) = 0xC0 + r div 64"
    by (intro byte_lead) linarith
  then show ?thesis
    using assms q by (simp add: utf8_encode_def Let_def del: of_char_of)
qed

lemma split3:
  assumes "0x800 \<le> r" "r < 0x10000" "valid_rune r"
  shows "utf8_split (utf8_encode r @ s) = Some (r, s)"
proof -
  have q: "r div 4096 < 16" using assms by simp
  have "byte (char_of (0xC0 + (0x20 + r div 4096))) = 0xC0 + (0x20 + r div 4096)"
    using q by (intro byte_lead) linarith
  then have l: "byte (char_of (0xE0 + r div 4096)) = 0xE0 + r div 4096" by simp
  have "r div 4096 * 4096 + r div 64 mod 64 * 64 + r mod 64 = r"
    using rune_parts(1,2) [of r] by linarith
  then show ?thesis
    using assms q l by (simp add: utf8_encode_def Let_def del: of_char_of)
qed

lemma split4:
  assumes "0x10000 \<le> r" "valid_rune r"
  shows "utf8_split (utf8_encode r @ s) = Some (r, s)"
proof -
  have q: "r div 262144 < 8" using assms by (simp add: valid_rune_def)
  have "byte (char_of (0xC0 + (0x30 + r div 262144))) = 0xC0 + (0x30 + r div 262144)"
    using q by (intro byte_lead) linarith
  then have l: "byte (char_of (0xF0 + r div 262144)) = 0xF0 + r div 262144" by simp
  have "r div 262144 * 262144 + r div 4096 mod 64 * 4096 + r div 64 mod 64 * 64 + r mod 64 = r"
    using rune_parts [of r] by linarith
  then show ?thesis
    using assms q l by (simp add: utf8_encode_def Let_def del: of_char_of)
qed

lemma utf8_split_encode [simp]:
  assumes "valid_rune r"
  shows "utf8_split (utf8_encode r @ s) = Some (r, s)"
proof -
  consider "r < 0x80" | "0x80 \<le> r" "r < 0x800" | "0x800 \<le> r" "r < 0x10000" | "0x10000 \<le> r"
    by linarith
  then show ?thesis
  proof cases
    case 1
    then show ?thesis by (simp add: utf8_encode_def)
  qed (use assms split2 split3 split4 in auto)
qed

lemma utf8_encode_Nil [simp]: "utf8_encode r \<noteq> []"
  by (simp add: utf8_encode_def)

text \<open>Conversely, what is split off is a rune, encoded.\<close>

lemma cont_byteE:
  assumes "cont_byte c"
  obtains n where "n < 64" "byte c = 0x80 + n"
proof
  show "byte c - 0x80 < 64" "byte c = 0x80 + (byte c - 0x80)"
    using assms by (auto simp: cont_byte_def)
qed

lemma lead_byteE:
  assumes "lo \<le> byte c"
  obtains n where "byte c = lo + n"
  using assms le_Suc_ex by blast

lemma digits64:
  fixes x y z w :: nat
  assumes "y < 64" "z < 64" "w < 64"
  shows "(x * 64 + w) div 64 = x" "(x * 64 + w) mod 64 = w"
    "(x * 4096 + y * 64 + w) div 4096 = x" "(x * 4096 + y * 64 + w) div 64 mod 64 = y"
    "(x * 4096 + y * 64 + w) mod 64 = w"
    "(x * 262144 + y * 4096 + z * 64 + w) div 262144 = x"
    "(x * 262144 + y * 4096 + z * 64 + w) div 4096 mod 64 = y"
    "(x * 262144 + y * 4096 + z * 64 + w) div 64 mod 64 = z"
    "(x * 262144 + y * 4096 + z * 64 + w) mod 64 = w"
proof -
  have base: "\<And>x w::nat. w < 64 \<Longrightarrow> (x * 64 + w) div 64 = x \<and> (x * 64 + w) mod 64 = w"
    by simp
  show "(x * 64 + w) div 64 = x" "(x * 64 + w) mod 64 = w"
    using base assms by auto
  have two: "(x * 4096 + y * 64 + w) = ((x * 64 + y) * 64 + w)" by simp
  have three: "(x * 262144 + y * 4096 + z * 64 + w) = (((x * 64 + y) * 64 + z) * 64 + w)" by simp
  have d: "\<And>n::nat. n div 4096 = n div 64 div 64" "\<And>n::nat. n div 262144 = n div 64 div 64 div 64"
    by (simp_all add: div_mult2_eq [symmetric])
  show "(x * 4096 + y * 64 + w) div 4096 = x" "(x * 4096 + y * 64 + w) div 64 mod 64 = y"
    "(x * 4096 + y * 64 + w) mod 64 = w"
    unfolding two d using base [OF assms(3)] base [OF assms(1)] by (simp_all only:)
  show "(x * 262144 + y * 4096 + z * 64 + w) div 262144 = x"
    "(x * 262144 + y * 4096 + z * 64 + w) div 4096 mod 64 = y"
    "(x * 262144 + y * 4096 + z * 64 + w) div 64 mod 64 = z"
    "(x * 262144 + y * 4096 + z * 64 + w) mod 64 = w"
    unfolding three d using base [OF assms(3)] base [OF assms(2)] base [OF assms(1)] by (simp_all only:)
qed

lemma encode2:
  assumes "byte a = 0xC0 + x" "byte b = 0x80 + y" "y < 64" "0x80 \<le> x * 64 + y" "x < 32"
  shows "utf8_encode (x * 64 + y) = [a, b]"
  using assms digits64(1,2) [of y y y x]
  by (auto simp: utf8_encode_def intro!: of_char_eqI [where 'a=nat])

lemma encode3:
  assumes "byte a = 0xE0 + x" "byte b = 0x80 + y" "byte c = 0x80 + z" "y < 64" "z < 64"
    "0x800 \<le> x * 4096 + y * 64 + z" "x < 16"
  shows "utf8_encode (x * 4096 + y * 64 + z) = [a, b, c]"
  using assms digits64(3-5) [of y z z x]
  by (auto simp: utf8_encode_def intro!: of_char_eqI [where 'a=nat])

lemma encode4:
  assumes "byte a = 0xF0 + x" "byte b = 0x80 + y" "byte c = 0x80 + z" "byte d = 0x80 + w"
    "y < 64" "z < 64" "w < 64" "0x10000 \<le> x * 262144 + y * 4096 + z * 64 + w" "x < 8"
  shows "utf8_encode (x * 262144 + y * 4096 + z * 64 + w) = [a, b, c, d]"
  using assms digits64(6-9) [of y z w x]
  by (auto simp: utf8_encode_def intro!: of_char_eqI [where 'a=nat])

lemma utf8_split_inv:
  assumes "utf8_split s = Some (r, t)"
  shows "valid_rune r \<and> s = utf8_encode r @ t"
proof (cases s)
  case Nil
  with assms show ?thesis by simp
next
  case (Cons a u)
  consider "byte a < 0x80" | "0xC0 \<le> byte a" "byte a < 0xE0" | "0xE0 \<le> byte a" "byte a < 0xF0"
    | "0xF0 \<le> byte a" "byte a < 0xF8"
    using assms Cons by (auto split: if_splits)
  then show ?thesis
  proof cases
    case 1
    then show ?thesis using assms Cons by (auto simp: utf8_encode_def valid_rune_def)
  next
    case 2
    then obtain x where x: "byte a = 0xC0 + x" by (elim lead_byteE)
    with 2 have "x < 32" by simp
    with assms Cons 2 x show ?thesis
      by (auto simp: Let_def valid_rune_def encode2 split: list.splits if_splits elim!: cont_byteE)
  next
    case 3
    then obtain x where x: "byte a = 0xE0 + x" by (elim lead_byteE)
    with 3 have "x < 16" by simp
    with assms Cons 3 x show ?thesis
      by (auto simp: Let_def encode3 split: list.splits if_splits elim!: cont_byteE)
  next
    case 4
    then obtain x where x: "byte a = 0xF0 + x" by (elim lead_byteE)
    with 4 have "x < 8" by simp
    with x assms Cons 4 show ?thesis
      by (auto simp: Let_def encode4 split: list.splits if_splits elim!: cont_byteE)
  qed
qed

section \<open>Valid strings\<close>

function utf8_valid :: "bytes \<Rightarrow> bool" where
  "utf8_valid s = (s = [] \<or> (case utf8_split s of None \<Rightarrow> False | Some (r, t) \<Rightarrow> utf8_valid t))"
  by pat_completeness auto
termination
  by (relation "measure length") (auto dest: utf8_split_shorter)

declare utf8_valid.simps [simp del]

lemma utf8_valid_Nil [simp]: "utf8_valid []"
  by (subst utf8_valid.simps) simp

lemma utf8_valid_rune [simp]: "valid_rune r \<Longrightarrow> utf8_valid (utf8_encode r @ s) = utf8_valid s"
  by (subst utf8_valid.simps) simp

lemma utf8_valid_ascii [simp]: "byte c < 0x80 \<Longrightarrow> utf8_valid (c # s) = utf8_valid s"
  by (subst utf8_valid.simps) simp

lemma utf8_valid_rune_single [simp]: "valid_rune r \<Longrightarrow> utf8_valid (utf8_encode r)"
  using utf8_valid_rune [of r "[]"] by simp

lemma utf8_valid_append: "utf8_valid s \<Longrightarrow> utf8_valid (s @ t) = utf8_valid t"
proof (induction s rule: utf8_valid.induct)
  case (1 s)
  show ?case
  proof (cases "s = []")
    case False
    with "1.prems" obtain r u where u: "utf8_split s = Some (r, u)" "utf8_valid u"
      by (subst (asm) utf8_valid.simps) (auto split: option.splits)
    then have "s = utf8_encode r @ u" "valid_rune r" using utf8_split_inv by blast+
    with u "1.IH" [OF u(1) refl] show ?thesis by simp
  qed simp
qed

text \<open>Induction over a valid string, one encoded rune at a time.\<close>

lemma utf8_induct [consumes 1, case_names Nil Rune]:
  assumes "utf8_valid s" and "P []"
    and "\<And>r t. valid_rune r \<Longrightarrow> utf8_valid t \<Longrightarrow> P t \<Longrightarrow> P (utf8_encode r @ t)"
  shows "P s"
  using assms(1)
proof (induction s rule: utf8_valid.induct)
  case (1 s)
  show ?case
  proof (cases "s = []")
    case False
    with "1.prems" obtain r u where u: "utf8_split s = Some (r, u)" "utf8_valid u"
      by (subst (asm) utf8_valid.simps) (auto split: option.splits)
    then have "s = utf8_encode r @ u" "valid_rune r" using utf8_split_inv by blast+
    with assms(3) u "1.IH" [OF u(1) refl] show ?thesis by simp
  qed (simp add: assms(2))
qed

lemma utf8_valid_asciis: "list_all (\<lambda>c. byte c < 0x80) s \<Longrightarrow> utf8_valid s"
  by (induction s) auto


text \<open>From here on the split is used through its lemmas only.\<close>

declare utf8_split.simps(2) [simp del]

end
