(* ===== verification/Json.thy ===== *)
theory Json
  imports Utf8 Decimal
begin

text \<open>
  JSON texts as Go's \<open>encoding/json\<close> writes and reads them. The printer is the compact
  form of \<open>json.Marshal\<close> with its HTML-safe string escapes; the parser follows the
  scanner's grammar (white space, literals, numbers kept as their text, strings with escapes
  and surrogate pairs, invalid UTF-8 replaced by U+FFFD). The parser recurses with fuel:
  \<open>json_parse_enough\<close> shows that twice the length of the text and one is always enough,
  so \<open>json_parse\<close> never fails for lack of it. The main lemma is the round trip
  \<open>json_roundtrip\<close>.
\<close>

section \<open>Values\<close>

datatype json =
    JNull
  | JBool bool
  | JNum string
  | JStr string
  | JArr "json list"
  | JObj "(string \<times> json) list"

section \<open>Printing\<close>

definition lower_hex :: string where
  "lower_hex = ''0123456789abcdef''"

definition esc_rune :: "nat \<Rightarrow> string" where
  "esc_rune r =
     (if r = 0x22 then [CHR 0x5C, CHR 0x22]
      else if r = 0x5C then [CHR 0x5C, CHR 0x5C]
      else if r = 0x0A then CHR 0x5C # ''n''
      else if r = 0x0D then CHR 0x5C # ''r''
      else if r = 0x09 then CHR 0x5C # ''t''
      else if r < 0x20 \<or> r = 0x3C \<or> r = 0x3E \<or> r = 0x26 then
        CHR 0x5C # ''u00'' @ [lower_hex ! (r div 16), lower_hex ! (r mod 16)]
      else if r = 0x2028 then CHR 0x5C # ''u2028''
      else if r = 0x2029 then CHR 0x5C # ''u2029''
      else utf8_encode r)"

function esc_string :: "string \<Rightarrow> string" where
  "esc_string s =
     (case s of
        [] \<Rightarrow> []
      | c # cs \<Rightarrow>
          (case utf8_split s of
             None \<Rightarrow> CHR 0x5C # ''ufffd'' @ esc_string cs
           | Some (r, t) \<Rightarrow> esc_rune r @ esc_string t))"
  by pat_completeness auto
termination
  by (relation "measure length") (auto dest: utf8_split_shorter)

declare esc_string.simps [simp del]

definition quote :: "string \<Rightarrow> string" where
  "quote s = CHR 0x22 # esc_string s @ [CHR 0x22]"

fun print_json :: "json \<Rightarrow> string"
  and print_elems :: "json list \<Rightarrow> string"
  and print_members :: "(string \<times> json) list \<Rightarrow> string" where
  "print_json JNull = ''null''"
| "print_json (JBool b) = (if b then ''true'' else ''false'')"
| "print_json (JNum n) = n"
| "print_json (JStr s) = quote s"
| "print_json (JArr js) = CHR ''['' # print_elems js @ '']''"
| "print_json (JObj ms) = CHR 0x7B # print_members ms @ [CHR 0x7D]"
| "print_elems [] = []"
| "print_elems [j] = print_json j"
| "print_elems (j # js) = print_json j @ CHR '','' # print_elems js"
| "print_members [] = []"
| "print_members [(k, v)] = quote k @ CHR '':'' # print_json v"
| "print_members ((k, v) # ms) = quote k @ CHR '':'' # print_json v @ CHR '','' # print_members ms"

section \<open>Parsing\<close>

definition is_space :: "char \<Rightarrow> bool" where
  "is_space c \<longleftrightarrow> c = CHR '' '' \<or> c = CHR 0x09 \<or> c = CHR 0x0A \<or> c = CHR 0x0D"

definition skip :: "string \<Rightarrow> string" where
  "skip s = dropWhile is_space s"

text \<open>The next character after white space, when it is the expected one.\<close>

definition expect :: "char \<Rightarrow> string \<Rightarrow> string option" where
  "expect c s = (case skip s of [] \<Rightarrow> None | d # r \<Rightarrow> if d = c then Some r else None)"

fun strip_prefix :: "string \<Rightarrow> string \<Rightarrow> string option" where
  "strip_prefix [] s = Some s"
| "strip_prefix (c # cs) [] = None"
| "strip_prefix (c # cs) (d # ds) = (if c = d then strip_prefix cs ds else None)"

subsection \<open>Strings\<close>

definition hex_digit :: "char \<Rightarrow> nat option" where
  "hex_digit c =
     (if is_digit c then Some (byte c - 48)
      else if in_range (CHR ''a'') (CHR ''f'') c then Some (byte c - 87)
      else if in_range (CHR ''A'') (CHR ''F'') c then Some (byte c - 55)
      else None)"

text \<open>Four hexadecimal digits (\<open>getu4\<close>, the backslash and the u already consumed).\<close>

definition hex4 :: "string \<Rightarrow> (nat \<times> string) option" where
  "hex4 s =
     (case s of
        a # b # c # d # r \<Rightarrow>
          (case (hex_digit a, hex_digit b, hex_digit c, hex_digit d) of
             (Some w, Some x, Some y, Some z) \<Rightarrow> Some (w * 4096 + x * 256 + y * 16 + z, r)
           | _ \<Rightarrow> None)
      | _ \<Rightarrow> None)"

definition is_surrogate :: "nat \<Rightarrow> bool" where
  "is_surrogate r \<longleftrightarrow> 0xD800 \<le> r \<and> r < 0xE000"

text \<open>
  The rune of a \<open>u\<close> escape: a surrogate stands for a rune only with its other half in
  the escape that follows; otherwise it is replaced and the next escape is read again.
\<close>

definition unescape_u :: "string \<Rightarrow> (nat \<times> string) option" where
  "unescape_u s =
     (case hex4 s of
        None \<Rightarrow> None
      | Some (r, t) \<Rightarrow>
          if \<not> is_surrogate r then Some (r, t)
          else
            (case t of
               p # q # t' \<Rightarrow>
                 (if p = CHR 0x5C \<and> q = CHR ''u'' then
                    (case hex4 t' of
                       Some (r2, t2) \<Rightarrow>
                         (if r < 0xDC00 \<and> 0xDC00 \<le> r2 \<and> r2 < 0xE000
                          then Some ((r - 0xD800) * 1024 + (r2 - 0xDC00) + 0x10000, t2)
                          else Some (rune_error, t))
                     | None \<Rightarrow> Some (rune_error, t))
                  else Some (rune_error, t))
             | _ \<Rightarrow> Some (rune_error, t)))"

definition simple_escape :: "char \<Rightarrow> char option" where
  "simple_escape c =
     (if c = CHR 0x22 \<or> c = CHR 0x5C \<or> c = CHR ''/'' then Some c
      else if c = CHR ''b'' then Some (CHR 0x08)
      else if c = CHR ''f'' then Some (CHR 0x0C)
      else if c = CHR ''n'' then Some (CHR 0x0A)
      else if c = CHR ''r'' then Some (CHR 0x0D)
      else if c = CHR ''t'' then Some (CHR 0x09)
      else None)"

definition prepend :: "string \<Rightarrow> (string \<times> string) option \<Rightarrow> (string \<times> string) option" where
  "prepend p = map_option (\<lambda>(s, t). (p @ s, t))"

text \<open>One character or escape of a string body, decoded, and what is left of the text.\<close>

definition string_step :: "string \<Rightarrow> (string \<times> string) option" where
  "string_step s =
     (case s of
        [] \<Rightarrow> None
      | c # cs \<Rightarrow>
          (if c = CHR 0x5C then
             (case cs of
                [] \<Rightarrow> None
              | d # ds \<Rightarrow>
                  (if d = CHR ''u'' then map_option (\<lambda>(r, t). (utf8_encode r, t)) (unescape_u ds)
                   else map_option (\<lambda>e. ([e], ds)) (simple_escape d)))
           else if byte c < 0x20 then None
           else (case utf8_split s of
              Some (r, t) \<Rightarrow> Some (utf8_encode r, t)
            | None \<Rightarrow> Some (utf8_encode rune_error, cs))))"

lemma hex4_shorter: "hex4 s = Some (r, t) \<Longrightarrow> length t < length s"
  by (auto simp: hex4_def split: list.splits option.splits)

lemma unescape_u_shorter: "unescape_u s = Some (r, t) \<Longrightarrow> length t < length s"
  by (auto simp: unescape_u_def split: list.splits option.splits if_splits dest!: hex4_shorter)

lemma string_step_shorter: "string_step s = Some (x, t) \<Longrightarrow> length t < length s"
  by (auto simp: string_step_def split: list.splits option.splits if_splits
      dest!: unescape_u_shorter utf8_split_shorter)

text \<open>The body of a string after its opening quote, up to the closing one.\<close>

function parse_string :: "string \<Rightarrow> (string \<times> string) option" where
  "parse_string s =
     (case s of
        [] \<Rightarrow> None
      | c # cs \<Rightarrow>
          (if c = CHR 0x22 then Some ([], cs)
           else (case string_step s of
              None \<Rightarrow> None
            | Some (x, t) \<Rightarrow> prepend x (parse_string t))))"
  by pat_completeness auto
termination
  by (relation "measure length") (auto dest: string_step_shorter)

declare parse_string.simps [simp del]

lemma parse_string_end [simp]: "parse_string (CHR 0x22 # cs) = Some ([], cs)"
  by (subst parse_string.simps) simp

lemma parse_string_step:
  assumes "parse_string s = Some (x, t)"
  obtains "s = CHR 0x22 # t" "x = []"
  | y u z where "string_step s = Some (y, u)" "parse_string u = Some (z, t)" "x = y @ z"
  using assms that
  by (subst (asm) parse_string.simps)
     (auto simp: prepend_def split: list.splits if_splits option.splits)

lemma parse_string_shorter: "parse_string s = Some (x, t) \<Longrightarrow> length t < length s"
proof (induction "length s" arbitrary: s x rule: less_induct)
  case less
  from less.prems show ?case
  proof (cases rule: parse_string_step)
    case 1
    then show ?thesis by simp
  next
    case (2 y u z)
    then have "length u < length s" by (auto dest: string_step_shorter)
    with less.hyps [OF this 2(2)] show ?thesis by simp
  qed
qed

subsection \<open>Numbers\<close>

definition span :: "(char \<Rightarrow> bool) \<Rightarrow> string \<Rightarrow> string \<times> string" where
  "span p s = (takeWhile p s, dropWhile p s)"

text \<open>An optional minus sign, the integer part, the fraction and the exponent.\<close>

definition num_int :: "string \<Rightarrow> (string \<times> string) option" where
  "num_int s =
     (case s of
        [] \<Rightarrow> None
      | c # cs \<Rightarrow>
          (if c = CHR ''0'' then Some ([c], cs)
           else if is_digit c then Some (span is_digit s)
           else None))"

definition num_frac :: "string \<Rightarrow> (string \<times> string) option" where
  "num_frac s =
     (case s of
        [] \<Rightarrow> Some ([], [])
      | c # cs \<Rightarrow>
          (if c = CHR ''.'' then
             (case span is_digit cs of (ds, r) \<Rightarrow> if ds = [] then None else Some (c # ds, r))
           else Some ([], s)))"

definition num_sign :: "string \<Rightarrow> string \<times> string" where
  "num_sign s =
     (case s of
        [] \<Rightarrow> ([], [])
      | c # cs \<Rightarrow> if c = CHR ''+'' \<or> c = CHR ''-'' then ([c], cs) else ([], s))"

definition num_exp :: "string \<Rightarrow> (string \<times> string) option" where
  "num_exp s =
     (case s of
        [] \<Rightarrow> Some ([], [])
      | c # cs \<Rightarrow>
          (if c = CHR ''e'' \<or> c = CHR ''E'' then
             (case num_sign cs of (sg, t) \<Rightarrow>
               (case span is_digit t of (ds, r) \<Rightarrow> if ds = [] then None else Some (c # sg @ ds, r)))
           else Some ([], s)))"

definition num_minus :: "string \<Rightarrow> string \<times> string" where
  "num_minus s =
     (case s of [] \<Rightarrow> ([], []) | c # cs \<Rightarrow> if c = CHR ''-'' then ([c], cs) else ([], s))"

definition parse_number :: "string \<Rightarrow> (string \<times> string) option" where
  "parse_number s =
     (case num_minus s of (m, s1) \<Rightarrow>
       (case num_int s1 of
          None \<Rightarrow> None
        | Some (i, s2) \<Rightarrow>
            (case num_frac s2 of
               None \<Rightarrow> None
             | Some (f, s3) \<Rightarrow>
                 (case num_exp s3 of
                    None \<Rightarrow> None
                  | Some (e, r) \<Rightarrow> Some (m @ i @ f @ e, r)))))"

lemma span_append: "span p s = (x, y) \<Longrightarrow> s = x @ y"
  by (auto simp: span_def)

lemma num_int_split: "num_int s = Some (x, y) \<Longrightarrow> s = x @ y \<and> x \<noteq> []"
  by (auto simp: num_int_def span_def split: list.splits if_splits)

lemma num_frac_split: "num_frac s = Some (x, y) \<Longrightarrow> s = x @ y"
  by (auto simp: num_frac_def dest!: span_append split: list.splits if_splits prod.splits)

lemma num_exp_split: "num_exp s = Some (x, y) \<Longrightarrow> s = x @ y"
  by (auto simp: num_exp_def num_sign_def dest!: span_append
      split: list.splits if_splits prod.splits)

lemma num_minus_split: "num_minus s = (x, y) \<Longrightarrow> s = x @ y"
  by (auto simp: num_minus_def split: list.splits if_splits)

lemma parse_number_split: "parse_number s = Some (x, y) \<Longrightarrow> s = x @ y \<and> x \<noteq> []"
  by (auto simp: parse_number_def split: prod.splits option.splits
      dest!: num_minus_split num_int_split num_frac_split num_exp_split)

lemma parse_number_shorter: "parse_number s = Some (x, y) \<Longrightarrow> length y < length s"
  using parse_number_split by fastforce

subsection \<open>Values\<close>

fun parse_val :: "nat \<Rightarrow> string \<Rightarrow> (json \<times> string) option"
  and parse_elems :: "nat \<Rightarrow> string \<Rightarrow> (json list \<times> string) option"
  and parse_members :: "nat \<Rightarrow> string \<Rightarrow> ((string \<times> json) list \<times> string) option" where
  "parse_val 0 s = None"
| "parse_val (Suc n) s =
     (case skip s of
        [] \<Rightarrow> None
      | c # r \<Rightarrow>
          (if c = CHR 0x7B then
             (case expect (CHR 0x7D) r of
                Some t \<Rightarrow> Some (JObj [], t)
              | None \<Rightarrow> map_option (\<lambda>(ms, t). (JObj ms, t)) (parse_members n r))
           else if c = CHR ''['' then
             (case expect (CHR '']'') r of
                Some t \<Rightarrow> Some (JArr [], t)
              | None \<Rightarrow> map_option (\<lambda>(js, t). (JArr js, t)) (parse_elems n r))
           else if c = CHR 0x22 then map_option (\<lambda>(x, t). (JStr x, t)) (parse_string r)
           else if c = CHR ''t'' then map_option (\<lambda>t. (JBool True, t)) (strip_prefix ''rue'' r)
           else if c = CHR ''f'' then map_option (\<lambda>t. (JBool False, t)) (strip_prefix ''alse'' r)
           else if c = CHR ''n'' then map_option (\<lambda>t. (JNull, t)) (strip_prefix ''ull'' r)
           else map_option (\<lambda>(x, t). (JNum x, t)) (parse_number (c # r))))"
| "parse_elems 0 s = None"
| "parse_elems (Suc n) s =
     (case parse_val n s of
        None \<Rightarrow> None
      | Some (j, r) \<Rightarrow>
          (case expect (CHR '','') r of
             Some t \<Rightarrow> map_option (\<lambda>(js, u). (j # js, u)) (parse_elems n t)
           | None \<Rightarrow> map_option (\<lambda>t. ([j], t)) (expect (CHR '']'') r)))"
| "parse_members 0 s = None"
| "parse_members (Suc n) s =
     (case expect (CHR 0x22) s of
        None \<Rightarrow> None
      | Some s1 \<Rightarrow>
          (case parse_string s1 of
             None \<Rightarrow> None
           | Some (k, s2) \<Rightarrow>
               (case expect (CHR '':'') s2 of
                  None \<Rightarrow> None
                | Some s3 \<Rightarrow>
                    (case parse_val n s3 of
                       None \<Rightarrow> None
                     | Some (v, r) \<Rightarrow>
                         (case expect (CHR '','') r of
                            Some t \<Rightarrow> map_option (\<lambda>(ms, u). ((k, v) # ms, u)) (parse_members n t)
                          | None \<Rightarrow> map_option (\<lambda>t. ([(k, v)], t)) (expect (CHR 0x7D) r))))))"

text \<open>The whole text is one value, with white space around it.\<close>

definition json_parse :: "string \<Rightarrow> json option" where
  "json_parse s =
     (case parse_val (2 * length s + 1) s of
        Some (j, r) \<Rightarrow> if skip r = [] then Some j else None
      | None \<Rightarrow> None)"

subsection \<open>Enough fuel\<close>

lemma skip_shorter: "length (skip s) \<le> length s"
  by (simp add: skip_def length_dropWhile_le)

lemma expect_shorter: "expect c s = Some t \<Longrightarrow> length t < length s"
  using skip_shorter [of s] by (auto simp: expect_def split: list.splits if_splits)

lemma strip_prefix_shorter: "strip_prefix p s = Some t \<Longrightarrow> length t \<le> length s"
  by (induction p s rule: strip_prefix.induct) (auto split: if_splits)

lemmas shorter = parse_string_shorter expect_shorter strip_prefix_shorter

lemma parse_shorter:
  "parse_val n s = Some (j, t) \<Longrightarrow> length t < length s"
  "parse_elems n s = Some (js, t) \<Longrightarrow> length t < length s"
  "parse_members n s = Some (ms, t) \<Longrightarrow> length t < length s"
proof (induction n s and n s and n s arbitrary: j t and js t and ms t
    rule: parse_val_parse_elems_parse_members.induct)
  case (2 n s)
  show ?case
  proof (cases "skip s")
    case Nil
    with "2.prems" show ?thesis by simp
  next
    case (Cons c r)
    then have r: "length (c # r) \<le> length s" using skip_shorter [of s] by simp
    from "2.prems" Cons show ?thesis
      using "2.IH"(1) [OF Cons] "2.IH"(2) [OF Cons] r
      by (fastforce split: if_splits option.splits dest: shorter parse_number_shorter)
  qed
next
  case (4 n s)
  from "4.prems" obtain j r where v: "parse_val n s = Some (j, r)"
    by (auto split: option.splits)
  with "4.prems" "4.IH"(1) [OF v] "4.IH"(2) [OF v refl] show ?case
    by (fastforce split: option.splits dest: expect_shorter)
next
  case (6 n s)
  from "6.prems" obtain s1 k s2 s3 v r where
    e: "expect (CHR 0x22) s = Some s1" "parse_string s1 = Some (k, s2)"
      "expect (CHR '':'') s2 = Some s3" "parse_val n s3 = Some (v, r)"
    by (auto split: option.splits)
  with "6.prems" "6.IH"(1) [OF e(1,2) refl e(3,4)] "6.IH"(2) [OF e(1,2) refl e(3,4) refl] show ?case
    by (fastforce split: option.splits dest: shorter)
qed simp_all

declare parse_val.simps [simp del] parse_elems.simps [simp del] parse_members.simps [simp del]

lemmas parse_unfold = parse_val.simps(2) parse_elems.simps(2) parse_members.simps(2)

lemma parse_fuel_step:
  "2 * length s + 1 \<le> n \<Longrightarrow> parse_val (Suc n) s = parse_val n s"
  "2 * length s + 2 \<le> n \<Longrightarrow> parse_elems (Suc n) s = parse_elems n s"
  "2 * length s + 2 \<le> n \<Longrightarrow> parse_members (Suc n) s = parse_members n s"
proof (induction n s and n s and n s rule: parse_val_parse_elems_parse_members.induct)
  case (2 n s)
  show ?case
  proof (cases "skip s")
    case Nil
    then show ?thesis by (simp add: parse_unfold)
  next
    case (Cons c r)
    then have "2 * length r + 2 \<le> n" using skip_shorter [of s] "2.prems" by simp
    then show ?thesis
      using Cons "2.IH"(1) [OF Cons] "2.IH"(2) [OF Cons]
      by (simp add: parse_val.simps(2) [of n] parse_val.simps(2) [of "Suc n"] split: option.splits)
  qed
next
  case (4 n s)
  have v: "parse_val (Suc n) s = parse_val n s"
    using "4.IH"(1) "4.prems" by simp
  note unfold = parse_elems.simps(2) [of n s] parse_elems.simps(2) [of "Suc n" s] v
  show ?case
  proof (cases "parse_val n s")
    case None
    then show ?thesis by (simp add: unfold)
  next
    case (Some p)
    obtain j r where p: "p = (j, r)" by force
    have r: "length r < length s" using Some p parse_shorter(1) by blast
    show ?thesis
    proof (cases "expect (CHR '','') r")
      case None
      then show ?thesis using \<open>parse_val n s = Some p\<close> p by (simp add: unfold)
    next
      case (Some t)
      then have "2 * length t + 2 \<le> n" using expect_shorter [OF Some] r "4.prems" by simp
      then have "parse_elems (Suc n) t = parse_elems n t"
        using "4.IH"(2) [OF \<open>parse_val n s = Some p\<close> p [symmetric] Some] by blast
      then show ?thesis using \<open>parse_val n s = Some p\<close> Some p by (simp add: unfold)
    qed
  qed
next
  case (6 n s)
  show ?case
  proof (cases "\<exists>s1 k s2 s3. expect (CHR 0x22) s = Some s1 \<and> parse_string s1 = Some (k, s2)
      \<and> expect (CHR '':'') s2 = Some s3")
    case False
    then show ?thesis by (auto simp: parse_unfold split: option.splits)
  next
    case True
    then obtain s1 k s2 s3 where e: "expect (CHR 0x22) s = Some s1"
      "parse_string s1 = Some (k, s2)" "expect (CHR '':'') s2 = Some s3" by blast
    then have len: "length s3 < length s" by (fastforce dest: shorter)
    have v: "parse_val (Suc n) s3 = parse_val n s3"
      using "6.IH"(1) [OF e(1,2) refl e(3)] "6.prems" len by simp
    note unfold = parse_members.simps(2) [of n s] parse_members.simps(2) [of "Suc n" s] v e
    show ?thesis
    proof (cases "parse_val n s3")
      case None
      then show ?thesis by (simp add: unfold)
    next
      case (Some p)
      obtain j r where p: "p = (j, r)" by force
      have r: "length r < length s3" using Some p parse_shorter(1) by blast
      show ?thesis
      proof (cases "expect (CHR '','') r")
        case None
        then show ?thesis using \<open>parse_val n s3 = Some p\<close> p by (simp add: unfold)
      next
        case (Some t)
        then have "2 * length t + 2 \<le> n" using expect_shorter [OF Some] r len "6.prems" by simp
        then have "parse_members (Suc n) t = parse_members n t"
          using "6.IH"(2) [OF e(1,2) refl e(3) \<open>parse_val n s3 = Some p\<close> p [symmetric] Some]
          by blast
        then show ?thesis using \<open>parse_val n s3 = Some p\<close> Some p by (simp add: unfold)
      qed
    qed
  qed
qed (simp_all add: parse_val.simps)

lemma json_parse_enough:
  "2 * length s + 1 \<le> n \<Longrightarrow> parse_val n s = parse_val (2 * length s + 1) s"
proof (induction n rule: dec_induct)
  case base
  show ?case by simp
next
  case (step n)
  then show ?case using parse_fuel_step(1) [of s n] by simp
qed

section \<open>Round trip\<close>

subsection \<open>Strings\<close>

lemma hex_digit_lower [simp]: "i < 16 \<Longrightarrow> hex_digit (lower_hex ! i) = Some i"
proof -
  assume "i < 16"
  moreover have "list_all (\<lambda>i. hex_digit (lower_hex ! i) = Some i) [0..<16]"
    by code_simp
  ultimately show ?thesis by (simp add: list_all_iff)
qed

lemma hex_digit_codes [simp]:
  "hex_digit (CHR ''0'') = Some 0" "hex_digit (CHR ''2'') = Some 2"
  "hex_digit (CHR ''8'') = Some 8" "hex_digit (CHR ''9'') = Some 9"
  by code_simp+

lemma utf8_encode_first:
  assumes "valid_rune r"
  shows "\<exists>c cs. utf8_encode r = c # cs
    \<and> (if r < 0x80 then byte c = r \<and> cs = [] else 0xC0 \<le> byte c)"
proof -
  obtain c cs where c: "utf8_encode r = c # cs"
    by (cases "utf8_encode r") auto
  have "byte c = r \<and> cs = []" if "r < 0x80"
    using c that by (auto simp: utf8_encode_def split: if_splits)
  moreover have "0xC0 \<le> byte c" if "0x80 \<le> r"
  proof (rule ccontr)
    assume "\<not> 0xC0 \<le> byte c"
    moreover have "utf8_split (c # cs) = Some (r, [])"
      using utf8_split_encode [OF assms, of "[]"] c by simp
    ultimately show False using that by (auto simp: utf8_split.simps split: if_splits)
  qed
  ultimately show ?thesis using c by auto
qed

lemma string_step_esc:
  assumes "valid_rune r"
  shows "string_step (esc_rune r @ t) = Some (utf8_encode r, t)"
proof -
  consider "r = 0x22 \<or> r = 0x5C \<or> r = 0x0A \<or> r = 0x0D \<or> r = 0x09"
    | "r \<notin> {0x22, 0x5C, 0x0A, 0x0D, 0x09}" "r < 0x20 \<or> r = 0x3C \<or> r = 0x3E \<or> r = 0x26"
    | "r = 0x2028 \<or> r = 0x2029"
    | "r \<notin> {0x22, 0x5C, 0x0A, 0x0D, 0x09, 0x3C, 0x3E, 0x26, 0x2028, 0x2029}" "0x20 \<le> r"
    by fastforce
  then show ?thesis
  proof cases
    case 1
    have "char_of (34::nat) = CHR 0x22" "char_of (92::nat) = CHR 0x5C" "char_of (10::nat) = CHR 0x0A"
      "char_of (13::nat) = CHR 0x0D" "char_of (9::nat) = CHR 0x09"
      by code_simp+
    with 1 show ?thesis
      by (elim disjE) (simp_all add: esc_rune_def string_step_def simple_escape_def utf8_encode_def)
  next
    case 2
    then have "r < 128" by auto
    then have "hex4 (''00'' @ lower_hex ! (r div 16) # lower_hex ! (r mod 16) # t) = Some (r, t)"
      by (simp add: hex4_def)
    with 2 \<open>r < 128\<close> show ?thesis
      by (simp add: esc_rune_def string_step_def unescape_u_def is_surrogate_def)
  next
    case 3
    then show ?thesis
      by (auto simp: esc_rune_def string_step_def unescape_u_def is_surrogate_def hex4_def)
  next
    case 4
    obtain c cs where c: "utf8_encode r = c # cs"
      "if r < 0x80 then byte c = r \<and> cs = [] else 0xC0 \<le> byte c"
      using utf8_encode_first [OF assms] by blast
    have "esc_rune r = utf8_encode r" using 4 by (simp add: esc_rune_def)
    moreover have "c \<noteq> CHR 0x5C" using c(2) 4 by (auto split: if_splits)
    moreover have "\<not> byte c < 0x20" using c(2) 4 by (simp split: if_splits)
    moreover have "utf8_split (c # cs @ t) = Some (r, t)"
      using utf8_split_encode [OF assms, of t] c by simp
    ultimately show ?thesis using c(1) by (simp add: string_step_def)
  qed
qed

lemma esc_rune_start:
  assumes "valid_rune r"
  obtains c cs where "esc_rune r = c # cs" "c \<noteq> CHR 0x22"
proof (cases "esc_rune r = utf8_encode r")
  case True
  obtain c cs where c: "utf8_encode r = c # cs"
    "if r < 0x80 then byte c = r \<and> cs = [] else 0xC0 \<le> byte c"
    using utf8_encode_first [OF assms] by blast
  have "r \<noteq> 0x22" using True by (auto simp: esc_rune_def utf8_encode_def)
  then have "c \<noteq> CHR 0x22" using c(2) by (auto split: if_splits)
  with c(1) True that show thesis by simp
next
  case False
  then show thesis by (auto intro: that simp: esc_rune_def split: if_splits)
qed

lemma esc_string_Nil [simp]: "esc_string [] = []"
  by (subst esc_string.simps) simp

lemma esc_string_rune [simp]:
  "valid_rune r \<Longrightarrow> esc_string (utf8_encode r @ t) = esc_rune r @ esc_string t"
  using utf8_split_encode [of r t]
  by (cases "utf8_encode r @ t") (simp_all add: esc_string.simps [of "x # xs" for x xs])

lemma parse_string_prepend:
  assumes "valid_rune r"
  shows "parse_string (esc_rune r @ t) = prepend (utf8_encode r) (parse_string t)"
proof -
  obtain c cs where c: "esc_rune r = c # cs" "c \<noteq> CHR 0x22"
    using esc_rune_start [OF assms] by blast
  then show ?thesis
    using string_step_esc [OF assms, of t] by (subst parse_string.simps) simp
qed

lemma parse_string_esc [simp]:
  "utf8_valid s \<Longrightarrow> parse_string (esc_string s @ CHR 0x22 # t) = Some (s, t)"
  by (induction s rule: utf8_induct) (simp_all add: parse_string_prepend prepend_def)

text \<open>Whatever string comes out of a text is valid UTF-8.\<close>

lemma valid_rune_error [simp]: "valid_rune rune_error"
  by (simp add: valid_rune_def rune_error_def)

lemma hex_digit_bound: "hex_digit c = Some n \<Longrightarrow> n < 16"
  by (auto simp: hex_digit_def is_digit_def in_range_def split: if_splits)

lemma hex4_bound: "hex4 s = Some (r, t) \<Longrightarrow> r < 0x10000"
  by (auto simp: hex4_def split: list.splits option.splits dest!: hex_digit_bound)

lemma unescape_u_valid:
  assumes "unescape_u s = Some (r, t)"
  shows "valid_rune r"
proof -
  obtain a u where a: "hex4 s = Some (a, u)"
    using assms by (auto simp: unescape_u_def split: option.splits)
  note bound = hex4_bound [OF a]
  show ?thesis
  proof (cases "is_surrogate a")
    case False
    then show ?thesis
      using assms a bound by (auto simp: unescape_u_def is_surrogate_def valid_rune_def)
  next
    case True
    have "valid_rune ((a - 0xD800) * 1024 + (b - 0xDC00) + 0x10000)"
      if "a < 0xDC00" "0xDC00 \<le> b" "b < 0xE000" for b
      using that by (auto simp: valid_rune_def)
    then show ?thesis
      using assms a True
      by (auto simp: unescape_u_def split: list.splits option.splits if_splits)
  qed
qed

lemma simple_escape_ascii: "simple_escape c = Some e \<Longrightarrow> byte e < 0x80"
  by (auto simp: simple_escape_def split: if_splits)

lemma string_step_valid: "string_step s = Some (x, t) \<Longrightarrow> utf8_valid x"
  by (auto simp: string_step_def split: list.splits option.splits if_splits
      dest!: unescape_u_valid simple_escape_ascii utf8_split_inv)

lemma parse_string_valid: "parse_string s = Some (x, t) \<Longrightarrow> utf8_valid x"
proof (induction "length s" arbitrary: s x rule: less_induct)
  case less
  from less.prems show ?case
  proof (cases rule: parse_string_step)
    case (2 y u z)
    then have "length u < length s" by (auto dest: string_step_shorter)
    with less.hyps [OF this 2(2)] 2 show ?thesis
      by (auto dest: string_step_valid simp: utf8_valid_append)
  qed simp
qed

subsection \<open>Numbers\<close>

text \<open>What may follow a number without becoming a part of it.\<close>

definition num_stop :: "string \<Rightarrow> bool" where
  "num_stop r \<longleftrightarrow>
     (case r of [] \<Rightarrow> True | c # cs \<Rightarrow> \<not> is_digit c \<and> c \<notin> set ''.eE+-'')"

definition number_ok :: "string \<Rightarrow> bool" where
  "number_ok n \<longleftrightarrow> parse_number n = Some (n, [])"

lemma span_digits_ext:
  "span is_digit s = (x, y) \<Longrightarrow> num_stop r \<Longrightarrow> span is_digit (s @ r) = (x, y @ r)"
  by (induction s arbitrary: x y) (auto simp: span_def num_stop_def split: list.splits if_splits)

lemma num_int_ext: "num_int s = Some (x, y) \<Longrightarrow> num_stop r \<Longrightarrow> num_int (s @ r) = Some (x, y @ r)"
  using span_digits_ext [of s] by (auto simp: num_int_def split: list.splits if_splits)

lemma num_frac_ext: "num_frac s = Some (x, y) \<Longrightarrow> num_stop r \<Longrightarrow> num_frac (s @ r) = Some (x, y @ r)"
  using span_digits_ext [of "tl s"]
  by (auto simp: num_frac_def num_stop_def split: list.splits if_splits prod.splits)

lemma num_sign_ext: "num_sign s = (x, y) \<Longrightarrow> num_stop r \<Longrightarrow> num_sign (s @ r) = (x, y @ r)"
  by (auto simp: num_sign_def num_stop_def split: list.splits if_splits)

lemma num_minus_ext: "num_minus s = (x, y) \<Longrightarrow> num_stop r \<Longrightarrow> num_minus (s @ r) = (x, y @ r)"
  by (auto simp: num_minus_def num_stop_def split: list.splits if_splits)

lemma num_exp_ext:
  assumes "num_exp s = Some (x, y)" "num_stop r"
  shows "num_exp (s @ r) = Some (x, y @ r)"
proof (cases s)
  case Nil
  with assms show ?thesis by (auto simp: num_exp_def num_stop_def split: list.splits)
next
  case (Cons c cs)
  obtain sg t where n: "num_sign cs = (sg, t)" by force
  obtain ds u where d: "span is_digit t = (ds, u)" by force
  show ?thesis
    using assms Cons n d num_sign_ext [OF n assms(2)] span_digits_ext [OF d assms(2)]
    by (auto simp: num_exp_def split: if_splits)
qed

lemma parse_number_ext:
  assumes "number_ok n" "num_stop r"
  shows "parse_number (n @ r) = Some (n, r)"
proof -
  obtain m s1 where m: "num_minus n = (m, s1)" by force
  with assms(1) obtain i s2 f s3 e where
    p: "num_int s1 = Some (i, s2)" "num_frac s2 = Some (f, s3)" "num_exp s3 = Some (e, [])"
      "n = m @ i @ f @ e"
    by (auto simp: number_ok_def parse_number_def split: option.splits)
  have "num_minus (n @ r) = (m, s1 @ r)" using num_minus_ext [OF m assms(2)] .
  moreover have "num_int (s1 @ r) = Some (i, s2 @ r)" using num_int_ext [OF p(1) assms(2)] .
  moreover have "num_frac (s2 @ r) = Some (f, s3 @ r)" using num_frac_ext [OF p(2) assms(2)] .
  moreover have "num_exp (s3 @ r) = Some (e, r)" using num_exp_ext [OF p(3) assms(2)] by simp
  ultimately show ?thesis using p(4) by (simp add: parse_number_def)
qed

lemma number_ok_start:
  assumes "number_ok n"
  obtains c cs where "n = c # cs" "c = CHR ''-'' \<or> is_digit c"
  using assms
  by (cases n) (auto simp: number_ok_def parse_number_def num_minus_def num_int_def
      is_digit_def in_range_def split: if_splits option.splits list.splits prod.splits)

lemma span_all: "list_all p s \<Longrightarrow> span p s = (s, [])"
  by (induction s) (auto simp: span_def)

lemma number_ok_itoa: "number_ok (itoa i)"
proof -
  obtain c cs where c: "decimal (nat \<bar>i\<bar>) = c # cs" "is_digit c" "c = CHR ''0'' \<Longrightarrow> cs = []"
    using decimal_first by blast
  have "list_all is_digit (c # cs)" using decimal_digits [of "nat \<bar>i\<bar>"] c by simp
  then have "num_int (c # cs) = Some (c # cs, [])"
    using c span_all [of is_digit "c # cs"] by (auto simp: num_int_def)
  then show ?thesis
    using c digit_not_sign [OF c(2)]
    by (auto simp: number_ok_def itoa_def parse_number_def num_minus_def num_frac_def num_exp_def)
qed

subsection \<open>Values\<close>

fun json_ok :: "json \<Rightarrow> bool" where
  "json_ok JNull = True"
| "json_ok (JBool b) = True"
| "json_ok (JNum n) = number_ok n"
| "json_ok (JStr s) = utf8_valid s"
| "json_ok (JArr js) = (\<forall>j \<in> set js. json_ok j)"
| "json_ok (JObj ms) = (\<forall>m \<in> set ms. utf8_valid (fst m) \<and> json_ok (snd m))"

lemma skip_nonspace: "\<not> is_space c \<Longrightarrow> skip (c # s) = c # s"
  by (simp add: skip_def)

lemma expect_here [simp]: "\<not> is_space c \<Longrightarrow> expect c (c # s) = Some s"
  by (simp add: expect_def skip_nonspace)

lemma expect_other: "\<not> is_space d \<Longrightarrow> d \<noteq> c \<Longrightarrow> expect c (d # s) = None"
  by (simp add: expect_def skip_nonspace)

lemma nonspaces [simp]:
  "\<not> is_space (CHR 0x22)" "\<not> is_space (CHR '','')" "\<not> is_space (CHR '':'')" "\<not> is_space (CHR ''['')"
  "\<not> is_space (CHR '']'')" "\<not> is_space (CHR 0x7B)" "\<not> is_space (CHR 0x7D)" "\<not> is_space (CHR ''t'')"
  "\<not> is_space (CHR ''f'')" "\<not> is_space (CHR ''n'')"
  by (simp_all add: is_space_def)

lemma num_stops [simp]: "num_stop []" "num_stop (CHR '','' # s)" "num_stop (CHR '']'' # s)" "num_stop (CHR 0x7D # s)"
  by (simp_all add: num_stop_def is_digit_def in_range_def)

lemma json_start:
  assumes "json_ok j"
  obtains c cs where "print_json j = c # cs" "\<not> is_space c" "c \<noteq> CHR '']''" "c \<noteq> CHR 0x7D"
proof (cases j)
  case (JNum n)
  with assms have "number_ok n" by simp
  then obtain c cs where c: "n = c # cs" "c = CHR ''-'' \<or> is_digit c"
    by (rule number_ok_start)
  then have "\<not> is_space c" "c \<noteq> CHR '']''" "c \<noteq> CHR 0x7D"
    by (auto simp: is_space_def is_digit_def in_range_def)
  with that JNum c show thesis by simp
next
  case (JBool b)
  with that show thesis by (cases b) auto
qed (use that in \<open>auto simp: quote_def split: if_splits\<close>)

lemma elems_start:
  assumes "json_ok j"
  obtains c cs where "print_elems (j # js) = c # cs" "\<not> is_space c" "c \<noteq> CHR '']''"
proof -
  obtain c cs where "print_json j = c # cs" "\<not> is_space c" "c \<noteq> CHR '']''"
    using json_start [OF assms] by metis
  with that show thesis by (cases js) auto
qed

lemma parse_val_number:
  assumes "number_ok x" "num_stop r"
  shows "parse_val (Suc n) (x @ r) = Some (JNum x, r)"
proof -
  obtain c cs where c: "x = c # cs" "c = CHR ''-'' \<or> is_digit c"
    using number_ok_start [OF assms(1)] by blast
  then have "\<not> is_space c" "c \<notin> {CHR 0x7B, CHR ''['', CHR 0x22, CHR ''t'', CHR ''f'', CHR ''n''}"
    by (auto simp: is_space_def is_digit_def in_range_def)
  moreover have "parse_number (c # cs @ r) = Some (x, r)"
    using parse_number_ext [OF assms] c by simp
  ultimately show ?thesis using c(1) by (simp add: parse_unfold skip_nonspace)
qed

lemma json_roundtrip_rest:
  "json_ok j \<Longrightarrow> num_stop r \<Longrightarrow> 2 * length (print_json j @ r) + 1 \<le> n
     \<Longrightarrow> parse_val n (print_json j @ r) = Some (j, r)"
  "js \<noteq> [] \<Longrightarrow> json_ok (JArr js) \<Longrightarrow> 2 * length (print_elems js @ CHR '']'' # r) + 2 \<le> n
     \<Longrightarrow> parse_elems n (print_elems js @ CHR '']'' # r) = Some (js, r)"
  "ms \<noteq> [] \<Longrightarrow> json_ok (JObj ms) \<Longrightarrow> 2 * length (print_members ms @ CHR 0x7D # r) + 2 \<le> n
     \<Longrightarrow> parse_members n (print_members ms @ CHR 0x7D # r) = Some (ms, r)"
proof (induction j and js and ms arbitrary: n r and n r and n r
    rule: print_json_print_elems_print_members.induct)
  case 1
  then show ?case by (cases n) (simp_all add: parse_unfold skip_nonspace)
next
  case (2 b)
  then show ?case by (cases n) (auto simp: parse_unfold skip_nonspace)
next
  case (3 x)
  then show ?case by (cases n) (simp_all add: parse_val_number)
next
  case (4 s)
  then show ?case by (cases n) (simp_all add: parse_unfold skip_nonspace quote_def)
next
  case (5 js)
  then obtain m where m: "n = Suc m" by (cases n) auto
  show ?case
  proof (cases js)
    case Nil
    with m show ?thesis by (simp add: parse_unfold skip_nonspace)
  next
    case (Cons j js')
    with "5.prems"(1) have "json_ok j" by simp
    with Cons obtain c cs where "print_elems js = c # cs" "\<not> is_space c" "c \<noteq> CHR '']''"
      using elems_start by metis
    moreover have "parse_elems m (print_elems js @ CHR '']'' # r) = Some (js, r)"
      using "5.IH" "5.prems" m Cons by simp
    ultimately show ?thesis
      using m by (simp add: parse_unfold skip_nonspace expect_other)
  qed
next
  case (6 ms)
  then obtain m where m: "n = Suc m" by (cases n) auto
  show ?case
  proof (cases ms)
    case Nil
    with m show ?thesis by (simp add: parse_unfold skip_nonspace)
  next
    case (Cons kv ms')
    then obtain cs where "print_members ms = CHR 0x22 # cs"
      by (cases kv; cases ms') (auto simp: quote_def)
    moreover have "parse_members m (print_members ms @ CHR 0x7D # r) = Some (ms, r)"
      using "6.IH" "6.prems" m Cons by simp
    ultimately show ?thesis
      using m by (simp add: parse_unfold skip_nonspace expect_other)
  qed
next
  case (8 j)
  then obtain m where m: "n = Suc m" by (cases n) auto
  with 8 have "parse_val m (print_json j @ CHR '']'' # r) = Some (j, CHR '']'' # r)" by simp
  with m show ?case by (simp add: parse_elems.simps(2) expect_other)
next
  case (9 j j' js)
  then obtain m where m: "n = Suc m" by (cases n) auto
  with 9 have "parse_val m (print_json j @ CHR '','' # print_elems (j' # js) @ CHR '']'' # r)
      = Some (j, CHR '','' # print_elems (j' # js) @ CHR '']'' # r)"
    and "parse_elems m (print_elems (j' # js) @ CHR '']'' # r) = Some (j' # js, r)" by simp_all
  with m show ?case by (simp add: parse_elems.simps(2))
next
  case (11 k v)
  then obtain m where m: "n = Suc m" by (cases n) auto
  with 11 have "parse_val m (print_json v @ CHR 0x7D # r) = Some (v, CHR 0x7D # r)"
    and "utf8_valid k" by (simp_all add: quote_def)
  with m show ?case by (simp add: parse_members.simps(2) expect_other quote_def)
next
  case (12 k v m' ms)
  then obtain m where m: "n = Suc m" by (cases n) auto
  with 12 have "parse_val m (print_json v @ CHR '','' # print_members (m' # ms) @ CHR 0x7D # r)
      = Some (v, CHR '','' # print_members (m' # ms) @ CHR 0x7D # r)"
    and "parse_members m (print_members (m' # ms) @ CHR 0x7D # r) = Some (m' # ms, r)"
    and "utf8_valid k" by (simp_all add: quote_def)
  with m show ?case by (simp add: parse_members.simps(2) quote_def)
qed simp_all

theorem json_roundtrip:
  assumes "json_ok j"
  shows "json_parse (print_json j) = Some j"
  using json_roundtrip_rest(1) [OF assms num_stops(1), of "2 * length (print_json j) + 1"]
  by (simp add: json_parse_def skip_def)

text \<open>The strings of a parsed text are valid UTF-8, the keys of its objects included.\<close>

fun strings_valid :: "json \<Rightarrow> bool" where
  "strings_valid (JStr s) = utf8_valid s"
| "strings_valid (JArr js) = (\<forall>j \<in> set js. strings_valid j)"
| "strings_valid (JObj ms) = (\<forall>m \<in> set ms. utf8_valid (fst m) \<and> strings_valid (snd m))"
| "strings_valid _ = True"

lemma parse_strings_valid:
  "parse_val n s = Some (j, t) \<Longrightarrow> strings_valid j"
  "parse_elems n s = Some (js, t) \<Longrightarrow> strings_valid (JArr js)"
  "parse_members n s = Some (ms, t) \<Longrightarrow> strings_valid (JObj ms)"
proof (induction n s and n s and n s arbitrary: j t and js t and ms t
    rule: parse_val_parse_elems_parse_members.induct)
  case (2 n s)
  show ?case
  proof (cases "skip s")
    case Nil
    with "2.prems" show ?thesis by (simp add: parse_unfold)
  next
    case (Cons c r)
    from "2.prems" Cons show ?thesis
      using "2.IH"(1) [OF Cons] "2.IH"(2) [OF Cons]
      by (auto simp: parse_unfold split: if_splits option.splits dest: parse_string_valid)
  qed
next
  case (4 n s)
  from "4.prems" obtain j r where v: "parse_val n s = Some (j, r)"
    by (auto simp: parse_unfold split: option.splits)
  with "4.prems" "4.IH"(1) [OF v] "4.IH"(2) [OF v refl] show ?case
    by (fastforce simp: parse_unfold split: option.splits)
next
  case (6 n s)
  from "6.prems" obtain s1 k s2 s3 v r where
    e: "expect (CHR 0x22) s = Some s1" "parse_string s1 = Some (k, s2)"
      "expect (CHR '':'') s2 = Some s3" "parse_val n s3 = Some (v, r)"
    by (auto simp: parse_unfold split: option.splits)
  with "6.prems" parse_string_valid [OF e(2)] "6.IH"(1) [OF e(1,2) refl e(3,4)]
    "6.IH"(2) [OF e(1,2) refl e(3,4) refl] show ?case
    by (fastforce simp: parse_unfold split: option.splits)
qed (simp_all add: parse_val.simps parse_elems.simps parse_members.simps)

lemma json_parse_valid: "json_parse s = Some j \<Longrightarrow> strings_valid j"
  by (auto simp: json_parse_def split: option.splits if_splits dest: parse_strings_valid(1))

end
