(* ===== verification/Records.thy ===== *)
theory Records
  imports Codecs Json
begin

text \<open>
  The data of the service (the types of app/business/certificateIO.go, and the same types as
  app/chaincode/main.go declares them) with their JSON encodings. A struct decodes as
  \<open>json.Unmarshal\<close> does it: keys match a field up to case, unknown keys are skipped, null
  leaves a field as it is, a value of the wrong type is skipped too and the first such error
  is returned with the struct. The lemmas: marshalling then unmarshalling gives the record
  back, and what unmarshalling returns holds valid UTF-8 only.
\<close>

section \<open>The records\<close>

record certificate =
  certId :: string
  certType :: string
  entrustOrg :: string
  instrumentName :: string
  spec :: string
  exportId :: string
  madeByOrg :: string
  entrustOrgAdd :: string
  approver :: string
  verifier :: string
  calibratePerson :: string
  calibrateDate :: string
  suggestNextCaliDate :: string
  isCompleted :: bool
  isOpen :: bool
  isDeleted :: bool
  updateDate :: string
  hasUpload :: bool

record file_struct =
  fs_certId :: string
  fs_certFile :: "bytes option"
  fs_fileName :: string

text \<open>The chaincode's own declaration of the file record lacks the file name.\<close>

record cc_file_struct =
  cf_certId :: string
  cf_certFile :: "bytes option"

record status =
  st_certId :: string
  st_isOpen :: bool
  st_isCompleted :: bool
  st_isDeleted :: bool
  st_isChangedOnChain :: bool

record query_conditions =
  qc_pageSize :: int
  qc_pageIndex :: int
  qc_isOpen :: bool
  qc_isCompleted :: bool
  qc_isDeleted :: bool
  qc_certType :: string
  qc_certId :: string
  qc_entrustOrg :: string
  qc_instrumentName :: string
  qc_startCreateDate :: string
  qc_endCreateDate :: string
  qc_startCalibDate :: string
  qc_endCalibDate :: string

text \<open>A nil slice and an empty one marshal differently, so a slice is an optional list.\<close>

record list_internal =
  li_pageCount :: int
  li_bookmark :: string
  li_certs :: "certificate list option"

record cert_list =
  cl_count :: int
  cl_pageIndex :: int
  cl_certs :: "certificate list option"

definition zero_cert :: certificate where
  "zero_cert = \<lparr>certId = '''', certType = '''', entrustOrg = '''',
     instrumentName = '''', spec = '''', exportId = '''', madeByOrg = '''',
     entrustOrgAdd = '''', approver = '''', verifier = '''', calibratePerson = '''',
     calibrateDate = '''', suggestNextCaliDate = '''', isCompleted = False, isOpen = False,
     isDeleted = False, updateDate = '''', hasUpload = False\<rparr>"

definition zero_file :: file_struct where
  "zero_file = \<lparr>fs_certId = '''', fs_certFile = None, fs_fileName = ''''\<rparr>"

definition zero_cc_file :: cc_file_struct where
  "zero_cc_file = \<lparr>cf_certId = '''', cf_certFile = None\<rparr>"

definition zero_status :: status where
  "zero_status = \<lparr>st_certId = '''', st_isOpen = False, st_isCompleted = False,
     st_isDeleted = False, st_isChangedOnChain = False\<rparr>"

definition zero_conditions :: query_conditions where
  "zero_conditions = \<lparr>qc_pageSize = 0, qc_pageIndex = 0, qc_isOpen = False, qc_isCompleted = False,
     qc_isDeleted = False, qc_certType = '''', qc_certId = '''', qc_entrustOrg = '''',
     qc_instrumentName = '''', qc_startCreateDate = '''', qc_endCreateDate = '''',
     qc_startCalibDate = '''', qc_endCalibDate = ''''\<rparr>"

definition zero_list_internal :: list_internal where
  "zero_list_internal = \<lparr>li_pageCount = 0, li_bookmark = '''', li_certs = None\<rparr>"

section \<open>Decoding\<close>

subsection \<open>Field names\<close>

definition lower_char :: "char \<Rightarrow> char" where
  "lower_char c = (if in_range (CHR ''A'') (CHR ''Z'') c then char_of (byte c + 32) else c)"

text \<open>
  Case folding of a key: ASCII letters, and the two other runes that fold to one of them,
  the long s (U+017F) and the Kelvin sign (U+212A).
\<close>

fun fold_key :: "string \<Rightarrow> string" where
  "fold_key [] = []"
| "fold_key [c] = [lower_char c]"
| "fold_key [c, d] =
     (if c = CHR 0xC5 \<and> d = CHR 0xBF then ''s'' else [lower_char c, lower_char d])"
| "fold_key (c # d # e # r) =
     (if c = CHR 0xC5 \<and> d = CHR 0xBF then CHR ''s'' # fold_key (e # r)
      else if c = CHR 0xE2 \<and> d = CHR 0x84 \<and> e = CHR 0xAA then CHR ''k'' # fold_key r
      else lower_char c # fold_key (d # e # r))"

subsection \<open>Fields and structs\<close>

type_synonym 'a field = "json \<Rightarrow> 'a \<Rightarrow> 'a \<times> error option"

definition str_field :: "string \<Rightarrow> ((string \<Rightarrow> string) \<Rightarrow> 'a \<Rightarrow> 'a) \<Rightarrow> 'a field" where
  "str_field name upd v x =
     (case v of
        JStr s \<Rightarrow> (upd (\<lambda>_. s) x, None)
      | JNull \<Rightarrow> (x, None)
      | _ \<Rightarrow> (x, Some (ErrJsonType name)))"

definition bool_field :: "string \<Rightarrow> ((bool \<Rightarrow> bool) \<Rightarrow> 'a \<Rightarrow> 'a) \<Rightarrow> 'a field" where
  "bool_field name upd v x =
     (case v of
        JBool b \<Rightarrow> (upd (\<lambda>_. b) x, None)
      | JNull \<Rightarrow> (x, None)
      | _ \<Rightarrow> (x, Some (ErrJsonType name)))"

definition int_field :: "string \<Rightarrow> ((int \<Rightarrow> int) \<Rightarrow> 'a \<Rightarrow> 'a) \<Rightarrow> 'a field" where
  "int_field name upd v x =
     (case v of
        JNum n \<Rightarrow>
          (case parse_int 64 n of
             Some i \<Rightarrow> (upd (\<lambda>_. i) x, None)
           | None \<Rightarrow> (x, Some (ErrJsonType name)))
      | JNull \<Rightarrow> (x, None)
      | _ \<Rightarrow> (x, Some (ErrJsonType name)))"

definition first_error :: "error option \<Rightarrow> error option \<Rightarrow> error option" where
  "first_error e e' = (case e of None \<Rightarrow> e' | Some _ \<Rightarrow> e)"

text \<open>
  A \<open>[]byte\<close> is base64 text; an array of numbers below 256 is accepted as well.
\<close>

definition byte_elem :: "string \<Rightarrow> json \<Rightarrow> char \<times> error option" where
  "byte_elem name v =
     (case v of
        JNum n \<Rightarrow>
          (case parse_digits n of
             Some k \<Rightarrow> if k < 256 then (char_of k, None) else (CHR 0x00, Some (ErrJsonType name))
           | None \<Rightarrow> (CHR 0x00, Some (ErrJsonType name)))
      | JNull \<Rightarrow> (CHR 0x00, None)
      | _ \<Rightarrow> (CHR 0x00, Some (ErrJsonType name)))"

definition bytes_field ::
    "string \<Rightarrow> ((bytes option \<Rightarrow> bytes option) \<Rightarrow> 'a \<Rightarrow> 'a) \<Rightarrow> 'a field" where
  "bytes_field name upd v x =
     (case v of
        JStr s \<Rightarrow>
          (case b64_decode std_alphabet s of
             Some bs \<Rightarrow> (upd (\<lambda>_. Some bs) x, None)
           | None \<Rightarrow> (x, Some ErrBase64))
      | JNull \<Rightarrow> (upd (\<lambda>_. None) x, None)
      | JArr js \<Rightarrow>
          (upd (\<lambda>_. Some (map (fst \<circ> byte_elem name) js)) x,
           foldl first_error None (map (snd \<circ> byte_elem name) js))
      | _ \<Rightarrow> (x, Some (ErrJsonType name)))"

fun decode_members ::
    "(string \<times> 'a field) list \<Rightarrow> (string \<times> json) list \<Rightarrow> 'a \<times> error option \<Rightarrow> 'a \<times> error option" where
  "decode_members tbl [] st = st"
| "decode_members tbl ((k, v) # ms) (x, e) =
     (case map_of tbl (fold_key k) of
        None \<Rightarrow> decode_members tbl ms (x, e)
      | Some f \<Rightarrow>
          (case f v x of (x', e') \<Rightarrow> decode_members tbl ms (x', first_error e e')))"

definition decode_struct :: "(string \<times> 'a field) list \<Rightarrow> 'a \<Rightarrow> json \<Rightarrow> 'a \<times> error option" where
  "decode_struct tbl zero j =
     (case j of
        JObj ms \<Rightarrow> decode_members tbl ms (zero, None)
      | JNull \<Rightarrow> (zero, None)
      | _ \<Rightarrow> (zero, Some (ErrJsonType '''')))"

text \<open>A slice of structs: every element is decoded, the first error of all is kept.\<close>

definition decode_slice :: "(json \<Rightarrow> 'a \<times> error option) \<Rightarrow> json \<Rightarrow> 'a list option \<times> error option" where
  "decode_slice dec j =
     (case j of
        JArr js \<Rightarrow> (Some (map (fst \<circ> dec) js), foldl first_error None (map (snd \<circ> dec) js))
      | JNull \<Rightarrow> (None, None)
      | _ \<Rightarrow> (None, Some (ErrJsonType '''')))"

text \<open>\<open>json.Unmarshal\<close> into a zero value: the decoded value and the error it returns.\<close>

definition unmarshal :: "(json \<Rightarrow> 'a \<times> error option) \<Rightarrow> 'a \<Rightarrow> string \<Rightarrow> 'a \<times> error option" where
  "unmarshal dec zero s =
     (case json_parse s of None \<Rightarrow> (zero, Some ErrJsonSyntax) | Some j \<Rightarrow> dec j)"

subsection \<open>The field tables\<close>

definition cert_fields :: "(string \<times> certificate field) list" where
  "cert_fields =
     [(''certid'', str_field ''certId'' certId_update),
      (''certtype'', str_field ''certType'' certType_update),
      (''entrustorg'', str_field ''entrustOrg'' entrustOrg_update),
      (''instrumentname'', str_field ''instrumentName'' instrumentName_update),
      (''spec'', str_field ''spec'' spec_update),
      (''exportid'', str_field ''exportId'' exportId_update),
      (''madebyorg'', str_field ''madeByOrg'' madeByOrg_update),
      (''entrustorgadd'', str_field ''entrustOrgAdd'' entrustOrgAdd_update),
      (''approver'', str_field ''approver'' approver_update),
      (''verifier'', str_field ''verifier'' verifier_update),
      (''calibrateperson'', str_field ''calibratePerson'' calibratePerson_update),
      (''calibratedate'', str_field ''calibrateDate'' calibrateDate_update),
      (''suggestnextcalidate'', str_field ''suggestNextCaliDate'' suggestNextCaliDate_update),
      (''iscompleted'', bool_field ''isCompleted'' isCompleted_update),
      (''isopen'', bool_field ''isOpen'' isOpen_update),
      (''isdeleted'', bool_field ''isDeleted'' isDeleted_update),
      (''updatedate'', str_field ''updateDate'' updateDate_update),
      (''hasupload'', bool_field ''hasUpload'' hasUpload_update)]"

definition decode_cert :: "json \<Rightarrow> certificate \<times> error option" where
  "decode_cert = decode_struct cert_fields zero_cert"

definition unmarshal_cert :: "string \<Rightarrow> certificate \<times> error option" where
  "unmarshal_cert = unmarshal decode_cert zero_cert"

definition file_fields :: "(string \<times> file_struct field) list" where
  "file_fields =
     [(''certid'', str_field ''certId'' fs_certId_update),
      (''certfile'', bytes_field ''certFile'' fs_certFile_update),
      (''filename'', str_field ''fileName'' fs_fileName_update)]"

definition unmarshal_file :: "string \<Rightarrow> file_struct \<times> error option" where
  "unmarshal_file = unmarshal (decode_struct file_fields zero_file) zero_file"

definition cc_file_fields :: "(string \<times> cc_file_struct field) list" where
  "cc_file_fields =
     [(''certid'', str_field ''certId'' cf_certId_update),
      (''certfile'', bytes_field ''certFile'' cf_certFile_update)]"

definition unmarshal_cc_file :: "string \<Rightarrow> cc_file_struct \<times> error option" where
  "unmarshal_cc_file = unmarshal (decode_struct cc_file_fields zero_cc_file) zero_cc_file"

definition status_fields :: "(string \<times> status field) list" where
  "status_fields =
     [(''certid'', str_field ''certId'' st_certId_update),
      (''isopen'', bool_field ''isOpen'' st_isOpen_update),
      (''iscompleted'', bool_field ''isCompleted'' st_isCompleted_update),
      (''isdeleted'', bool_field ''isDeleted'' st_isDeleted_update),
      (''ischangedonchain'', bool_field ''isChangedOnChain'' st_isChangedOnChain_update)]"

definition unmarshal_statuses :: "string \<Rightarrow> status list option \<times> error option" where
  "unmarshal_statuses = unmarshal (decode_slice (decode_struct status_fields zero_status)) None"

definition condition_fields :: "(string \<times> query_conditions field) list" where
  "condition_fields =
     [(''pagesize'', int_field ''pageSize'' qc_pageSize_update),
      (''pageindex'', int_field ''pageIndex'' qc_pageIndex_update),
      (''isopen'', bool_field ''isOpen'' qc_isOpen_update),
      (''iscompleted'', bool_field ''isCompleted'' qc_isCompleted_update),
      (''isdeleted'', bool_field ''isDeleted'' qc_isDeleted_update),
      (''certtype'', str_field ''certType'' qc_certType_update),
      (''certid'', str_field ''certId'' qc_certId_update),
      (''entrustorg'', str_field ''entrustOrg'' qc_entrustOrg_update),
      (''instrumentname'', str_field ''instrumentName'' qc_instrumentName_update),
      (''startcreatedate'', str_field ''startCreateDate'' qc_startCreateDate_update),
      (''endcreatedate'', str_field ''endCreateDate'' qc_endCreateDate_update),
      (''startcalibdate'', str_field ''startCalibDate'' qc_startCalibDate_update),
      (''endcalibdate'', str_field ''endCalibDate'' qc_endCalibDate_update)]"

definition unmarshal_conditions :: "string \<Rightarrow> query_conditions \<times> error option" where
  "unmarshal_conditions =
     unmarshal (decode_struct condition_fields zero_conditions) zero_conditions"

definition certs_field :: "list_internal field" where
  "certs_field v x =
     (case decode_slice decode_cert v of
        (cs, e) \<Rightarrow>
          ((case v of
              JArr js \<Rightarrow> x\<lparr>li_certs := cs\<rparr>
            | JNull \<Rightarrow> x\<lparr>li_certs := None\<rparr>
            | _ \<Rightarrow> x), e))"

definition list_internal_fields :: "(string \<times> list_internal field) list" where
  "list_internal_fields =
     [(''pagecount'', int_field ''PageCount'' li_pageCount_update),
      (''bookmark'', str_field ''Bookmark'' li_bookmark_update),
      (''certs'', certs_field)]"

definition unmarshal_list_internal :: "string \<Rightarrow> list_internal \<times> error option" where
  "unmarshal_list_internal =
     unmarshal (decode_struct list_internal_fields zero_list_internal) zero_list_internal"

section \<open>Encoding\<close>

definition cert_json :: "certificate \<Rightarrow> json" where
  "cert_json c = JObj
     [(''certId'', JStr (certId c)),
      (''certType'', JStr (certType c)),
      (''entrustOrg'', JStr (entrustOrg c)),
      (''instrumentName'', JStr (instrumentName c)),
      (''spec'', JStr (spec c)),
      (''exportId'', JStr (exportId c)),
      (''madeByOrg'', JStr (madeByOrg c)),
      (''entrustOrgAdd'', JStr (entrustOrgAdd c)),
      (''approver'', JStr (approver c)),
      (''verifier'', JStr (verifier c)),
      (''calibratePerson'', JStr (calibratePerson c)),
      (''calibrateDate'', JStr (calibrateDate c)),
      (''suggestNextCaliDate'', JStr (suggestNextCaliDate c)),
      (''isCompleted'', JBool (isCompleted c)),
      (''isOpen'', JBool (isOpen c)),
      (''isDeleted'', JBool (isDeleted c)),
      (''updateDate'', JStr (updateDate c)),
      (''hasUpload'', JBool (hasUpload c))]"

definition marshal_cert :: "certificate \<Rightarrow> string" where
  "marshal_cert c = print_json (cert_json c)"

definition bytes_json :: "bytes option \<Rightarrow> json" where
  "bytes_json b = (case b of None \<Rightarrow> JNull | Some bs \<Rightarrow> JStr (b64_encode std_alphabet bs))"

definition file_json :: "file_struct \<Rightarrow> json" where
  "file_json f = JObj
     [(''certId'', JStr (fs_certId f)), (''certFile'', bytes_json (fs_certFile f)),
      (''fileName'', JStr (fs_fileName f))]"

definition marshal_file :: "file_struct \<Rightarrow> string" where
  "marshal_file f = print_json (file_json f)"

definition list_internal_json :: "list_internal \<Rightarrow> json" where
  "list_internal_json l = JObj
     [(''PageCount'', JNum (itoa (li_pageCount l))), (''Bookmark'', JStr (li_bookmark l)),
      (''Certs'', case li_certs l of None \<Rightarrow> JNull | Some cs \<Rightarrow> JArr (map cert_json cs))]"

definition marshal_list_internal :: "list_internal \<Rightarrow> string" where
  "marshal_list_internal l = print_json (list_internal_json l)"

section \<open>Valid records\<close>

text \<open>Every text of the record is valid UTF-8.\<close>

definition cert_ok :: "certificate \<Rightarrow> bool" where
  "cert_ok c \<longleftrightarrow> utf8_valid (certId c) \<and> utf8_valid (certType c) \<and>
     utf8_valid (entrustOrg c) \<and> utf8_valid (instrumentName c) \<and>
     utf8_valid (spec c) \<and> utf8_valid (exportId c) \<and>
     utf8_valid (madeByOrg c) \<and> utf8_valid (entrustOrgAdd c) \<and>
     utf8_valid (approver c) \<and> utf8_valid (verifier c) \<and>
     utf8_valid (calibratePerson c) \<and> utf8_valid (calibrateDate c) \<and>
     utf8_valid (suggestNextCaliDate c) \<and> utf8_valid (updateDate c)"

definition file_ok :: "file_struct \<Rightarrow> bool" where
  "file_ok f \<longleftrightarrow> utf8_valid (fs_certId f) \<and> utf8_valid (fs_fileName f)"

definition list_internal_ok :: "list_internal \<Rightarrow> bool" where
  "list_internal_ok l \<longleftrightarrow> fits 64 (li_pageCount l) \<and> utf8_valid (li_bookmark l)
     \<and> (case li_certs l of None \<Rightarrow> True | Some cs \<Rightarrow> \<forall>c \<in> set cs. cert_ok c)"

section \<open>Round trips\<close>

lemma literal_utf8: "list_all (\<lambda>c. byte c < 0x80) s \<Longrightarrow> utf8_valid s"
  by (rule utf8_valid_asciis)

lemma zero_cert_ok [simp]: "cert_ok zero_cert"
  by (simp add: cert_ok_def zero_cert_def)

lemma cert_json_ok: "cert_ok c \<Longrightarrow> json_ok (cert_json c)"
  by (simp add: cert_json_def cert_ok_def)

lemma first_error_None [simp]: "first_error None e = e" "first_error e None = e"
  by (auto simp: first_error_def split: option.splits)

lemmas field_defs = str_field_def bool_field_def int_field_def bytes_field_def

text \<open>The tables find the field of every tag the encoders write.\<close>

lemma fold_tags: "map fold_key [''certId'', ''certType'', ''entrustOrg'', ''instrumentName'', ''spec'', ''exportId'',
     ''madeByOrg'', ''entrustOrgAdd'', ''approver'', ''verifier'', ''calibratePerson'',
     ''calibrateDate'', ''suggestNextCaliDate'', ''isCompleted'', ''isOpen'', ''isDeleted'',
     ''updateDate'', ''hasUpload'', ''certFile'', ''fileName'', ''PageCount'', ''Bookmark'', ''Certs'']
   = [''certid'', ''certtype'', ''entrustorg'', ''instrumentname'', ''spec'', ''exportid'',
     ''madebyorg'', ''entrustorgadd'', ''approver'', ''verifier'', ''calibrateperson'',
     ''calibratedate'', ''suggestnextcalidate'', ''iscompleted'', ''isopen'', ''isdeleted'',
     ''updatedate'', ''hasupload'', ''certfile'', ''filename'', ''pagecount'', ''bookmark'', ''certs'']"
  by code_simp

lemma decode_cert_json: "decode_cert (cert_json c) = (c, None)"
  using fold_tags
  by (simp add: decode_cert_def decode_struct_def cert_json_def cert_fields_def field_defs
      zero_cert_def del: fold_key.simps)

theorem cert_roundtrip: "cert_ok c \<Longrightarrow> unmarshal_cert (marshal_cert c) = (c, None)"
  by (simp add: unmarshal_cert_def unmarshal_def marshal_cert_def json_roundtrip cert_json_ok
      decode_cert_json)

lemma b64_ascii: "utf8_valid (b64_encode std_alphabet s)"
proof (rule utf8_valid_asciis)
  have "list_all (\<lambda>c. byte c < 0x80) (CHR ''='' # std_alphabet)"
    by (simp add: std_alphabet_def)
  then show "list_all (\<lambda>c. byte c < 0x80) (b64_encode std_alphabet s)"
    using b64_encode_chars [OF std_alphabet_ok, of s] by (auto simp: list_all_iff)
qed

lemma file_json_ok: "file_ok f \<Longrightarrow> json_ok (file_json f)"
  by (simp add: file_json_def file_ok_def bytes_json_def b64_ascii split: option.splits)

lemma decode_file_json: "decode_struct file_fields zero_file (file_json f) = (f, None)"
  using fold_tags
  by (simp add: decode_struct_def file_json_def file_fields_def field_defs zero_file_def
      bytes_json_def del: fold_key.simps split: option.splits)

lemma decode_cc_file_json:
  "decode_struct cc_file_fields zero_cc_file (file_json f)
     = (\<lparr>cf_certId = fs_certId f, cf_certFile = fs_certFile f\<rparr>, None)"
  using fold_tags
  by (simp add: decode_struct_def file_json_def cc_file_fields_def field_defs zero_cc_file_def
      bytes_json_def del: fold_key.simps split: option.splits)

theorem file_roundtrip: "file_ok f \<Longrightarrow> unmarshal_file (marshal_file f) = (f, None)"
  by (simp add: unmarshal_file_def unmarshal_def marshal_file_def json_roundtrip file_json_ok
      decode_file_json)

text \<open>The chaincode reads the document of the service's file record, name aside.\<close>

theorem cc_file_roundtrip:
  "file_ok f \<Longrightarrow> unmarshal_cc_file (marshal_file f)
     = (\<lparr>cf_certId = fs_certId f, cf_certFile = fs_certFile f\<rparr>, None)"
  by (simp add: unmarshal_cc_file_def unmarshal_def marshal_file_def json_roundtrip file_json_ok
      decode_cc_file_json)

lemma list_internal_json_ok: "list_internal_ok l \<Longrightarrow> json_ok (list_internal_json l)"
  by (auto simp: list_internal_json_def list_internal_ok_def number_ok_itoa cert_json_ok
      split: option.splits)

lemma foldl_first_error: "(\<And>x. x \<in> set es \<Longrightarrow> x = None) \<Longrightarrow> foldl first_error None es = None"
  by (induction es) auto

lemma decode_certs_json:
  "decode_slice decode_cert (JArr (map cert_json cs)) = (Some cs, None)"
  by (auto simp: decode_slice_def decode_cert_json comp_def intro!: foldl_first_error)

lemma decode_list_internal_json:
  "fits 64 (li_pageCount l)
     \<Longrightarrow> decode_struct list_internal_fields zero_list_internal (list_internal_json l) = (l, None)"
  using fold_tags
  by (simp add: decode_struct_def list_internal_json_def list_internal_fields_def field_defs
      zero_list_internal_def parse_int_itoa certs_field_def decode_certs_json
      decode_slice_def [of _ JNull] del: fold_key.simps split: option.splits)

theorem list_internal_roundtrip:
  "list_internal_ok l \<Longrightarrow> unmarshal_list_internal (marshal_list_internal l) = (l, None)"
  by (simp add: unmarshal_list_internal_def unmarshal_def marshal_list_internal_def
      json_roundtrip list_internal_json_ok decode_list_internal_json, simp add: list_internal_ok_def
      decode_list_internal_json)

lemma print_json_Nil [simp]: "json_ok j \<Longrightarrow> print_json j \<noteq> []"
  using json_start by (metis list.distinct(1))

section \<open>Decoded records are valid\<close>

text \<open>A field keeps a property of the record it fills in, given valid strings.\<close>

definition keeps :: "('a \<Rightarrow> bool) \<Rightarrow> 'a field \<Rightarrow> bool" where
  "keeps P f \<longleftrightarrow> (\<forall>v x. strings_valid v \<longrightarrow> P x \<longrightarrow> P (fst (f v x)))"

lemma keeps_str [intro]:
  "(\<And>s x. utf8_valid s \<Longrightarrow> P x \<Longrightarrow> P (upd (\<lambda>_. s) x)) \<Longrightarrow> keeps P (str_field n upd)"
  by (auto simp: keeps_def str_field_def split: json.splits)

lemma keeps_bool [intro]:
  "(\<And>b x. P x \<Longrightarrow> P (upd (\<lambda>_. b) x)) \<Longrightarrow> keeps P (bool_field n upd)"
  by (auto simp: keeps_def bool_field_def split: json.splits)

lemma keeps_int [intro]:
  "(\<And>i x. fits 64 i \<Longrightarrow> P x \<Longrightarrow> P (upd (\<lambda>_. i) x)) \<Longrightarrow> keeps P (int_field n upd)"
  by (auto simp: keeps_def int_field_def dest: parse_int_fits split: json.splits option.splits)

lemma keeps_bytes [intro]:
  "(\<And>b x. P x \<Longrightarrow> P (upd (\<lambda>_. b) x)) \<Longrightarrow> keeps P (bytes_field n upd)"
  by (auto simp: keeps_def bytes_field_def split: json.splits option.splits)

lemma decode_members_keeps:
  assumes "list_all (keeps P) (map snd tbl)"
  shows "strings_valid (JObj ms) \<Longrightarrow> P x \<Longrightarrow> P (fst (decode_members tbl ms (x, e)))"
proof (induction ms arbitrary: x e)
  case Nil
  then show ?case by simp
next
  case (Cons kv ms)
  obtain k v where kv: "kv = (k, v)" by force
  show ?case
  proof (cases "map_of tbl (fold_key k)")
    case None
    with Cons kv show ?thesis by simp
  next
    case (Some f)
    then have "f \<in> set (map snd tbl)" by (auto dest!: map_of_SomeD simp: rev_image_eqI)
    then have "keeps P f" using assms by (auto simp: list_all_iff)
    then have "P (fst (f v x))" using Cons.prems kv by (simp add: keeps_def)
    with Cons kv Some show ?thesis by (cases "f v x") simp
  qed
qed

lemma decode_struct_keeps:
  assumes "list_all (keeps P) (map snd tbl)" and "P zero" and "strings_valid j"
  shows "P (fst (decode_struct tbl zero j))"
  using decode_members_keeps [OF assms(1), of _ zero None] assms(2,3)
  by (cases j) (simp_all add: decode_struct_def)

lemma unmarshal_keeps:
  assumes "\<And>j. strings_valid j \<Longrightarrow> P (fst (dec j))" and "P zero"
  shows "P (fst (unmarshal dec zero s))"
  using assms json_parse_valid [of s] by (simp add: unmarshal_def split: option.splits)

lemma cert_fields_keep: "list_all (keeps cert_ok) (map snd cert_fields)"
  unfolding cert_fields_def list.map list.pred_inject snd_conv
  by (intro conjI keeps_str keeps_bool TrueI; simp add: cert_ok_def)

lemma decode_cert_ok: "strings_valid j \<Longrightarrow> cert_ok (fst (decode_cert j))"
  unfolding decode_cert_def by (rule decode_struct_keeps [OF cert_fields_keep zero_cert_ok])

theorem unmarshal_cert_ok: "cert_ok (fst (unmarshal_cert s))"
  unfolding unmarshal_cert_def by (rule unmarshal_keeps [OF decode_cert_ok zero_cert_ok])

definition status_ok :: "status \<Rightarrow> bool" where
  "status_ok st \<longleftrightarrow> utf8_valid (st_certId st)"

lemma status_fields_keep: "list_all (keeps status_ok) (map snd status_fields)"
  unfolding status_fields_def list.map list.pred_inject snd_conv
  by (intro conjI keeps_str keeps_bool TrueI; simp add: status_ok_def)

lemma unmarshal_statuses_ok:
  assumes "unmarshal_statuses s = (Some sts, e)" and "st \<in> set sts"
  shows "status_ok st"
proof -
  have zero: "status_ok zero_status" by (simp add: status_ok_def zero_status_def)
  obtain js where "json_parse s = Some (JArr js)"
    and sts: "sts = map (fst \<circ> decode_struct status_fields zero_status) js"
    using assms(1)
    by (auto simp: unmarshal_statuses_def unmarshal_def decode_slice_def split: option.splits json.splits)
  then have "strings_valid (JArr js)" using json_parse_valid by blast
  then show ?thesis
    using assms(2) decode_struct_keeps [OF status_fields_keep zero] by (auto simp: sts)
qed

lemma file_fields_keep: "list_all (keeps file_ok) (map snd file_fields)"
  unfolding file_fields_def list.map list.pred_inject snd_conv
  by (intro conjI keeps_str keeps_bytes TrueI; simp add: file_ok_def)

theorem unmarshal_file_ok: "file_ok (fst (unmarshal_file s))"
proof -
  have "file_ok zero_file" by (simp add: file_ok_def zero_file_def)
  then show ?thesis
    using unmarshal_keeps [of file_ok "decode_struct file_fields zero_file" zero_file s]
      decode_struct_keeps [OF file_fields_keep] by (simp add: unmarshal_file_def)
qed

end
