(* ===== verification/Shim.thy ===== *)
theory Shim
  imports Records
begin

text \<open>
  What the chaincode uses of the Fabric shim, from the vendored
  fabric/core/chaincode/shim/chaincode.go: the composite keys, and the stub of one
  invocation. The peer behind the stub is a parameter (\<open>peer\<close>): which requests it refuses,
  what its rich query returns, its clock and whether it knows the PRC zone. Writes and the
  event are collected in the stub and reach the ledger only when the transaction commits, so
  a read sees the committed state.
\<close>

section \<open>Responses\<close>

datatype response = Success bytes | Failure error

definition response_status :: "response \<Rightarrow> nat" where
  "response_status r = (case r of Success _ \<Rightarrow> 200 | Failure _ \<Rightarrow> 500)"

section \<open>Composite keys\<close>

definition min_rune :: nat where "min_rune = 0"
definition max_rune :: nat where "max_rune = 0x10FFFF"

text \<open>The first forbidden rune of a valid string, with its byte position.\<close>

function bad_rune :: "nat \<Rightarrow> bytes \<Rightarrow> (nat \<times> nat) option" where
  "bad_rune pos s =
     (case utf8_split s of
        None \<Rightarrow> None
      | Some (r, t) \<Rightarrow>
          (if r = min_rune \<or> r = max_rune then Some (r, pos)
           else bad_rune (pos + (length s - length t)) t))"
  by pat_completeness auto
termination
  by (relation "measure (\<lambda>(pos, s). length s)") (auto dest: utf8_split_shorter)

declare bad_rune.simps [simp del]

definition validateCompositeKeyAttribute :: "string \<Rightarrow> error option" where
  "validateCompositeKeyAttribute str =
     (if \<not> utf8_valid str then Some (ErrKeyUtf8 str)
      else (case bad_rune 0 str of
        Some (r, i) \<Rightarrow> Some (ErrKeyRune r i)
      | None \<Rightarrow> None))"

fun add_attributes :: "string \<Rightarrow> string list \<Rightarrow> error + string" where
  "add_attributes ck [] = Inr ck"
| "add_attributes ck (att # rest) =
     (case validateCompositeKeyAttribute att of
        Some e \<Rightarrow> Inl e
      | None \<Rightarrow> add_attributes (ck @ att @ [CHR 0x00]) rest)"

definition createCompositeKey :: "string \<Rightarrow> string list \<Rightarrow> error + string" where
  "createCompositeKey objectType attributes =
     (case validateCompositeKeyAttribute objectType of
        Some e \<Rightarrow> Inl e
      | None \<Rightarrow> add_attributes (CHR 0x00 # objectType @ [CHR 0x00]) attributes)"

text \<open>The pieces of a text that a zero byte ends; what follows the last one is dropped.\<close>

fun zero_pieces :: "string \<Rightarrow> string \<Rightarrow> string list" where
  "zero_pieces acc [] = []"
| "zero_pieces acc (c # cs) =
     (if c = CHR 0x00 then acc # zero_pieces [] cs else zero_pieces (acc @ [c]) cs)"

definition splitCompositeKey :: "string \<Rightarrow> (string \<times> string list) outcome" where
  "splitCompositeKey ck =
     (case zero_pieces [] (tl ck) of
        [] \<Rightarrow> Panic ''index out of range''
      | p # ps \<Rightarrow> Ret (p, ps))"

lemma bad_rune_rune:
  "valid_rune r \<Longrightarrow> bad_rune i (utf8_encode r @ t) =
     (if r = min_rune \<or> r = max_rune then Some (r, i) else bad_rune (i + length (utf8_encode r)) t)"
  by (subst bad_rune.simps) simp

lemma bad_rune_no_zero: "utf8_valid s \<Longrightarrow> bad_rune i s = None \<Longrightarrow> CHR 0x00 \<notin> set s"
proof (induction s arbitrary: i rule: utf8_induct)
  case Nil
  then show ?case by simp
next
  case (Rune r t)
  then have r: "r \<noteq> 0" by (auto simp: bad_rune_rune min_rune_def split: if_splits)
  then have "CHR 0x00 \<notin> set (utf8_encode r)"
    using Rune.hyps(1) by (auto simp: utf8_encode_def valid_rune_def dest!: arg_cong [where f = "of_char :: char \<Rightarrow> nat"])
  with Rune show ?case by (auto simp: bad_rune_rune split: if_splits)
qed

text \<open>A text of ASCII characters other than zero is an attribute.\<close>

lemma bad_rune_ascii: "\<forall>c \<in> set s. 0 < byte c \<and> byte c < 0x80 \<Longrightarrow> bad_rune i s = None"
proof (induction s arbitrary: i)
  case Nil
  show ?case by (subst bad_rune.simps) simp
next
  case (Cons c s)
  then show ?case by (subst bad_rune.simps) (simp add: min_rune_def max_rune_def)
qed

lemma validate_ascii:
  "\<forall>c \<in> set s. 0 < byte c \<and> byte c < 0x80 \<Longrightarrow> validateCompositeKeyAttribute s = None"
  by (simp add: validateCompositeKeyAttribute_def bad_rune_ascii utf8_valid_asciis list_all_iff)

lemma validate_no_zero: "validateCompositeKeyAttribute s = None \<Longrightarrow> CHR 0x00 \<notin> set s \<and> utf8_valid s"
  using bad_rune_no_zero by (auto simp: validateCompositeKeyAttribute_def split: if_splits option.splits)

lemma zero_pieces_append:
  "CHR 0x00 \<notin> set p \<Longrightarrow> zero_pieces acc (p @ CHR 0x00 # rest) = (acc @ p) # zero_pieces [] rest"
  by (induction p arbitrary: acc) auto

lemma add_attributes_text:
  "add_attributes ck atts = Inr k \<Longrightarrow>
     k = ck @ concat (map (\<lambda>a. a @ [CHR 0x00]) atts) \<and> (\<forall>a \<in> set atts. validateCompositeKeyAttribute a = None)"
  by (induction ck atts rule: add_attributes.induct) (auto split: option.splits)

lemma zero_pieces_attributes:
  "\<forall>a \<in> set atts. CHR 0x00 \<notin> set a \<Longrightarrow>
     zero_pieces [] (concat (map (\<lambda>a. a @ [CHR 0x00]) atts)) = atts"
  by (induction atts) (auto simp: zero_pieces_append)

lemma createCompositeKey_text:
  "createCompositeKey t atts = Inr k \<Longrightarrow>
     k = CHR 0x00 # t @ CHR 0x00 # concat (map (\<lambda>a. a @ [CHR 0x00]) atts)
     \<and> CHR 0x00 \<notin> set t \<and> (\<forall>a \<in> set atts. CHR 0x00 \<notin> set a \<and> utf8_valid a)"
  by (auto simp: createCompositeKey_def split: option.splits
      dest!: add_attributes_text validate_no_zero)

lemma split_create: "createCompositeKey t atts = Inr k \<Longrightarrow> splitCompositeKey k = Ret (t, atts)"
  using createCompositeKey_text [of t atts k]
  by (simp add: splitCompositeKey_def zero_pieces_append zero_pieces_attributes)

lemma createCompositeKey_inj:
  "createCompositeKey t atts = Inr k \<Longrightarrow> createCompositeKey t' atts' = Inr k \<Longrightarrow> t = t' \<and> atts = atts'"
  using split_create [of t atts k] split_create [of t' atts' k] by simp

lemma createCompositeKey_nonempty: "createCompositeKey t atts = Inr k \<Longrightarrow> k \<noteq> []"
  using createCompositeKey_text by fastforce

section \<open>The stub of an invocation\<close>

type_synonym ledger = "(string \<times> bytes) list"

record peer =
  refuse_get :: "string \<Rightarrow> error option"
  refuse_put :: "string \<Rightarrow> error option"
  rich_query :: "ledger \<Rightarrow> string \<Rightarrow> int \<Rightarrow> string \<Rightarrow> error + (error + bytes) list \<times> int \<times> string"
  unix_now :: int
  knows_prc :: bool

record stub =
  committed :: ledger
  write_set :: ledger
  cc_event :: "(string \<times> bytes) option"

definition new_stub :: "ledger \<Rightarrow> stub" where
  "new_stub l = \<lparr>committed = l, write_set = [], cc_event = None\<rparr>"

text \<open>A key that was never written reads as the empty value.\<close>

definition GetState :: "peer \<Rightarrow> string \<Rightarrow> stub \<Rightarrow> error + bytes" where
  "GetState p key s =
     (case refuse_get p key of
        Some e \<Rightarrow> Inl e
      | None \<Rightarrow> Inr (case map_of (committed s) key of None \<Rightarrow> [] | Some v \<Rightarrow> v))"

definition PutState :: "peer \<Rightarrow> string \<Rightarrow> bytes \<Rightarrow> stub \<Rightarrow> error option \<times> stub" where
  "PutState p key value s =
     (if key = [] then (Some (ErrText ''key must not be an empty string''), s)
      else (case refuse_put p key of
        Some e \<Rightarrow> (Some e, s)
      | None \<Rightarrow> (None, s\<lparr>write_set := put key value (write_set s)\<rparr>)))"

definition SetEvent :: "string \<Rightarrow> bytes \<Rightarrow> stub \<Rightarrow> error option \<times> stub" where
  "SetEvent name payload s =
     (if name = [] then (Some (ErrText ''event name can not be nil string''), s)
      else (None, s\<lparr>cc_event := Some (name, payload)\<rparr>))"

definition GetFunctionAndParameters :: "string list \<Rightarrow> string \<times> string list" where
  "GetFunctionAndParameters allargs = (case allargs of [] \<Rightarrow> ([], []) | f # ps \<Rightarrow> (f, ps))"

text \<open>Committing a transaction writes its write set to the ledger, key by key.\<close>

fun commit :: "ledger \<Rightarrow> ledger \<Rightarrow> ledger" where
  "commit l [] = l"
| "commit l ((k, v) # ws) = commit (put k v l) ws"

lemma commit_lookup: "map_of (commit l ws) k = (case map_of (rev ws) k of None \<Rightarrow> map_of l k | Some v \<Rightarrow> Some v)"
  by (induction l ws rule: commit.induct) (auto simp: map_add_def split: option.splits)

lemma commit_all:
  "(\<forall>kv \<in> set l. P kv) \<Longrightarrow> (\<forall>kv \<in> set ws. P kv) \<Longrightarrow> (\<forall>kv \<in> set (commit l ws). P kv)"
proof (induction l ws rule: commit.induct)
  case (2 l k v ws)
  then show ?case using put_all [of l P k v] by simp
qed simp

end
