(* ===== verification/Clock.thy ===== *)
theory Clock
  imports Prelude
begin

text \<open>
  The time stamp the chaincode writes: \<open>now.In(PRC).Format("2006-01-02 15:04:05")\<close>, as a
  function of the Unix time in seconds. The PRC zone is eight hours ahead of UTC and has
  no summer time in the years concerned. A stamp always has nineteen characters; its first
  ten are the date.
\<close>

definition two_digits :: "nat \<Rightarrow> string" where
  "two_digits n = [char_of (48 + n div 10 mod 10), char_of (48 + n mod 10)]"

definition four_digits :: "nat \<Rightarrow> string" where
  "four_digits n = two_digits (n div 100) @ two_digits (n mod 100)"

text \<open>
  Day count (since 1970-01-01) to year, month and day in the proleptic Gregorian calendar,
  with years that start in March: an era is 400 such years.
\<close>

definition civil_of_days :: "int \<Rightarrow> int \<times> nat \<times> nat" where
  "civil_of_days z0 =
     (let z = z0 + 719468;
          era = z div 146097;
          doe = z mod 146097;
          yoe = (doe - doe div 1460 + doe div 36524 - doe div 146096) div 365;
          doy = doe - (365 * yoe + yoe div 4 - yoe div 100);
          mp = (5 * doy + 2) div 153;
          d = doy - (153 * mp + 2) div 5 + 1;
          m = (if mp < 10 then mp + 3 else mp - 9);
          y = yoe + era * 400 + (if m \<le> 2 then 1 else 0)
      in (y, nat m, nat d))"

definition prc_offset :: int where
  "prc_offset = 8 * 3600"

definition format_date :: "int \<Rightarrow> string" where
  "format_date unix =
     (case civil_of_days ((unix + prc_offset) div 86400) of
        (y, m, d) \<Rightarrow> four_digits (nat y) @ ''-'' @ two_digits m @ ''-'' @ two_digits d)"

definition format_clock :: "int \<Rightarrow> string" where
  "format_clock unix =
     (let s = (unix + prc_offset) mod 86400
      in two_digits (nat (s div 3600)) @ '':'' @ two_digits (nat (s div 60 mod 60)) @ '':''
         @ two_digits (nat (s mod 60)))"

definition format_prc :: "int \<Rightarrow> string" where
  "format_prc unix = format_date unix @ '' '' @ format_clock unix"

lemma length_format_date: "length (format_date t) = 10"
  by (simp add: format_date_def four_digits_def two_digits_def split: prod.splits)

lemma length_format_prc [simp]: "length (format_prc t) = 19"
  by (simp add: format_prc_def length_format_date format_clock_def two_digits_def Let_def)

lemma take_format_prc [simp]: "take 10 (format_prc t) = format_date t"
  by (simp add: format_prc_def length_format_date)

lemma two_digits_ascii: "list_all (\<lambda>c. byte c < 0x80) (two_digits n)"
proof -
  have digit: "byte (char_of (48 + k mod 10 :: nat)) < 0x80" for k
  proof -
    have "k mod 10 < 10" by simp
    then have "48 + k mod 10 < 0x80" by linarith
    then show ?thesis by simp
  qed
  show ?thesis using digit [of n] digit [of "n div 10"] by (simp add: two_digits_def del: of_char_of)
qed

lemma format_prc_ascii: "list_all (\<lambda>c. byte c < 0x80) (format_prc t)"
  by (simp add: format_prc_def format_date_def format_clock_def four_digits_def
      two_digits_ascii Let_def split: prod.splits)

end
