(* ===== verification/Chaincode.thy ===== *)
theory Chaincode
  imports Shim Clock
begin

text \<open>
  The smart contract, app/chaincode/main.go: one definition per method, over the stub of
  one invocation. A method returns a response or panics. Two kinds of ledger entries exist,
  certificates under the composite keys of \<open>certId\<close> and files under those of \<open>certFile\<close>;
  \<open>ledger_ok\<close> is the invariant every committed transaction keeps, and \<open>abs_certs\<close>,
  \<open>abs_files\<close> are the abstract state: the two maps a client of the contract sees.
\<close>

section \<open>The methods\<close>

definition bad_args :: response where
  "bad_args = Failure (ErrText ''Incorrect number of arguments.'')"

definition Init :: "string list \<Rightarrow> response" where
  "Init allargs =
     (let function = fst (GetFunctionAndParameters allargs)
      in if function \<noteq> ''init'' then Failure (ErrText ''Unknown function call'') else Success [])"

definition postCertificate_cc :: "peer \<Rightarrow> string list \<Rightarrow> stub \<Rightarrow> response outcome \<times> stub" where
  "postCertificate_cc p args s =
     (case args of
        [body] \<Rightarrow>
          (case unmarshal_cert body of
             (certificate, Some e) \<Rightarrow> (Ret (Failure e), s)
           | (certificate, None) \<Rightarrow>
               (case createCompositeKey ''certId'' [certId certificate] of
                  Inl e \<Rightarrow> (Ret (Failure e), s)
                | Inr key \<Rightarrow>
                    (if \<not> knows_prc p then (Panic ''time: missing Location in call to Time.In'', s)
                     else
                       (let certificate = certificate\<lparr>updateDate := format_prc (unix_now p)\<rparr>
                        in (case PutState p key (marshal_cert certificate) s of
                              (Some e, s1) \<Rightarrow> (Ret (Failure e), s1)
                            | (None, s1) \<Rightarrow>
                                (case SetEvent (''postCertificateEvent'' @ certId certificate) [] s1 of
                                   (Some e, s2) \<Rightarrow> (Ret (Failure e), s2)
                                 | (None, s2) \<Rightarrow> (Ret (Success []), s2)))))))
      | _ \<Rightarrow> (Ret bad_args, s))"

definition getCertificate_cc :: "peer \<Rightarrow> string list \<Rightarrow> stub \<Rightarrow> response outcome \<times> stub" where
  "getCertificate_cc p args s =
     (case args of
        [arg] \<Rightarrow>
          (case createCompositeKey ''certId'' [arg] of
             Inl e \<Rightarrow> (Ret (Failure e), s)
           | Inr key \<Rightarrow>
               (case GetState p key s of
                  Inl e \<Rightarrow> (Ret (Failure e), s)
                | Inr value \<Rightarrow> (Ret (Success value), s)))
      | _ \<Rightarrow> (Ret bad_args, s))"

definition postUploadFile_cc :: "peer \<Rightarrow> string list \<Rightarrow> stub \<Rightarrow> response outcome \<times> stub" where
  "postUploadFile_cc p args s =
     (case args of
        [body] \<Rightarrow>
          (case unmarshal_cc_file body of
             (fs, Some e) \<Rightarrow> (Ret (Failure e), s)
           | (fs, None) \<Rightarrow>
               (case createCompositeKey ''certFile'' [cf_certId fs] of
                  Inl e \<Rightarrow> (Ret (Failure e), s)
                | Inr key \<Rightarrow>
                    (case PutState p key body s of
                       (Some e, s1) \<Rightarrow> (Ret (Failure e), s1)
                     | (None, s1) \<Rightarrow>
                         (case SetEvent (''postUploadFileEvent'' @ cf_certId fs) [] s1 of
                            (Some e, s2) \<Rightarrow> (Ret (Failure e), s2)
                          | (None, s2) \<Rightarrow> (Ret (Success []), s2)))))
      | _ \<Rightarrow> (Ret bad_args, s))"

definition getDownloadFile_cc :: "peer \<Rightarrow> string list \<Rightarrow> stub \<Rightarrow> response outcome \<times> stub" where
  "getDownloadFile_cc p args s =
     (case args of
        [arg] \<Rightarrow>
          (case createCompositeKey ''certFile'' [arg] of
             Inl e \<Rightarrow> (Ret (Failure e), s)
           | Inr key \<Rightarrow>
               (case GetState p key s of
                  Inl e \<Rightarrow> (Ret (Failure e), s)
                | Inr value \<Rightarrow> (Ret (Success value), s)))
      | _ \<Rightarrow> (Ret bad_args, s))"

text \<open>The result rows of the iterator, decoded in order; the first failure ends the loop.\<close>

fun collect_certs :: "(error + bytes) list \<Rightarrow> error + certificate list" where
  "collect_certs [] = Inr []"
| "collect_certs (Inl e # rows) = Inl e"
| "collect_certs (Inr v # rows) =
     (case unmarshal_cert v of
        (cert, Some e) \<Rightarrow> Inl e
      | (cert, None) \<Rightarrow> map_sum id (Cons cert) (collect_certs rows))"

text \<open>A nil slice is what appending nothing leaves.\<close>

definition appended :: "'a list \<Rightarrow> 'a list option" where
  "appended xs = (if xs = [] then None else Some xs)"

definition getQueryResultForQueryStringWithPagination ::
    "peer \<Rightarrow> string \<Rightarrow> int \<Rightarrow> string \<Rightarrow> stub \<Rightarrow> error + bytes" where
  "getQueryResultForQueryStringWithPagination p queryString pageSize bookmark s =
     (case rich_query p (committed s) queryString pageSize bookmark of
        Inl e \<Rightarrow> Inl e
      | Inr (rows, fetched, bookmark') \<Rightarrow>
          (case collect_certs rows of
             Inl e \<Rightarrow> Inl e
           | Inr certs \<Rightarrow>
               Inr (marshal_list_internal
                 \<lparr>li_pageCount = fetched, li_bookmark = bookmark', li_certs = appended certs\<rparr>)))"

text \<open>
  The first three arguments are printed before their number is checked, so an invocation
  with fewer never reaches the check.
\<close>

definition queryList :: "peer \<Rightarrow> string list \<Rightarrow> stub \<Rightarrow> response outcome \<times> stub" where
  "queryList p args s =
     (if length args < 3 then (Panic ''index out of range'', s)
      else if length args < 3 then
        (Ret (Failure (ErrText ''Incorrect number of arguments. Expecting 3'')), s)
      else
        (case parse_int 32 (args ! 1) of
           None \<Rightarrow> (Ret (Failure (ErrWrap ''strconv.ParseInt: '' (ErrText (args ! 1)))), s)
         | Some pageSize \<Rightarrow>
             (case getQueryResultForQueryStringWithPagination p (args ! 0) pageSize (args ! 2) s of
                Inl e \<Rightarrow> (Ret (Failure e), s)
              | Inr queryResults \<Rightarrow> (Ret (Success queryResults), s))))"

definition Invoke :: "peer \<Rightarrow> string list \<Rightarrow> stub \<Rightarrow> response outcome \<times> stub" where
  "Invoke p allargs s =
     (case GetFunctionAndParameters allargs of
        (function, args) \<Rightarrow>
          (if function = ''postCertificate'' then postCertificate_cc p args s
           else if function = ''getCertificate'' then getCertificate_cc p args s
           else if function = ''postUploadFile'' then postUploadFile_cc p args s
           else if function = ''getDownloadFile'' then getDownloadFile_cc p args s
           else if function = ''queryList'' then queryList p args s
           else (Ret (Failure (ErrWrap ''Unknown function: '' (ErrText function))), s)))"

section \<open>The two maps of the ledger\<close>

definition cert_key :: "string \<Rightarrow> string" where
  "cert_key i = CHR 0x00 # ''certId'' @ CHR 0x00 # i @ [CHR 0x00]"

definition file_key :: "string \<Rightarrow> string" where
  "file_key i = CHR 0x00 # ''certFile'' @ CHR 0x00 # i @ [CHR 0x00]"

text \<open>The identifiers a composite key accepts.\<close>

definition id_ok :: "string \<Rightarrow> bool" where
  "id_ok i \<longleftrightarrow> validateCompositeKeyAttribute i = None"

lemma validate_certId: "validateCompositeKeyAttribute ''certId'' = None"
  by (rule validate_ascii) simp

lemma validate_certFile: "validateCompositeKeyAttribute ''certFile'' = None"
  by (rule validate_ascii) simp

lemma create_cert_key:
  "createCompositeKey ''certId'' [i] =
     (case validateCompositeKeyAttribute i of None \<Rightarrow> Inr (cert_key i) | Some e \<Rightarrow> Inl e)"
  by (simp add: createCompositeKey_def validate_certId cert_key_def split: option.splits)

lemma create_file_key:
  "createCompositeKey ''certFile'' [i] =
     (case validateCompositeKeyAttribute i of None \<Rightarrow> Inr (file_key i) | Some e \<Rightarrow> Inl e)"
  by (simp add: createCompositeKey_def validate_certFile file_key_def split: option.splits)

lemma keys_nonempty [simp]: "cert_key i \<noteq> []" "file_key i \<noteq> []"
  by (simp_all add: cert_key_def file_key_def)

lemma keys_inj [simp]: "cert_key i = cert_key j \<longleftrightarrow> i = j" "file_key i = file_key j \<longleftrightarrow> i = j"
  by (simp_all add: cert_key_def file_key_def)

lemma keys_disjoint [simp]: "cert_key i \<noteq> file_key j" "file_key j \<noteq> cert_key i"
  by (simp_all add: cert_key_def file_key_def)

lemma id_ok_utf8: "id_ok i \<Longrightarrow> utf8_valid i"
  using validate_no_zero by (simp add: id_ok_def)

lemma event_names_nonempty [simp]: "''postCertificateEvent'' @ i \<noteq> []" "''postUploadFileEvent'' @ i \<noteq> []"
  by simp_all

subsection \<open>The invariant of the ledger\<close>

definition cert_entry :: "string \<Rightarrow> bytes \<Rightarrow> bool" where
  "cert_entry k v \<longleftrightarrow>
     (\<exists>c t. cert_ok c \<and> id_ok (certId c) \<and> k = cert_key (certId c)
        \<and> v = marshal_cert (c\<lparr>updateDate := format_prc t\<rparr>))"

definition file_entry :: "string \<Rightarrow> bytes \<Rightarrow> bool" where
  "file_entry k v \<longleftrightarrow>
     (\<exists>fs. unmarshal_cc_file v = (fs, None) \<and> id_ok (cf_certId fs) \<and> k = file_key (cf_certId fs))"

definition ledger_ok :: "ledger \<Rightarrow> bool" where
  "ledger_ok l \<longleftrightarrow> distinct (map fst l) \<and> (\<forall>(k, v) \<in> set l. cert_entry k v \<or> file_entry k v)"

lemma cert_entryI:
  "unmarshal_cert body = (c, None) \<Longrightarrow> id_ok (certId c) \<Longrightarrow>
     cert_entry (cert_key (certId c)) (marshal_cert (c\<lparr>updateDate := format_prc t\<rparr>))"
  using unmarshal_cert_ok [of body] unfolding cert_entry_def
  by (intro exI [of _ c] exI [of _ t]) simp

lemma ledger_ok_Nil [simp]: "ledger_ok []"
  by (simp add: ledger_ok_def)

lemma ledger_ok_put:
  "ledger_ok l \<Longrightarrow> cert_entry k v \<or> file_entry k v \<Longrightarrow> ledger_ok (put k v l)"
  using put_all [of l "\<lambda>(k, v). cert_entry k v \<or> file_entry k v" k v] distinct_put [of l k v]
  by (auto simp: ledger_ok_def)

text \<open>The abstract state: what a client finds under a certificate's identifier.\<close>

definition abs_certs :: "ledger \<Rightarrow> string \<Rightarrow> certificate option" where
  "abs_certs l i = map_option (\<lambda>v. fst (unmarshal_cert v)) (map_of l (cert_key i))"

definition abs_files :: "ledger \<Rightarrow> string \<Rightarrow> bytes option" where
  "abs_files l i = map_of l (file_key i)"

lemma cert_ok_date [simp]: "cert_ok c \<Longrightarrow> cert_ok (c\<lparr>updateDate := format_prc t\<rparr>)"
  using format_prc_ascii [of t] by (simp add: cert_ok_def utf8_valid_asciis)

lemma stored_cert:
  assumes "ledger_ok l" and "map_of l (cert_key i) = Some v"
  obtains c t where "cert_ok c" "certId c = i" "id_ok i" "updateDate c = format_prc t"
    "v = marshal_cert c" "unmarshal_cert v = (c, None)" "abs_certs l i = Some c"
proof -
  from assms have "cert_entry (cert_key i) v \<or> file_entry (cert_key i) v"
    unfolding ledger_ok_def by (auto dest: map_of_SomeD)
  then obtain c t where c: "cert_ok c" "id_ok (certId c)" "certId c = i"
    "v = marshal_cert (c\<lparr>updateDate := format_prc t\<rparr>)"
    by (auto simp: cert_entry_def file_entry_def)
  then have "unmarshal_cert v = (c\<lparr>updateDate := format_prc t\<rparr>, None)"
    by (simp add: cert_roundtrip)
  with that [of "c\<lparr>updateDate := format_prc t\<rparr>" t] c assms(2) show thesis
    by (simp add: abs_certs_def)
qed

lemma stored_file:
  assumes "ledger_ok l" and "map_of l (file_key i) = Some v"
  obtains fs where "unmarshal_cc_file v = (fs, None)" "cf_certId fs = i" "id_ok i"
  using assms unfolding ledger_ok_def
  by (auto simp: cert_entry_def file_entry_def dest!: map_of_SomeD)

section \<open>What each method does\<close>

text \<open>A successful post writes one entry, and its event carries the identifier.\<close>

lemma postCertificate_cc_success:
  "postCertificate_cc p args (new_stub l) = (Ret (Success r), s') \<longleftrightarrow>
     (\<exists>body c. args = [body] \<and> unmarshal_cert body = (c, None) \<and> id_ok (certId c) \<and> knows_prc p
        \<and> refuse_put p (cert_key (certId c)) = None \<and> r = []
        \<and> s' = \<lparr>committed = l,
                write_set = [(cert_key (certId c), marshal_cert (c\<lparr>updateDate := format_prc (unix_now p)\<rparr>))],
                cc_event = Some (''postCertificateEvent'' @ certId c, [])\<rparr>)"
  by (auto simp: postCertificate_cc_def bad_args_def create_cert_key id_ok_def PutState_def SetEvent_def
      new_stub_def Let_def split: list.splits option.splits prod.splits)

lemma postUploadFile_cc_success:
  "postUploadFile_cc p args (new_stub l) = (Ret (Success r), s') \<longleftrightarrow>
     (\<exists>body fs. args = [body] \<and> unmarshal_cc_file body = (fs, None) \<and> id_ok (cf_certId fs)
        \<and> refuse_put p (file_key (cf_certId fs)) = None \<and> r = []
        \<and> s' = \<lparr>committed = l, write_set = [(file_key (cf_certId fs), body)],
                cc_event = Some (''postUploadFileEvent'' @ cf_certId fs, [])\<rparr>)"
  by (auto simp: postUploadFile_cc_def bad_args_def create_file_key id_ok_def PutState_def SetEvent_def
      new_stub_def split: list.splits option.splits prod.splits)

lemma getCertificate_cc_success:
  "getCertificate_cc p args (new_stub l) = (Ret (Success r), s') \<longleftrightarrow>
     (\<exists>i. args = [i] \<and> id_ok i \<and> refuse_get p (cert_key i) = None \<and> s' = new_stub l
        \<and> r = (case map_of l (cert_key i) of None \<Rightarrow> [] | Some v \<Rightarrow> v))"
  by (auto simp: getCertificate_cc_def bad_args_def create_cert_key id_ok_def GetState_def new_stub_def
      split: list.splits option.splits sum.splits)

lemma getDownloadFile_cc_success:
  "getDownloadFile_cc p args (new_stub l) = (Ret (Success r), s') \<longleftrightarrow>
     (\<exists>i. args = [i] \<and> id_ok i \<and> refuse_get p (file_key i) = None \<and> s' = new_stub l
        \<and> r = (case map_of l (file_key i) of None \<Rightarrow> [] | Some v \<Rightarrow> v))"
  by (auto simp: getDownloadFile_cc_def bad_args_def create_file_key id_ok_def GetState_def new_stub_def
      split: list.splits option.splits sum.splits)

lemma queryList_state: "snd (queryList p args s) = s"
  by (simp add: queryList_def split: option.splits sum.splits)

lemma reads_keep_stub:
  "snd (getCertificate_cc p args s) = s" "snd (getDownloadFile_cc p args s) = s"
  by (simp_all add: getCertificate_cc_def getDownloadFile_cc_def split: list.splits sum.splits)

lemmas cc_success = postCertificate_cc_success postUploadFile_cc_success
  getCertificate_cc_success getDownloadFile_cc_success

text \<open>Dispatch: the four named methods and the query.\<close>

lemma Invoke_method [simp]:
  "Invoke p (''postCertificate'' # args) s = postCertificate_cc p args s"
  "Invoke p (''getCertificate'' # args) s = getCertificate_cc p args s"
  "Invoke p (''postUploadFile'' # args) s = postUploadFile_cc p args s"
  "Invoke p (''getDownloadFile'' # args) s = getDownloadFile_cc p args s"
  "Invoke p (''queryList'' # args) s = queryList p args s"
  by (simp_all add: Invoke_def GetFunctionAndParameters_def)

lemma Invoke_cases:
  assumes "Invoke p allargs s = (r, s')"
  obtains args where "allargs = ''postCertificate'' # args" "postCertificate_cc p args s = (r, s')"
  | args where "allargs = ''postUploadFile'' # args" "postUploadFile_cc p args s = (r, s')"
  | "s' = s"
proof -
  consider "allargs = []" | args where "allargs = ''postCertificate'' # args"
    | args where "allargs = ''postUploadFile'' # args"
    | f args where "allargs = f # args" "f \<noteq> ''postCertificate''" "f \<noteq> ''postUploadFile''"
    by (cases allargs) auto
  then show thesis
  proof cases
    case 1
    with assms that(3) show thesis by (simp add: Invoke_def GetFunctionAndParameters_def)
  next
    case (2 args)
    with assms that(1) show thesis by simp
  next
    case (3 args)
    with assms that(2) show thesis by simp
  next
    case (4 f args)
    have "s' = s"
      using assms 4 reads_keep_stub [of p args s] queryList_state [of p args s]
      by (auto simp: Invoke_def GetFunctionAndParameters_def split: if_splits)
    with that(3) show thesis .
  qed
qed

text \<open>A method that fails leaves the stub as it was; so nothing is written on an error.\<close>

lemma Invoke_write_set:
  assumes "Invoke p allargs (new_stub l) = (Ret (Success r), s')"
  shows "write_set s' = [] \<or> (\<exists>k v. write_set s' = [(k, v)] \<and> (cert_entry k v \<or> file_entry k v))"
  using assms
proof (cases rule: Invoke_cases)
  case (1 args)
  then obtain body c where "unmarshal_cert body = (c, None)" "id_ok (certId c)"
    and w: "write_set s' = [(cert_key (certId c), marshal_cert (c\<lparr>updateDate := format_prc (unix_now p)\<rparr>))]"
    by (auto simp: postCertificate_cc_success)
  from this(1,2) have "cert_entry (cert_key (certId c)) (marshal_cert (c\<lparr>updateDate := format_prc (unix_now p)\<rparr>))"
    by (rule cert_entryI)
  with w show ?thesis by blast
next
  case (2 args)
  then obtain body fs where "unmarshal_cc_file body = (fs, None)" "id_ok (cf_certId fs)"
    and "write_set s' = [(file_key (cf_certId fs), body)]"
    by (auto simp: postUploadFile_cc_success)
  then show ?thesis unfolding file_entry_def by blast
next
  case 3
  then show ?thesis by (simp add: new_stub_def)
qed

section \<open>Transactions\<close>

text \<open>
  A successful invocation commits what it wrote, any other leaves the ledger as it was.
\<close>

definition transact :: "peer \<Rightarrow> string list \<Rightarrow> ledger \<Rightarrow> response outcome \<times> ledger" where
  "transact p allargs l =
     (case Invoke p allargs (new_stub l) of
        (Ret (Success r), s) \<Rightarrow> (Ret (Success r), commit l (write_set s))
      | (r, s) \<Rightarrow> (r, l))"

lemma transact_ok:
  assumes "ledger_ok l"
  shows "ledger_ok (snd (transact p allargs l))"
proof -
  obtain r s' where i: "Invoke p allargs (new_stub l) = (r, s')" by (cases "Invoke p allargs (new_stub l)") auto
  show ?thesis
  proof (cases "\<exists>b. r = Ret (Success b)")
    case True
    with i Invoke_write_set [of p allargs l _ s'] assms show ?thesis
      by (auto simp: transact_def intro!: ledger_ok_put)
  qed (use i assms in \<open>auto simp: transact_def split: outcome.splits response.splits\<close>)
qed

text \<open>The abstract contract: two maps, and one possible change per invocation.\<close>

record registry =
  reg_certs :: "string \<Rightarrow> certificate option"
  reg_files :: "string \<Rightarrow> bytes option"

datatype effect = NoEffect | StoreCert certificate | StoreFile string bytes

definition effect_of :: "peer \<Rightarrow> string list \<Rightarrow> effect" where
  "effect_of p allargs =
     (case allargs of
        [f, body] \<Rightarrow>
          (if f = ''postCertificate'' then
             (case unmarshal_cert body of
                (c, None) \<Rightarrow>
                  (if id_ok (certId c) \<and> knows_prc p \<and> refuse_put p (cert_key (certId c)) = None
                   then StoreCert (c\<lparr>updateDate := format_prc (unix_now p)\<rparr>) else NoEffect)
              | _ \<Rightarrow> NoEffect)
           else if f = ''postUploadFile'' then
             (case unmarshal_cc_file body of
                (fs, None) \<Rightarrow>
                  (if id_ok (cf_certId fs) \<and> refuse_put p (file_key (cf_certId fs)) = None
                   then StoreFile (cf_certId fs) body else NoEffect)
              | _ \<Rightarrow> NoEffect)
           else NoEffect)
      | _ \<Rightarrow> NoEffect)"

fun apply_effect :: "effect \<Rightarrow> registry \<Rightarrow> registry" where
  "apply_effect NoEffect g = g"
| "apply_effect (StoreCert c) g = g\<lparr>reg_certs := (reg_certs g)(certId c \<mapsto> c)\<rparr>"
| "apply_effect (StoreFile i b) g = g\<lparr>reg_files := (reg_files g)(i \<mapsto> b)\<rparr>"

definition abs_registry :: "ledger \<Rightarrow> registry" where
  "abs_registry l = \<lparr>reg_certs = abs_certs l, reg_files = abs_files l\<rparr>"

lemma abs_put_cert:
  "cert_ok c \<Longrightarrow> abs_registry (put (cert_key (certId c)) (marshal_cert c) l)
     = apply_effect (StoreCert c) (abs_registry l)"
  by (auto simp: abs_registry_def abs_certs_def abs_files_def cert_roundtrip fun_eq_iff)

lemma abs_put_file:
  "abs_registry (put (file_key i) b l) = apply_effect (StoreFile i b) (abs_registry l)"
  by (auto simp: abs_registry_def abs_certs_def abs_files_def fun_eq_iff)

text \<open>What each post does to the ledger, branch by branch.\<close>

lemma transact_post_cert:
  "transact p [''postCertificate'', body] l =
     (case unmarshal_cert body of
        (c, Some e) \<Rightarrow> (Ret (Failure e), l)
      | (c, None) \<Rightarrow>
          (case validateCompositeKeyAttribute (certId c) of
             Some e \<Rightarrow> (Ret (Failure e), l)
           | None \<Rightarrow>
               (if \<not> knows_prc p then (Panic ''time: missing Location in call to Time.In'', l)
                else (case refuse_put p (cert_key (certId c)) of
                  Some e \<Rightarrow> (Ret (Failure e), l)
                | None \<Rightarrow>
                    (Ret (Success []),
                     put (cert_key (certId c)) (marshal_cert (c\<lparr>updateDate := format_prc (unix_now p)\<rparr>)) l)))))"
  by (simp add: transact_def postCertificate_cc_def create_cert_key PutState_def SetEvent_def new_stub_def
      Let_def split: option.splits prod.splits)

lemma transact_post_file:
  "transact p [''postUploadFile'', body] l =
     (case unmarshal_cc_file body of
        (fs, Some e) \<Rightarrow> (Ret (Failure e), l)
      | (fs, None) \<Rightarrow>
          (case validateCompositeKeyAttribute (cf_certId fs) of
             Some e \<Rightarrow> (Ret (Failure e), l)
           | None \<Rightarrow>
               (case refuse_put p (file_key (cf_certId fs)) of
                  Some e \<Rightarrow> (Ret (Failure e), l)
                | None \<Rightarrow> (Ret (Success []), put (file_key (cf_certId fs)) body l))))"
  by (simp add: transact_def postUploadFile_cc_def create_file_key PutState_def SetEvent_def new_stub_def
      split: option.splits prod.splits)

lemma transact_get_cert:
  "id_ok i \<Longrightarrow> refuse_get p (cert_key i) = None \<Longrightarrow>
     transact p [''getCertificate'', i] l =
       (Ret (Success (case map_of l (cert_key i) of None \<Rightarrow> [] | Some v \<Rightarrow> v)), l)"
  by (simp add: transact_def getCertificate_cc_def create_cert_key GetState_def new_stub_def id_ok_def
      split: option.splits)

lemma transact_get_file:
  "id_ok i \<Longrightarrow> refuse_get p (file_key i) = None \<Longrightarrow>
     transact p [''getDownloadFile'', i] l =
       (Ret (Success (case map_of l (file_key i) of None \<Rightarrow> [] | Some v \<Rightarrow> v)), l)"
  by (simp add: transact_def getDownloadFile_cc_def create_file_key GetState_def new_stub_def id_ok_def
      split: option.splits)

text \<open>Any other invocation leaves the ledger as it was.\<close>

lemma transact_other:
  assumes "\<And>body. allargs \<noteq> [''postCertificate'', body]" "\<And>body. allargs \<noteq> [''postUploadFile'', body]"
  shows "snd (transact p allargs l) = l"
proof -
  obtain r s' where i: "Invoke p allargs (new_stub l) = (r, s')" by (cases "Invoke p allargs (new_stub l)") auto
  then have "write_set s' = []"
  proof (cases rule: Invoke_cases)
    case (1 args)
    with assms(1) have "\<And>body. args \<noteq> [body]" by simp
    with 1 show ?thesis
      by (auto simp: postCertificate_cc_def new_stub_def split: list.splits)
  next
    case (2 args)
    with assms(2) have "\<And>body. args \<noteq> [body]" by simp
    with 2 show ?thesis
      by (auto simp: postUploadFile_cc_def new_stub_def split: list.splits)
  qed (simp add: new_stub_def)
  with i show ?thesis by (auto simp: transact_def split: outcome.splits response.splits)
qed

lemma effect_other:
  assumes "\<And>body. allargs \<noteq> [''postCertificate'', body]" "\<And>body. allargs \<noteq> [''postUploadFile'', body]"
  shows "effect_of p allargs = NoEffect"
  using assms by (auto simp: effect_of_def split: list.splits)

lemma length_transact: "length l \<le> length (snd (transact p args l)) \<and> length (snd (transact p args l)) \<le> Suc (length l)"
proof -
  consider body where "args = [''postCertificate'', body]" | body where "args = [''postUploadFile'', body]"
    | "\<And>body. args \<noteq> [''postCertificate'', body]" "\<And>body. args \<noteq> [''postUploadFile'', body]"
    by blast
  then show ?thesis
    by cases (simp_all add: transact_post_cert transact_post_file transact_other length_put Let_def split: prod.split option.split)
qed

lemma transact_abs:
  "abs_registry (snd (transact p allargs l)) = apply_effect (effect_of p allargs) (abs_registry l)"
proof -
  consider body where "allargs = [''postCertificate'', body]"
    | body where "allargs = [''postUploadFile'', body]"
    | "\<And>body. allargs \<noteq> [''postCertificate'', body]" "\<And>body. allargs \<noteq> [''postUploadFile'', body]"
    by blast
  then show ?thesis
  proof cases
    case (1 body)
    obtain c e where u: "unmarshal_cert body = (c, e)" by (cases "unmarshal_cert body") auto
    then have "cert_ok (c\<lparr>updateDate := format_prc (unix_now p)\<rparr>)"
      using unmarshal_cert_ok [of body] by simp
    from abs_put_cert [OF this, of l] show ?thesis
      using u by (simp add: 1 effect_of_def transact_post_cert id_ok_def split: option.splits)
  next
    case (2 body)
    then show ?thesis
      by (simp add: effect_of_def transact_post_file id_ok_def abs_put_file split: option.splits prod.splits)
  next
    case 3
    then show ?thesis using transact_other [of allargs p l] effect_other [of allargs p] by simp
  qed
qed

section \<open>Histories\<close>

text \<open>The ledger a sequence of invocations, each with its peer, builds from the empty one.\<close>

definition run_history :: "(peer \<times> string list) list \<Rightarrow> ledger" where
  "run_history txs = fold (\<lambda>(p, allargs) l. snd (transact p allargs l)) txs []"

definition run_registry :: "(peer \<times> string list) list \<Rightarrow> registry" where
  "run_registry txs =
     fold (\<lambda>(p, allargs). apply_effect (effect_of p allargs)) txs
       \<lparr>reg_certs = Map.empty, reg_files = Map.empty\<rparr>"

lemma fold_transact_ok: "ledger_ok l \<Longrightarrow> ledger_ok (fold (\<lambda>(p, allargs) l. snd (transact p allargs l)) txs l)"
  by (induction txs arbitrary: l) (auto simp: transact_ok)

lemma fold_transact_abs:
  "abs_registry (fold (\<lambda>(p, allargs) l. snd (transact p allargs l)) txs l)
     = fold (\<lambda>(p, allargs). apply_effect (effect_of p allargs)) txs (abs_registry l)"
  by (induction txs arbitrary: l) (auto simp: transact_abs)

lemma abs_registry_Nil: "abs_registry [] = \<lparr>reg_certs = Map.empty, reg_files = Map.empty\<rparr>"
  by (simp add: abs_registry_def abs_certs_def abs_files_def fun_eq_iff)

lemma run_history_ok: "ledger_ok (run_history txs)"
  unfolding run_history_def by (rule fold_transact_ok) simp

lemma run_history_abs: "abs_registry (run_history txs) = run_registry txs"
  unfolding run_history_def run_registry_def fold_transact_abs abs_registry_Nil ..

lemma read_cert:
  "ledger_ok l \<Longrightarrow> (case map_of l (cert_key i) of None \<Rightarrow> [] | Some v \<Rightarrow> v)
     = (case abs_certs l i of None \<Rightarrow> [] | Some c \<Rightarrow> marshal_cert c)"
  by (cases "map_of l (cert_key i)") (auto simp: abs_certs_def elim: stored_cert)

text \<open>
  C24: Whatever invocations a ledger has seen, its keys are distinct and each entry is either
  a certificate, marshalled, dated by the chaincode and filed under its own identifier, or a
  file record filed under the identifier it names.
\<close>

theorem chaincode_keeps_ledger: "ledger_ok (run_history txs)"
  by (rule run_history_ok)

text \<open>
  C9: Refinement. The ledger a sequence of invocations builds represents the two maps that
  the abstract contract builds: a post of a decodable certificate or file with an acceptable
  identifier replaces the entry of that identifier and no other, everything else changes
  nothing.
\<close>

theorem chaincode_refines_registry: "abs_registry (run_history txs) = run_registry txs"
  by (rule run_history_abs)

text \<open>
  C29: Reading back. After any sequence of invocations getCertificate returns, for an acceptable
  identifier the peer does not refuse, the certificate last posted under it, marshalled,
  and the empty value when there was none; the error branches are those of the key and the
  peer, and reading changes nothing.
\<close>

theorem getCertificate_reads_last_post:
  "transact p [''getCertificate'', i] (run_history txs) =
     (Ret (case validateCompositeKeyAttribute i of
         Some e \<Rightarrow> Failure e
       | None \<Rightarrow>
           (case refuse_get p (cert_key i) of
              Some e \<Rightarrow> Failure e
            | None \<Rightarrow>
                Success (case reg_certs (run_registry txs) i of None \<Rightarrow> [] | Some c \<Rightarrow> marshal_cert c))),
      run_history txs)"
proof -
  have "reg_certs (run_registry txs) i = abs_certs (run_history txs) i"
    by (simp flip: run_history_abs add: abs_registry_def)
  then show ?thesis
    using read_cert [OF run_history_ok, of txs i]
    by (simp add: transact_def getCertificate_cc_def create_cert_key GetState_def new_stub_def
        split: option.splits)
qed

text \<open>
  C30: The chaincode panics in two situations only: queryList is invoked with fewer than
  three arguments (it prints them before it counts them), or a valid certificate is posted
  on a peer whose time zone data base lacks PRC.
\<close>

theorem chaincode_panics_iff:
  "is_panic (fst (Invoke p allargs s)) \<longleftrightarrow>
     (\<exists>args. allargs = ''queryList'' # args \<and> length args < 3)
     \<or> (\<exists>body c. allargs = [''postCertificate'', body] \<and> unmarshal_cert body = (c, None)
          \<and> id_ok (certId c) \<and> \<not> knows_prc p)"
proof -
  have post: "is_panic (fst (postCertificate_cc p args s)) \<longleftrightarrow>
      (\<exists>body c. args = [body] \<and> unmarshal_cert body = (c, None) \<and> id_ok (certId c) \<and> \<not> knows_prc p)" for args
    by (auto simp: postCertificate_cc_def create_cert_key id_ok_def Let_def
        split: list.splits option.splits prod.splits)
  have query: "is_panic (fst (queryList p args s)) \<longleftrightarrow> length args < 3" for args
    by (simp add: queryList_def split: option.splits sum.splits)
  have rest: "\<not> is_panic (fst (getCertificate_cc p args s))" "\<not> is_panic (fst (getDownloadFile_cc p args s))"
      "\<not> is_panic (fst (postUploadFile_cc p args s))" for args
    by (auto simp: getCertificate_cc_def getDownloadFile_cc_def postUploadFile_cc_def
        split: list.splits sum.splits option.splits prod.splits)
  show ?thesis
    by (cases allargs) (auto simp: Invoke_def GetFunctionAndParameters_def post query rest)
qed

end
