(* ===== verification/Fabric.thy ===== *)
theory Fabric
  imports Chaincode
begin

text \<open>
  The Fabric client of the application, app/fabricClient: the fields of \<open>FabricSetup\<close> with
  the handles of the Fabric SDK it keeps, \<open>Query\<close> (query.go) and \<open>Execute\<close> (execute.go).
  The SDK is a parameter: a handle is a record of the calls the code makes on it, over a
  state \<open>'w\<close> of the outside world, and a nil handle is \<open>None\<close>. The locale
  \<open>fabric_network\<close> states what the SDK documents, \<open>ledger_client\<close> what the business code
  relies on; the second follows from the first, and a single-peer network that runs the
  chaincode of theory Chaincode provides both.
\<close>

section \<open>The handles and the setup\<close>

record 'w channel_client =
  ch_Query :: "string \<Rightarrow> string \<Rightarrow> string list \<Rightarrow> 'w \<Rightarrow> (error + bytes) \<times> 'w"
  ch_Execute :: "string \<Rightarrow> string \<Rightarrow> string list \<Rightarrow> (string \<times> bytes) list \<Rightarrow> 'w \<Rightarrow> (error + string) \<times> 'w"

text \<open>Waiting on a registration answers whether its event came within thirty seconds.\<close>

record 'w event_client =
  ev_Register :: "string \<Rightarrow> string \<Rightarrow> 'w \<Rightarrow> (error + nat) \<times> 'w"
  ev_Unregister :: "nat \<Rightarrow> 'w \<Rightarrow> 'w"
  ev_Wait :: "nat \<Rightarrow> 'w \<Rightarrow> bool \<times> 'w"

text \<open>
  The lists of strings given to instantiate and upgrade are the arguments, the organisations
  whose members may endorse, and for the upgrade the peers.
\<close>

record 'w resmgmt_client =
  rm_SaveChannel :: "string \<Rightarrow> string \<Rightarrow> string \<Rightarrow> string \<Rightarrow> 'w \<Rightarrow> (error + string) \<times> 'w"
  rm_JoinChannel :: "string \<Rightarrow> string \<Rightarrow> 'w \<Rightarrow> error option \<times> 'w"
  rm_InstallCC :: "string \<Rightarrow> string \<Rightarrow> string \<Rightarrow> bytes \<Rightarrow> 'w \<Rightarrow> error option \<times> 'w"
  rm_InstantiateCC :: "string \<Rightarrow> string \<Rightarrow> string \<Rightarrow> string \<Rightarrow> string list \<Rightarrow> string list \<Rightarrow> 'w \<Rightarrow> (error + string) \<times> 'w"
  rm_UpgradeCC :: "string \<Rightarrow> string \<Rightarrow> string \<Rightarrow> string \<Rightarrow> string list \<Rightarrow> string list \<Rightarrow> string list \<Rightarrow> 'w \<Rightarrow> (error + string) \<times> 'w"
  rm_QueryChannels :: "string \<Rightarrow> 'w \<Rightarrow> (error + string list) \<times> 'w"

text \<open>What the configuration says of an organisation is its list of peers.\<close>

type_synonym config_backend = "error + (string \<times> string list) list"

record 'w sdk_handle =
  sd_resmgmt :: "string \<Rightarrow> string \<Rightarrow> 'w \<Rightarrow> (error + 'w resmgmt_client) \<times> 'w"
  sd_msp :: "string \<Rightarrow> 'w \<Rightarrow> (error + (string \<Rightarrow> error + string)) \<times> 'w"
  sd_Config :: "error + config_backend"
  sd_channel :: "string \<Rightarrow> string \<Rightarrow> 'w \<Rightarrow> (error + 'w channel_client) \<times> 'w"
  sd_event :: "string \<Rightarrow> string \<Rightarrow> 'w \<Rightarrow> (error + 'w event_client) \<times> 'w"
  sd_Close :: "'w \<Rightarrow> 'w"

record 'w fabric_setup =
  ConfigFile :: string
  OrgID :: string
  OrdererID :: string
  ChannelID :: string
  ChainCodeID :: string
  initialized :: bool
  ChannelConfig :: string
  ChaincodeGoPath :: string
  ChaincodePath :: string
  OrgAdmin :: string
  OrgName :: string
  UserName :: string
  client :: "'w channel_client option"
  admin :: "'w resmgmt_client option"
  sdk :: "'w sdk_handle option"
  event :: "'w event_client option"

section \<open>Query and Execute\<close>

definition Query :: "'w fabric_setup \<Rightarrow> string \<Rightarrow> string list \<Rightarrow> 'w \<Rightarrow> (error + string) outcome \<times> 'w" where
  "Query setup methodName args w =
     (case client setup of
        None \<Rightarrow> (Panic nil_dereference, w)
      | Some c \<Rightarrow>
          (case ch_Query c (ChainCodeID setup) methodName args w of
             (Inl e, w1) \<Rightarrow> (Ret (Inl (ErrWrap ''failed to query :'' e)), w1)
           | (Inr payload, w1) \<Rightarrow> (Ret (Inr payload), w1)))"

definition transient_data :: "(string \<times> bytes) list" where
  "transient_data = [(''result'', ''Transient data in mot cert execute ...'')]"

text \<open>The registration is taken back on every way out, a panic included.\<close>

definition Execute ::
    "'w fabric_setup \<Rightarrow> string \<Rightarrow> string \<Rightarrow> string list \<Rightarrow> 'w \<Rightarrow> (error + string) outcome \<times> 'w" where
  "Execute setup eventID methodName args w =
     (case event setup of
        None \<Rightarrow> (Panic nil_dereference, w)
      | Some ev \<Rightarrow>
          (case ev_Register ev (ChainCodeID setup) eventID w of
             (Inl e, w1) \<Rightarrow> (Ret (Inl e), w1)
           | (Inr reg, w1) \<Rightarrow>
               (case client setup of
                  None \<Rightarrow> (Panic nil_dereference, ev_Unregister ev reg w1)
                | Some c \<Rightarrow>
                    (case ch_Execute c (ChainCodeID setup) methodName args transient_data w1 of
                       (Inl e, w2) \<Rightarrow>
                         (Ret (Inl (ErrWrap ''failed to execute: '' e)), ev_Unregister ev reg w2)
                     | (Inr txid, w2) \<Rightarrow>
                         (case ev_Wait ev reg w2 of
                            (True, w3) \<Rightarrow> (Ret (Inr txid), ev_Unregister ev reg w3)
                          | (False, w3) \<Rightarrow>
                              (Ret (Inl (ErrText (''did NOT receive CC event for eventId('' @ eventID @ '')''))),
                               ev_Unregister ev reg w3))))))"

section \<open>What the business code relies on\<close>

text \<open>
  \<open>ledger_of\<close> is the ledger in the state of the outside world. A query is answered by the
  chaincode on that ledger and leaves it alone; an execution that returns has committed the
  chaincode's writes, one that reports an error may or may not have.
\<close>

locale ledger_client =
  fixes fab :: "'w fabric_setup"
    and ledger_of :: "'w \<Rightarrow> ledger"
  assumes query_returns: "\<not> is_panic (fst (Query fab f args w))"
    and query_keeps: "ledger_of (snd (Query fab f args w)) = ledger_of w"
    and query_answer: "Query fab f args w = (Ret (Inr payload), w') \<Longrightarrow>
          \<exists>p. fst (transact p (f # args) (ledger_of w)) = Ret (Success payload)"
    and execute_returns: "\<not> is_panic (fst (Execute fab ev f args w))"
    and execute_done: "Execute fab ev f args w = (Ret (Inr txid), w') \<Longrightarrow>
          \<exists>p r. transact p (f # args) (ledger_of w) = (Ret (Success r), ledger_of w')"
    and execute_failed: "Execute fab ev f args w = (Ret (Inl e), w') \<Longrightarrow>
          ledger_of w' = ledger_of w \<or> (\<exists>p. ledger_of w' = snd (transact p (f # args) (ledger_of w)))"
begin

lemma query_cases:
  obtains (ok) payload w' where "Query fab f args w = (Ret (Inr payload), w')" "ledger_of w' = ledger_of w"
  | (err) e w' where "Query fab f args w = (Ret (Inl e), w')" "ledger_of w' = ledger_of w"
proof -
  obtain r w' where q: "Query fab f args w = (r, w')" by (cases "Query fab f args w") auto
  then have l: "ledger_of w' = ledger_of w" using query_keeps [of f args w] by simp
  show thesis
  proof (cases r)
    case (Ret a)
    with q l that show thesis by (cases a) auto
  next
    case (Panic m)
    with q query_returns [of f args w] show thesis by simp
  qed
qed

lemma execute_cases:
  obtains (ok) txid w' p r where "Execute fab ev f args w = (Ret (Inr txid), w')"
    "transact p (f # args) (ledger_of w) = (Ret (Success r), ledger_of w')"
  | (err) e w' where "Execute fab ev f args w = (Ret (Inl e), w')"
    "ledger_of w' = ledger_of w \<or> (\<exists>p. ledger_of w' = snd (transact p (f # args) (ledger_of w)))"
proof -
  obtain r w' where x: "Execute fab ev f args w = (r, w')" by (cases "Execute fab ev f args w") auto
  show thesis
  proof (cases r)
    case (Ret a)
    show thesis
    proof (cases a)
      case (Inl e)
      with x Ret execute_failed that(2) show thesis by blast
    next
      case (Inr txid)
      with x Ret execute_done [of ev f args w txid w'] that(1) show thesis by auto
    qed
  next
    case (Panic m)
    with x execute_returns [of ev f args w] show thesis by simp
  qed
qed

lemma query_invariant: "ledger_ok (ledger_of w) \<Longrightarrow> ledger_ok (ledger_of (snd (Query fab f args w)))"
  by (simp add: query_keeps)

lemma execute_invariant:
  assumes "ledger_ok (ledger_of w)"
  shows "ledger_ok (ledger_of (snd (Execute fab ev f args w)))"
proof (cases rule: execute_cases [of ev f args w])
  case (ok txid w' p r)
  then show ?thesis using transact_ok [OF assms, of p "f # args"] by simp
next
  case (err e w')
  then show ?thesis using transact_ok [OF assms] assms by auto
qed

text \<open>What the two reads of the contract answer on an acceptable ledger.\<close>

lemma query_cert:
  assumes "Query fab ''getCertificate'' [i] w = (Ret (Inr payload), w')" "ledger_ok (ledger_of w)"
  shows "payload = (case abs_certs (ledger_of w) i of None \<Rightarrow> [] | Some c \<Rightarrow> marshal_cert c)"
proof -
  obtain p where "fst (transact p [''getCertificate'', i] (ledger_of w)) = Ret (Success payload)"
    using query_answer [OF assms(1)] by auto
  then have "payload = (case map_of (ledger_of w) (cert_key i) of None \<Rightarrow> [] | Some v \<Rightarrow> v)"
    by (auto simp: transact_def getCertificate_cc_def create_cert_key GetState_def new_stub_def
        split: option.splits)
  with read_cert [OF assms(2)] show ?thesis by simp
qed

lemma query_file:
  assumes "Query fab ''getDownloadFile'' [i] w = (Ret (Inr payload), w')"
  shows "payload = (case abs_files (ledger_of w) i of None \<Rightarrow> [] | Some v \<Rightarrow> v)"
proof -
  obtain p where "fst (transact p [''getDownloadFile'', i] (ledger_of w)) = Ret (Success payload)"
    using query_answer [OF assms] by auto
  then show ?thesis
    by (auto simp: transact_def getDownloadFile_cc_def create_file_key GetState_def new_stub_def abs_files_def
        split: option.splits)
qed

end

section \<open>What the SDK promises\<close>

text \<open>
  The channel client answers a query with the chaincode's response on the ledger and fails
  when the chaincode does; an execution that gives a transaction identifier has been
  endorsed and committed. Registering, unregistering and waiting do not touch the ledger.
\<close>

locale fabric_network =
  fixes fab :: "'w fabric_setup"
    and c :: "'w channel_client"
    and ev :: "'w event_client"
    and ledger_of :: "'w \<Rightarrow> ledger"
  assumes has_client: "client fab = Some c"
    and has_event: "event fab = Some ev"
    and ch_query_keeps: "ledger_of (snd (ch_Query c cc f args w)) = ledger_of w"
    and ch_query_answer: "ch_Query c (ChainCodeID fab) f args w = (Inr payload, w') \<Longrightarrow>
          \<exists>p. fst (transact p (f # args) (ledger_of w)) = Ret (Success payload)"
    and ch_execute_done: "ch_Execute c (ChainCodeID fab) f args td w = (Inr txid, w') \<Longrightarrow>
          \<exists>p r. transact p (f # args) (ledger_of w) = (Ret (Success r), ledger_of w')"
    and ch_execute_failed: "ch_Execute c (ChainCodeID fab) f args td w = (Inl e, w') \<Longrightarrow>
          ledger_of w' = ledger_of w \<or> (\<exists>p. ledger_of w' = snd (transact p (f # args) (ledger_of w)))"
    and ev_register_keeps: "ledger_of (snd (ev_Register ev cc flt w)) = ledger_of w"
    and ev_unregister_keeps: "ledger_of (ev_Unregister ev reg w) = ledger_of w"
    and ev_wait_keeps: "ledger_of (snd (ev_Wait ev reg w)) = ledger_of w"
begin

lemma register_keeps: "ev_Register ev cc flt w = (r, w') \<Longrightarrow> ledger_of w' = ledger_of w"
  using ev_register_keeps [of cc flt w] by simp

lemma wait_keeps: "ev_Wait ev reg w = (r, w') \<Longrightarrow> ledger_of w' = ledger_of w"
  using ev_wait_keeps [of reg w] by simp

lemmas keeps = register_keeps wait_keeps ev_unregister_keeps

lemma Execute_done:
  "Execute fab evt f args w = (Ret (Inr txid), w') \<Longrightarrow>
     \<exists>p r. transact p (f # args) (ledger_of w) = (Ret (Success r), ledger_of w')"
  by (auto simp: Execute_def has_client has_event keeps dest!: ch_execute_done
      split: prod.splits sum.splits bool.splits; auto dest!: keeps(1,2))

lemma Execute_failed:
  "Execute fab evt f args w = (Ret (Inl e), w') \<Longrightarrow>
     ledger_of w' = ledger_of w \<or> (\<exists>p. ledger_of w' = snd (transact p (f # args) (ledger_of w)))"
  by (auto simp: Execute_def has_client has_event keeps
      split: prod.splits sum.splits bool.splits
      dest: keeps(1,2) dest!: ch_execute_done ch_execute_failed; (metis keeps(1,2) snd_conv)?)

end

sublocale fabric_network \<subseteq> ledger_client fab ledger_of
proof
  show "\<not> is_panic (fst (Query fab f args w))" for f args w
    by (simp add: Query_def has_client split: prod.splits sum.splits)
  show "ledger_of (snd (Query fab f args w)) = ledger_of w" for f args w
    using ch_query_keeps [of "ChainCodeID fab" f args w]
    by (auto simp: Query_def has_client split: prod.splits sum.splits)
  show "\<not> is_panic (fst (Execute fab evt f args w))" for evt f args w
    by (simp add: Execute_def has_client has_event split: prod.splits sum.splits bool.splits)
qed (use ch_query_answer Execute_done Execute_failed in
  \<open>auto simp: Query_def has_client split: prod.splits sum.splits\<close>)

section \<open>A network that keeps the promises\<close>

text \<open>
  One channel, whose requests are served one after another. The environment says of the
  n-th request which peer answers it, with its clock and refusals, and whether it is
  served, refused or served with its reply lost; and which event filters are legal
  and what they match. A committed transaction emits the event its stub has set.
\<close>

datatype fate = Served | Refused | Lost

record environment =
  env_peer :: "nat \<Rightarrow> peer"
  env_fate :: "nat \<Rightarrow> fate"
  env_filter_ok :: "string \<Rightarrow> bool"
  env_matches :: "string \<Rightarrow> string \<Rightarrow> bool"

record network =
  net_ledger :: ledger
  net_tick :: nat
  net_events :: "string list"
  net_regs :: "(nat \<times> string \<times> nat) list"

definition lost_reply :: error where
  "lost_reply = ErrText ''no response from the peer''"

definition net_query :: "environment \<Rightarrow> string \<Rightarrow> string list \<Rightarrow> network \<Rightarrow> (error + bytes) \<times> network" where
  "net_query env f args n =
     (let p = env_peer env (net_tick n); n1 = n\<lparr>net_tick := net_tick n + 1\<rparr>
      in if env_fate env (net_tick n) \<noteq> Served then (Inl lost_reply, n1)
         else (case fst (transact p (f # args) (net_ledger n)) of
             Ret (Success payload) \<Rightarrow> (Inr payload, n1)
           | Ret (Failure e) \<Rightarrow> (Inl e, n1)
           | Panic m \<Rightarrow> (Inl (ErrText m), n1)))"

definition emitted :: "stub \<Rightarrow> string list" where
  "emitted s = (case cc_event s of None \<Rightarrow> [] | Some (name, payload) \<Rightarrow> [name])"

definition net_execute :: "environment \<Rightarrow> string \<Rightarrow> string list \<Rightarrow> network \<Rightarrow> (error + string) \<times> network" where
  "net_execute env f args n =
     (let p = env_peer env (net_tick n); n1 = n\<lparr>net_tick := net_tick n + 1\<rparr>
      in if env_fate env (net_tick n) = Refused then (Inl lost_reply, n1)
         else (case transact p (f # args) (net_ledger n) of
             (Ret (Success r), l) \<Rightarrow>
               (let n2 = n1\<lparr>net_ledger := l,
                            net_events := net_events n @ emitted (snd (Invoke p (f # args) (new_stub (net_ledger n))))\<rparr>
                in if env_fate env (net_tick n) = Lost then (Inl lost_reply, n2)
                   else (Inr (''tx'' @ itoa (int (net_tick n))), n2))
           | (Ret (Failure e), l) \<Rightarrow> (Inl e, n1)
           | (Panic m, l) \<Rightarrow> (Inl (ErrText m), n1)))"

definition net_register :: "environment \<Rightarrow> string \<Rightarrow> network \<Rightarrow> (error + nat) \<times> network" where
  "net_register env flt n =
     (if env_filter_ok env flt
      then (Inr (net_tick n),
            n\<lparr>net_tick := net_tick n + 1,
              net_regs := (net_tick n, flt, length (net_events n)) # net_regs n\<rparr>)
      else (Inl (ErrText ''invalid event filter''), n))"

definition net_unregister :: "nat \<Rightarrow> network \<Rightarrow> network" where
  "net_unregister reg n = n\<lparr>net_regs := filter (\<lambda>r. fst r \<noteq> reg) (net_regs n)\<rparr>"

definition net_wait :: "environment \<Rightarrow> nat \<Rightarrow> network \<Rightarrow> bool \<times> network" where
  "net_wait env reg n =
     (case map_of (net_regs n) reg of
        None \<Rightarrow> (False, n)
      | Some (flt, seen) \<Rightarrow> (list_ex (env_matches env flt) (drop seen (net_events n)), n))"

definition net_channel :: "environment \<Rightarrow> network channel_client" where
  "net_channel env = \<lparr>ch_Query = \<lambda>cc. net_query env, ch_Execute = \<lambda>cc f args td. net_execute env f args\<rparr>"

definition net_event_client :: "environment \<Rightarrow> network event_client" where
  "net_event_client env =
     \<lparr>ev_Register = \<lambda>cc. net_register env, ev_Unregister = net_unregister, ev_Wait = net_wait env\<rparr>"

text \<open>The setup as server.go fills it in, connected to the network.\<close>

definition blank_setup :: "'w fabric_setup" where
  "blank_setup =
     \<lparr>ConfigFile = '''', OrgID = '''', OrdererID = '''', ChannelID = '''', ChainCodeID = '''',
      initialized = False, ChannelConfig = '''', ChaincodeGoPath = '''', ChaincodePath = '''',
      OrgAdmin = '''', OrgName = '''', UserName = '''', client = None, admin = None, sdk = None,
      event = None\<rparr>"

definition connected :: "environment \<Rightarrow> network fabric_setup" where
  "connected env = blank_setup\<lparr>ChainCodeID := ''motcert'', client := Some (net_channel env),
     event := Some (net_event_client env)\<rparr>"

lemma net_query_ledger: "net_ledger (snd (net_query env f args n)) = net_ledger n"
  by (simp add: net_query_def Let_def split: outcome.splits response.splits)

lemma net_execute_done:
  "net_execute env f args n = (Inr txid, n') \<Longrightarrow>
     \<exists>p r. transact p (f # args) (net_ledger n) = (Ret (Success r), net_ledger n')"
  by (auto simp: net_execute_def Let_def split: if_splits prod.splits outcome.splits response.splits) blast

lemma net_execute_failed:
  "net_execute env f args n = (Inl e, n') \<Longrightarrow>
     net_ledger n' = net_ledger n \<or> (\<exists>p. net_ledger n' = snd (transact p (f # args) (net_ledger n)))"
  by (auto simp: net_execute_def Let_def split: if_splits prod.splits outcome.splits response.splits)
     (metis snd_conv)

interpretation net: fabric_network "connected env" "net_channel env" "net_event_client env" net_ledger
  for env
proof
  show "\<exists>p. fst (transact p (f # args) (net_ledger w)) = Ret (Success payload)"
    if "ch_Query (net_channel env) (ChainCodeID (connected env)) f args w = (Inr payload, w')"
    for f args w payload w'
    using that
    by (auto simp: net_channel_def net_query_def Let_def split: if_splits outcome.splits response.splits)
qed (auto simp: connected_def net_channel_def net_event_client_def net_query_ledger net_register_def
    net_unregister_def net_wait_def split: option.splits dest: net_execute_done net_execute_failed)

subsection \<open>A healthy network\<close>

text \<open>
  Nothing is lost or refused, the peers know the PRC zone, and a filter made of letters,
  digits and the characters -, _, . and ~ is a legal expression that matches itself.
\<close>

definition plain_text :: "string \<Rightarrow> bool" where
  "plain_text s \<longleftrightarrow> list_all unreserved s"

definition peer_ok :: "peer \<Rightarrow> bool" where
  "peer_ok p \<longleftrightarrow> (\<forall>k. refuse_get p k = None \<and> refuse_put p k = None) \<and> knows_prc p"

definition healthy :: "environment \<Rightarrow> bool" where
  "healthy env \<longleftrightarrow>
     (\<forall>t. env_fate env t = Served \<and> peer_ok (env_peer env t))
     \<and> (\<forall>flt. plain_text flt \<longrightarrow> env_filter_ok env flt \<and> env_matches env flt flt)"

lemma plain_text_simps [simp]:
  "plain_text []" "plain_text (c # s) \<longleftrightarrow> unreserved c \<and> plain_text s"
  "plain_text (s @ t) \<longleftrightarrow> plain_text s \<and> plain_text t"
  by (simp_all add: plain_text_def)

lemma healthy_query:
  "healthy env \<Longrightarrow>
     Query (connected env) f args n =
       (case fst (transact (env_peer env (net_tick n)) (f # args) (net_ledger n)) of
          Ret (Success payload) \<Rightarrow> (Ret (Inr payload), n\<lparr>net_tick := net_tick n + 1\<rparr>)
        | Ret (Failure e) \<Rightarrow> (Ret (Inl (ErrWrap ''failed to query :'' e)), n\<lparr>net_tick := net_tick n + 1\<rparr>)
        | Panic m \<Rightarrow> (Ret (Inl (ErrWrap ''failed to query :'' (ErrText m))), n\<lparr>net_tick := net_tick n + 1\<rparr>))"
  by (simp add: Query_def connected_def net_channel_def net_query_def healthy_def Let_def
      split: outcome.splits response.splits)

lemma healthy_query_cert:
  "healthy env \<Longrightarrow> id_ok i \<Longrightarrow>
     Query (connected env) ''getCertificate'' [i] n =
       (Ret (Inr (case map_of (net_ledger n) (cert_key i) of None \<Rightarrow> [] | Some v \<Rightarrow> v)),
        n\<lparr>net_tick := net_tick n + 1\<rparr>)"
  by (subst healthy_query, assumption)
     (simp add: healthy_def peer_ok_def transact_get_cert)

lemma healthy_query_file:
  "healthy env \<Longrightarrow> id_ok i \<Longrightarrow>
     Query (connected env) ''getDownloadFile'' [i] n =
       (Ret (Inr (case map_of (net_ledger n) (file_key i) of None \<Rightarrow> [] | Some v \<Rightarrow> v)),
        n\<lparr>net_tick := net_tick n + 1\<rparr>)"
  by (subst healthy_query, assumption)
     (simp add: healthy_def peer_ok_def transact_get_file)

text \<open>An execution whose chaincode emits the event that was registered for succeeds.\<close>

lemma healthy_execute:
  assumes "healthy env" "plain_text ev"
    and "\<And>p. peer_ok p \<Longrightarrow> fst (transact p (f # args) (net_ledger n)) = Ret (Success [])"
    and "\<And>p. peer_ok p \<Longrightarrow> emitted (snd (Invoke p (f # args) (new_stub (net_ledger n)))) = [ev]"
  obtains txid n' p where "Execute (connected env) ev f args n = (Ret (Inr txid), n')" "peer_ok p"
    "net_ledger n' = snd (transact p (f # args) (net_ledger n))"
proof -
  let ?p = "env_peer env (Suc (net_tick n))"
  from assms(1) have p: "peer_ok ?p" by (simp add: healthy_def)
  obtain l where l: "transact ?p (f # args) (net_ledger n) = (Ret (Success []), l)"
    using assms(3) [OF p] by (cases "transact ?p (f # args) (net_ledger n)") auto
  have "\<exists>txid n'. Execute (connected env) ev f args n = (Ret (Inr txid), n') \<and> net_ledger n' = l"
    using assms(1,2) l assms(4) [OF p]
    by (simp add: Execute_def connected_def net_event_client_def net_register_def net_channel_def
        net_execute_def net_wait_def net_unregister_def healthy_def Let_def)
  with that [of _ _ ?p] p l show thesis by auto
qed

end
