(* ===== verification/Certificates.thy ===== *)
theory Certificates
  imports Fabric
begin

text \<open>
  The certificate operations of app/business/certificateIO.go: \<open>CertificateIn\<close>,
  \<open>CertificateOut\<close> and \<open>ChangeStatus\<close>. A Go result \<open>(interface{}, error, int)\<close> is the triple
  of the value, if any, the error, if any, and the status code. The lemmas about a ledger are
  proved in the locale \<open>ledger_client\<close>: \<open>app_ok\<close> is the invariant of the service, that an open
  certificate has its file on the ledger.
\<close>

type_synonym 'a reply = "'a option \<times> error option \<times> nat"

section \<open>The operations\<close>

text \<open>
  What the answer to the file query says: whether the certificate has an upload, and the
  value of the variable \<open>err\<close> after the check.
\<close>

definition upload_check :: "error + string \<Rightarrow> bool \<times> error option" where
  "upload_check response =
     (case response of
        Inl e \<Rightarrow> (False, Some e)
      | Inr r \<Rightarrow>
          (if r = [] then (False, None)
           else (case unmarshal_file r of
               (fileStruct, None) \<Rightarrow> (True, None)
             | (fileStruct, Some e) \<Rightarrow> (False, Some e))))"

definition CertificateIn :: "'w fabric_setup \<Rightarrow> string \<Rightarrow> 'w \<Rightarrow> string reply outcome \<times> 'w" where
  "CertificateIn setup body w =
     (case unmarshal_cert body of
        (certificate, Some e) \<Rightarrow> (Ret (None, Some e, 400), w)
      | (certificate, None) \<Rightarrow>
          and_then (Query setup ''getDownloadFile'' [certId certificate] w) (\<lambda>response w1.
            (case upload_check response of
               (upload, err) \<Rightarrow>
                 (let certificate = certificate\<lparr>hasUpload := upload\<rparr>
                  in if isOpen certificate \<and> \<not> hasUpload certificate then (Ret (None, err, 400), w1)
                     else and_then
                       (Execute setup (''postCertificateEvent'' @ certId certificate) ''postCertificate''
                          [marshal_cert certificate] w1)
                       (\<lambda>data w2.
                         (case data of
                            Inl e \<Rightarrow> (Ret (None, Some e, 501), w2)
                          | Inr txid \<Rightarrow> (Ret (Some txid, None, 200), w2)))))))"

text \<open>A map lookup with a missing key gives the zero value.\<close>

definition lookup_param :: "(string \<rightharpoonup> string) \<Rightarrow> string \<Rightarrow> string" where
  "lookup_param m k = (case m k of None \<Rightarrow> [] | Some v \<Rightarrow> v)"

definition slice_panic :: string where
  "slice_panic = ''slice bounds out of range''"

definition CertificateOut ::
    "'w fabric_setup \<Rightarrow> (string \<rightharpoonup> string) \<Rightarrow> 'w \<Rightarrow> certificate reply outcome \<times> 'w" where
  "CertificateOut setup param w =
     and_then (Query setup ''getCertificate'' [lookup_param param ''certId''] w) (\<lambda>response w1.
       (case response of
          Inl e \<Rightarrow> (Ret (None, Some e, 400), w1)
        | Inr r \<Rightarrow>
            (if r = [] then (Ret (None, None, 404), w1)
             else (case unmarshal_cert r of
                 (certificate, err) \<Rightarrow>
                   (if length (updateDate certificate) < 10 then (Panic slice_panic, w1)
                    else
                      (let certificate = certificate\<lparr>updateDate := take 10 (updateDate certificate)\<rparr>
                       in (case err of
                             Some e \<Rightarrow> (Ret (None, Some e, 501), w1)
                           | None \<Rightarrow> (Ret (Some certificate, None, 200), w1))))))))"

text \<open>One round of the loop of \<open>ChangeStatus\<close>; a round that meets an error changes no status.\<close>

definition change_one :: "'w fabric_setup \<Rightarrow> status \<Rightarrow> 'w \<Rightarrow> status outcome \<times> 'w" where
  "change_one setup st w =
     and_then (CertificateOut setup [''certId'' \<mapsto> st_certId st] w) (\<lambda>out w1.
       (case out of
          (cert, Some e, _) \<Rightarrow> (Ret st, w1)
        | (None, None, _) \<Rightarrow> (Ret st, w1)
        | (Some certificate, None, _) \<Rightarrow>
            (let certificate = certificate\<lparr>isDeleted := st_isDeleted st, isOpen := st_isOpen st,
                                            isCompleted := st_isCompleted st\<rparr>
             in and_then (CertificateIn setup (marshal_cert certificate) w1) (\<lambda>res w2.
                  (case res of
                     (_, Some e, _) \<Rightarrow> (Ret st, w2)
                   | (_, None, _) \<Rightarrow> (Ret (st\<lparr>st_isChangedOnChain := True\<rparr>), w2))))))"

fun change_all :: "'w fabric_setup \<Rightarrow> status list \<Rightarrow> 'w \<Rightarrow> status list outcome \<times> 'w" where
  "change_all setup [] w = (Ret [], w)"
| "change_all setup (st # sts) w =
     and_then (change_one setup st w) (\<lambda>st' w1.
       and_then (change_all setup sts w1) (\<lambda>sts' w2. (Ret (st' # sts'), w2)))"

definition ChangeStatus ::
    "'w fabric_setup \<Rightarrow> string \<Rightarrow> 'w \<Rightarrow> status list option reply outcome \<times> 'w" where
  "ChangeStatus setup body w =
     (case unmarshal_statuses body of
        (statuses, Some e) \<Rightarrow> (Ret (None, Some e, 400), w)
      | (None, None) \<Rightarrow> (Ret (Some None, None, 200), w)
      | (Some statuses, None) \<Rightarrow>
          and_then (change_all setup statuses w) (\<lambda>statuses' w1.
            (Ret (Some (Some statuses'), None, 200), w1)))"

section \<open>The invariant of the service\<close>

definition open_ok :: "ledger \<Rightarrow> bool" where
  "open_ok l \<longleftrightarrow> (\<forall>i c. abs_certs l i = Some c \<longrightarrow> isOpen c \<longrightarrow> hasUpload c \<and> abs_files l i \<noteq> None)"

definition app_ok :: "ledger \<Rightarrow> bool" where
  "app_ok l \<longleftrightarrow> ledger_ok l \<and> open_ok l"

lemma app_ok_ledger: "app_ok l \<Longrightarrow> ledger_ok l"
  by (simp add: app_ok_def)

lemma abs_put_certs:
  "cert_ok c \<Longrightarrow> abs_certs (put (cert_key (certId c)) (marshal_cert c) l) = (abs_certs l)(certId c \<mapsto> c)"
  "abs_files (put (cert_key i) v l) = abs_files l"
  using abs_put_cert [of c l] by (auto simp: abs_registry_def abs_files_def fun_eq_iff)

lemma abs_put_files:
  "abs_files (put (file_key i) b l) = (abs_files l)(i \<mapsto> b)"
  "abs_certs (put (file_key i) b l) = abs_certs l"
  using abs_put_file [of i b l] by (auto simp: abs_registry_def)

text \<open>Posting a marshalled certificate writes it, dated, or nothing.\<close>

lemma post_marshalled:
  assumes "cert_ok c"
  obtains "snd (transact p [''postCertificate'', marshal_cert c] l) = l"
    "\<And>r. fst (transact p [''postCertificate'', marshal_cert c] l) \<noteq> Ret (Success r)"
  | t where "id_ok (certId c)"
    "transact p [''postCertificate'', marshal_cert c] l
       = (Ret (Success []), put (cert_key (certId c)) (marshal_cert (c\<lparr>updateDate := format_prc t\<rparr>)) l)"
proof (cases "id_ok (certId c) \<and> knows_prc p \<and> refuse_put p (cert_key (certId c)) = None")
  case True
  show thesis
    by (rule that(2) [of "unix_now p"])
       (use True in \<open>simp_all add: transact_post_cert cert_roundtrip [OF assms] id_ok_def\<close>)
next
  case False
  show thesis
    by (rule that(1))
       (use False in \<open>auto simp: transact_post_cert cert_roundtrip [OF assms] id_ok_def
          split: option.splits\<close>)
qed

lemma open_ok_put_cert:
  assumes "open_ok l" "cert_ok c" "isOpen c \<longrightarrow> hasUpload c \<and> abs_files l (certId c) \<noteq> None"
  shows "open_ok (put (cert_key (certId c)) (marshal_cert c) l)"
  using assms by (auto simp: open_ok_def abs_put_certs split: if_splits)

lemma app_ok_post_cert:
  assumes "app_ok l" "cert_ok c" "isOpen c \<longrightarrow> hasUpload c \<and> abs_files l (certId c) \<noteq> None"
  shows "app_ok (snd (transact p [''postCertificate'', marshal_cert c] l))"
proof (cases rule: post_marshalled [OF assms(2), of p l])
  case 1
  with assms show ?thesis by simp
next
  case (2 t)
  with open_ok_put_cert [of l "c\<lparr>updateDate := format_prc t\<rparr>"] assms
    transact_ok [of l p "[''postCertificate'', marshal_cert c]"]
  show ?thesis by (simp add: app_ok_def)
qed

lemma app_ok_put_file: "app_ok l \<Longrightarrow> file_entry (file_key i) v \<Longrightarrow> app_ok (put (file_key i) v l)"
  by (auto simp: app_ok_def open_ok_def abs_put_files intro!: ledger_ok_put)

lemma upload_check_True:
  "upload_check r = (True, err) \<longleftrightarrow> (\<exists>payload fs. r = Inr payload \<and> payload \<noteq> [] \<and> unmarshal_file payload = (fs, None) \<and> err = None)"
  by (auto simp: upload_check_def split: sum.splits option.splits prod.splits if_splits)

section \<open>The operations on a ledger\<close>

context ledger_client
begin

text \<open>The four ways \<open>CertificateIn\<close> ends.\<close>

lemma CertificateIn_cases:
  obtains (bad) c e where "unmarshal_cert body = (c, Some e)"
      "CertificateIn fab body w = (Ret (None, Some e, 400), w)"
  | (held) c err w' where "unmarshal_cert body = (c, None)" "isOpen c"
      "CertificateIn fab body w = (Ret (None, err, 400), w')" "ledger_of w' = ledger_of w"
      "err = None \<longrightarrow> (case abs_files (ledger_of w) (certId c) of None \<Rightarrow> [] | Some v \<Rightarrow> v) = []"
  | (failed) c upload e w' where "unmarshal_cert body = (c, None)"
      "CertificateIn fab body w = (Ret (None, Some e, 501), w')"
      "isOpen c \<longrightarrow> upload" "upload \<longrightarrow> abs_files (ledger_of w) (certId c) \<noteq> None"
      "ledger_of w' = ledger_of w \<or> (\<exists>p. ledger_of w' =
         snd (transact p [''postCertificate'', marshal_cert (c\<lparr>hasUpload := upload\<rparr>)] (ledger_of w)))"
  | (stored) c upload txid w' p t where "unmarshal_cert body = (c, None)"
      "CertificateIn fab body w = (Ret (Some txid, None, 200), w')"
      "isOpen c \<longrightarrow> upload" "upload \<longrightarrow> abs_files (ledger_of w) (certId c) \<noteq> None"
      "id_ok (certId c)"
      "ledger_of w' = snd (transact p [''postCertificate'', marshal_cert (c\<lparr>hasUpload := upload\<rparr>)] (ledger_of w))"
      "ledger_of w' = put (cert_key (certId c))
         (marshal_cert (c\<lparr>hasUpload := upload, updateDate := format_prc t\<rparr>)) (ledger_of w)"
proof -
  obtain c err where u: "unmarshal_cert body = (c, err)" by (cases "unmarshal_cert body") auto
  show thesis
  proof (cases err)
    case (Some e)
    with u that(1) show thesis by (simp add: CertificateIn_def)
  next
    case None
    with u have c: "cert_ok c" using unmarshal_cert_ok [of body] by simp
    obtain r w1 where q: "Query fab ''getDownloadFile'' [certId c] w = (Ret r, w1)"
      and l: "ledger_of w1 = ledger_of w"
      by (cases rule: query_cases [of "''getDownloadFile''" "[certId c]" w]) auto
    obtain upload e' where k: "upload_check r = (upload, e')" by (cases "upload_check r") auto
    have onled: "upload \<longrightarrow> abs_files (ledger_of w) (certId c) \<noteq> None"
    proof
      assume upload
      with k have "upload_check r = (True, e')" by simp
      then obtain payload where "r = Inr payload" "payload \<noteq> []" unfolding upload_check_True by blast
      with q query_file [of "certId c" w payload w1] show "abs_files (ledger_of w) (certId c) \<noteq> None"
        by (auto split: option.splits)
    qed
    have absent: "(case abs_files (ledger_of w) (certId c) of None \<Rightarrow> [] | Some v \<Rightarrow> v) = []"
      if "\<not> upload" "e' = None"
    proof -
      from k that have "r = Inr []"
        by (auto simp: upload_check_def split: sum.splits option.splits prod.splits if_splits)
      with q query_file [of "certId c" w "[]" w1] show ?thesis by simp
    qed
    show thesis
    proof (cases "isOpen c \<and> \<not> upload")
      case True
      with u None q k l absent that(2) [of c e' w1] show thesis by (simp add: CertificateIn_def)
    next
      case False
      define c' where "c' = c\<lparr>hasUpload := upload\<rparr>"
      have c': "cert_ok c'" using c by (simp add: c'_def cert_ok_def)
      have run: "CertificateIn fab body w =
          and_then (Execute fab (''postCertificateEvent'' @ certId c) ''postCertificate'' [marshal_cert c'] w1)
            (\<lambda>data w2. case data of Inl e \<Rightarrow> (Ret (None, Some e, 501), w2)
                       | Inr txid \<Rightarrow> (Ret (Some txid, None, 200), w2))"
        using u None q k False by (auto simp: CertificateIn_def c'_def)
      show thesis
      proof (cases rule: execute_cases [of "''postCertificateEvent'' @ certId c" "''postCertificate''" "[marshal_cert c']" w1])
        case (ok txid w' p r)
        then have tr: "transact p [''postCertificate'', marshal_cert c'] (ledger_of w) = (Ret (Success r), ledger_of w')"
          using l by simp
        obtain t where t: "id_ok (certId c')"
          "ledger_of w' = put (cert_key (certId c')) (marshal_cert (c'\<lparr>updateDate := format_prc t\<rparr>)) (ledger_of w)"
        proof (cases rule: post_marshalled [OF c', of p "ledger_of w"])
          case 1
          with 1(2) [of r] tr show thesis by simp
        next
          case (2 t)
          with tr have "ledger_of w' = put (cert_key (certId c')) (marshal_cert (c'\<lparr>updateDate := format_prc t\<rparr>)) (ledger_of w)"
            by simp
          with 2 that show thesis by blast
        qed
        show thesis
        proof (rule that(4) [of c txid w' upload p t])
          show "CertificateIn fab body w = (Ret (Some txid, None, 200), w')" using ok run by simp
          show "ledger_of w' = snd (transact p [''postCertificate'', marshal_cert (c\<lparr>hasUpload := upload\<rparr>)] (ledger_of w))"
            using tr by (simp add: c'_def)
        qed (use u None onled False t in \<open>auto simp: c'_def\<close>)
      next
        case (err e w')
        with u None run onled False l that(3) [of c e w' upload] show thesis by (simp add: c'_def)
      qed
    qed
  qed
qed

lemma CertificateIn_returns: "\<not> is_panic (fst (CertificateIn fab body w))"
  by (cases rule: CertificateIn_cases [of body w]) auto

lemma CertificateIn_app_ok:
  assumes "app_ok (ledger_of w)"
  shows "app_ok (ledger_of (snd (CertificateIn fab body w)))"
proof -
  have post: "app_ok (snd (transact p [''postCertificate'', marshal_cert (c\<lparr>hasUpload := upload\<rparr>)] (ledger_of w)))"
    if "unmarshal_cert body = (c, None)" "isOpen c \<longrightarrow> upload"
      "upload \<longrightarrow> abs_files (ledger_of w) (certId c) \<noteq> None" for c upload p
    using unmarshal_cert_ok [of body] that
    by (intro app_ok_post_cert [OF assms]) (auto simp: cert_ok_def)
  show ?thesis
    by (cases rule: CertificateIn_cases [of body w]) (use assms post in auto)
qed

end

lemma marshal_cert_nonempty: "cert_ok c \<Longrightarrow> marshal_cert c \<noteq> []"
  by (simp add: marshal_cert_def cert_json_ok)

context ledger_client
begin

text \<open>The three ways \<open>CertificateOut\<close> ends on an acceptable ledger; a panic is not one.\<close>

lemma CertificateOut_cases:
  assumes "ledger_ok (ledger_of w)"
  obtains (unavailable) e w' where "CertificateOut fab param w = (Ret (None, Some e, 400), w')"
      "ledger_of w' = ledger_of w"
  | (absent) w' where "abs_certs (ledger_of w) (lookup_param param ''certId'') = None"
      "CertificateOut fab param w = (Ret (None, None, 404), w')" "ledger_of w' = ledger_of w"
  | (found) c t w' where "abs_certs (ledger_of w) (lookup_param param ''certId'') = Some c"
      "cert_ok c" "certId c = lookup_param param ''certId''" "updateDate c = format_prc t"
      "CertificateOut fab param w = (Ret (Some (c\<lparr>updateDate := format_date t\<rparr>), None, 200), w')"
      "ledger_of w' = ledger_of w"
proof -
  let ?i = "lookup_param param ''certId''"
  show thesis
  proof (cases rule: query_cases [of "''getCertificate''" "[?i]" w])
    case (err e w')
    with that(1) [of e w'] show thesis by (simp add: CertificateOut_def)
  next
    case (ok payload w')
    have p: "payload = (case abs_certs (ledger_of w) ?i of None \<Rightarrow> [] | Some c \<Rightarrow> marshal_cert c)"
      using query_cert [OF ok(1) assms] .
    show thesis
    proof (cases "map_of (ledger_of w) (cert_key ?i)")
      case None
      then have n: "abs_certs (ledger_of w) ?i = None" by (simp add: abs_certs_def)
      with that(2) [OF n, of w'] p ok show thesis by (simp add: CertificateOut_def)
    next
      case (Some v)
      obtain c t where c: "cert_ok c" "certId c = ?i" "updateDate c = format_prc t"
        "abs_certs (ledger_of w) ?i = Some c"
        using stored_cert [OF assms Some] by blast
      with p ok marshal_cert_nonempty [OF c(1)] cert_roundtrip [OF c(1)]
      have "CertificateOut fab param w = (Ret (Some (c\<lparr>updateDate := format_date t\<rparr>), None, 200), w')"
        by (simp add: CertificateOut_def)
      with that(3) c ok show thesis by blast
    qed
  qed
qed

lemma CertificateOut_keeps: "ledger_of (snd (CertificateOut fab param w)) = ledger_of w"
  by (cases rule: query_cases [of "''getCertificate''" "[lookup_param param ''certId'']" w])
     (auto simp: CertificateOut_def split: prod.splits option.splits)

lemma CertificateOut_returns:
  "ledger_ok (ledger_of w) \<Longrightarrow> \<not> is_panic (fst (CertificateOut fab param w))"
  by (cases rule: CertificateOut_cases [of w param]) auto

end

section \<open>What an operation may change\<close>

text \<open>
  The relation between the ledgers before and after an operation on one identifier: the
  files and all other certificates stay, and the invariant is kept.
\<close>

definition touches_only :: "string \<Rightarrow> ledger \<Rightarrow> ledger \<Rightarrow> bool" where
  "touches_only i l l' \<longleftrightarrow>
     (app_ok l \<longrightarrow> app_ok l') \<and> abs_files l' = abs_files l
     \<and> (\<forall>j. j \<noteq> i \<longrightarrow> abs_certs l' j = abs_certs l j)"

lemma touches_only_refl [simp]: "touches_only i l l"
  by (simp add: touches_only_def)

lemma touches_only_trans: "touches_only i l l' \<Longrightarrow> touches_only i l' l'' \<Longrightarrow> touches_only i l l''"
  by (simp add: touches_only_def)

lemma post_frame:
  assumes "cert_ok c"
  shows "abs_files (snd (transact p [''postCertificate'', marshal_cert c] l)) = abs_files l"
    and "j \<noteq> certId c \<Longrightarrow>
      abs_certs (snd (transact p [''postCertificate'', marshal_cert c] l)) j = abs_certs l j"
  using abs_put_certs(1) [where c = "c\<lparr>updateDate := format_prc t\<rparr>" and l = l for t] abs_put_certs(2) assms
  by (cases rule: post_marshalled [OF assms, of p l]; auto)+

lemma unmarshal_cc_file_Nil: "snd (unmarshal_cc_file []) \<noteq> None"
  by (simp add: unmarshal_cc_file_def unmarshal_def json_parse_def parse_unfold skip_def)

lemma stored_file_nonempty: "ledger_ok l \<Longrightarrow> abs_files l i \<noteq> Some []"
  using unmarshal_cc_file_Nil by (auto simp: abs_files_def elim: stored_file)

context ledger_client
begin

lemma CertificateIn_touches:
  assumes "unmarshal_cert body = (c, None)"
  shows "touches_only (certId c) (ledger_of w) (ledger_of (snd (CertificateIn fab body w)))"
proof -
  have c: "cert_ok (c\<lparr>hasUpload := u\<rparr>)" for u
    using unmarshal_cert_ok [of body] assms by (simp add: cert_ok_def)
  have "abs_files (ledger_of (snd (CertificateIn fab body w))) = abs_files (ledger_of w)
      \<and> (\<forall>j. j \<noteq> certId c \<longrightarrow> abs_certs (ledger_of (snd (CertificateIn fab body w))) j = abs_certs (ledger_of w) j)"
  proof (cases rule: CertificateIn_cases [of body w])
    case (failed c' upload e w')
    with assms post_frame [OF c [of upload], where l = "ledger_of w"] show ?thesis by auto
  next
    case (stored c' upload txid w' p t)
    with assms post_frame [OF c [of upload], where l = "ledger_of w"] show ?thesis by auto
  qed auto
  with CertificateIn_app_ok [of w body] show ?thesis by (simp add: touches_only_def)
qed

lemma change_one_cases:
  assumes "app_ok (ledger_of w)"
  obtains (kept) w' where "change_one fab st w = (Ret st, w')"
      "touches_only (st_certId st) (ledger_of w) (ledger_of w')"
  | (held) c w' where "change_one fab st w = (Ret (st\<lparr>st_isChangedOnChain := True\<rparr>), w')"
      "abs_certs (ledger_of w) (st_certId st) = Some c"
      "st_isOpen st" "abs_files (ledger_of w) (st_certId st) = None" "ledger_of w' = ledger_of w"
  | (changed) c w' u t where "change_one fab st w = (Ret (st\<lparr>st_isChangedOnChain := True\<rparr>), w')"
      "abs_certs (ledger_of w) (st_certId st) = Some c"
      "touches_only (st_certId st) (ledger_of w) (ledger_of w')"
      "abs_certs (ledger_of w') (st_certId st) =
         Some (c\<lparr>isDeleted := st_isDeleted st, isOpen := st_isOpen st, isCompleted := st_isCompleted st,
                 hasUpload := u, updateDate := format_prc t\<rparr>)"
      "st_isOpen st \<longrightarrow> u"
proof -
  let ?i = "st_certId st"
  have l: "ledger_ok (ledger_of w)" using assms app_ok_ledger by blast
  from l show thesis
  proof (cases rule: CertificateOut_cases [of w "[''certId'' \<mapsto> ?i]"])
    case (unavailable e w')
    with that(1) [of w'] show thesis by (simp add: change_one_def)
  next
    case (absent w')
    with that(1) [of w'] show thesis by (simp add: change_one_def)
  next
    case (found c t w1)
    define c' where "c' = c\<lparr>updateDate := format_date t, isDeleted := st_isDeleted st,
      isOpen := st_isOpen st, isCompleted := st_isCompleted st\<rparr>"
    have i: "certId c' = ?i" "lookup_param [''certId'' \<mapsto> ?i] ''certId'' = ?i"
      using found by (simp_all add: c'_def lookup_param_def)
    have "utf8_valid (format_date t)"
      using format_prc_ascii [of t] utf8_valid_asciis by (simp add: format_prc_def)
    then have "cert_ok c'" using found by (simp add: c'_def cert_ok_def)
    then have u: "unmarshal_cert (marshal_cert c') = (c', None)" by (rule cert_roundtrip)
    have touch: "touches_only ?i (ledger_of w) (ledger_of (snd (CertificateIn fab (marshal_cert c') w1)))"
      using CertificateIn_touches [OF u, of w1] found i by simp
    have run: "change_one fab st w =
        and_then (CertificateIn fab (marshal_cert c') w1) (\<lambda>res w2.
          (case res of (_, Some e, _) \<Rightarrow> (Ret st, w2)
                     | (_, None, _) \<Rightarrow> (Ret (st\<lparr>st_isChangedOnChain := True\<rparr>), w2)))"
      using found by (simp add: change_one_def c'_def)
    show thesis
    proof (cases rule: CertificateIn_cases [of "marshal_cert c'" w1])
      case (bad c2 e)
      with u show thesis by simp
    next
      case (held c2 err w')
      show thesis
      proof (cases err)
        case None
        with held u i found have "abs_files (ledger_of w) ?i = None"
          using stored_file_nonempty [OF l, of ?i] by (auto split: option.splits)
        with held u None run found i that(2) [of w' c] show thesis by (auto simp: c'_def)
      next
        case (Some e)
        with held run found that(1) [of w'] show thesis by simp
      qed
    next
      case (failed c2 upload e w')
      with run touch that(1) [of w'] show thesis by simp
    next
      case (stored c2 upload txid w' p t')
      with u have c2: "c2 = c'" by simp
      have ok: "cert_ok (c'\<lparr>hasUpload := upload, updateDate := format_prc t'\<rparr>)"
        using \<open>cert_ok c'\<close> cert_ok_date [of "c'\<lparr>hasUpload := upload\<rparr>" t'] by (simp add: cert_ok_def)
      have "abs_certs (ledger_of w') ?i = Some (c'\<lparr>hasUpload := upload, updateDate := format_prc t'\<rparr>)"
        using stored c2 i abs_put_certs(1) [OF ok, of "ledger_of w1"] by simp
      then show thesis
        using stored c2 run found i touch that(3) [where w' = w' and c = c and u = upload and t = t'] by (auto simp: c'_def)
    qed
  qed
qed

end

text \<open>The loop: it returns, flags some of the statuses, and touches no certificate it was not given.\<close>

definition flagged :: "status \<Rightarrow> status \<Rightarrow> bool" where
  "flagged st st' \<longleftrightarrow> st' = st \<or> st' = st\<lparr>st_isChangedOnChain := True\<rparr>"

definition touches_ids :: "string set \<Rightarrow> ledger \<Rightarrow> ledger \<Rightarrow> bool" where
  "touches_ids I l l' \<longleftrightarrow> app_ok l' \<and> abs_files l' = abs_files l \<and> (\<forall>j. j \<notin> I \<longrightarrow> abs_certs l' j = abs_certs l j)"

context ledger_client
begin

lemma change_one_returns:
  assumes "app_ok (ledger_of w)"
  obtains st' w' where "change_one fab st w = (Ret st', w')" "flagged st st'"
    "touches_ids {st_certId st} (ledger_of w) (ledger_of w')"
  using assms
proof (cases rule: change_one_cases [of w st])
  case (kept w')
  with assms that show thesis by (simp add: touches_only_def touches_ids_def flagged_def)
next
  case (held c w')
  with assms that show thesis by (simp add: touches_ids_def flagged_def)
next
  case (changed c w' u t)
  with assms that show thesis by (simp add: touches_only_def touches_ids_def flagged_def)
qed

lemma change_all_returns:
  "app_ok (ledger_of w) \<Longrightarrow>
     \<exists>sts' w'. change_all fab sts w = (Ret sts', w') \<and> list_all2 flagged sts sts'
       \<and> touches_ids (st_certId ` set sts) (ledger_of w) (ledger_of w')"
proof (induction sts arbitrary: w)
  case Nil
  then show ?case by (simp add: touches_ids_def)
next
  case (Cons st sts)
  obtain st' w1 where one: "change_one fab st w = (Ret st', w1)" "flagged st st'"
    "touches_ids {st_certId st} (ledger_of w) (ledger_of w1)"
    using change_one_returns [OF Cons.prems, of st] by blast
  then have "app_ok (ledger_of w1)" by (simp add: touches_ids_def)
  from Cons.IH [OF this] obtain sts' w' where rest: "change_all fab sts w1 = (Ret sts', w')"
    "list_all2 flagged sts sts'" "touches_ids (st_certId ` set sts) (ledger_of w1) (ledger_of w')"
    by blast
  have "touches_ids (st_certId ` set (st # sts)) (ledger_of w) (ledger_of w')"
    using one(3) rest(3) by (simp add: touches_ids_def)
  with one rest show ?case by simp
qed

end

section \<open>On a healthy network\<close>

lemma plain_id_ok: "plain_text i \<Longrightarrow> id_ok i"
  unfolding id_ok_def
  by (rule validate_ascii) (auto simp: plain_text_def list_all_iff unreserved_def is_digit_def in_range_def)

lemma post_event:
  assumes "cert_ok c" "id_ok (certId c)" "peer_ok p"
  shows "transact p [''postCertificate'', marshal_cert c] l
       = (Ret (Success []), put (cert_key (certId c)) (marshal_cert (c\<lparr>updateDate := format_prc (unix_now p)\<rparr>)) l)"
    and "emitted (snd (Invoke p [''postCertificate'', marshal_cert c] (new_stub l)))
       = [''postCertificateEvent'' @ certId c]"
  using assms
  by (simp_all add: transact_post_cert cert_roundtrip id_ok_def peer_ok_def postCertificate_cc_def
      create_cert_key PutState_def SetEvent_def new_stub_def emitted_def)

lemma healthy_CertificateIn:
  assumes "healthy env" "unmarshal_cert body = (c, None)" "plain_text (certId c)"
    and "isOpen c \<longrightarrow> (\<exists>v fs. abs_files (net_ledger n) (certId c) = Some v \<and> v \<noteq> [] \<and> unmarshal_file v = (fs, None))"
  shows "\<exists>txid n'. CertificateIn (connected env) body n = (Ret (Some txid, None, 200), n')"
proof -
  let ?n1 = "n\<lparr>net_tick := net_tick n + 1\<rparr>"
  let ?v = "case abs_files (net_ledger n) (certId c) of None \<Rightarrow> [] | Some v \<Rightarrow> v"
  have q: "Query (connected env) ''getDownloadFile'' [certId c] n = (Ret (Inr ?v), ?n1)"
    using healthy_query_file [OF assms(1) plain_id_ok [OF assms(3)]] by (simp add: abs_files_def)
  obtain upload err where k: "upload_check (Inr ?v) = (upload, err)" by (cases "upload_check (Inr ?v)") auto
  have open_upload: "upload" if "isOpen c"
    using assms(4) k that by (auto simp: upload_check_def)
  define c' where "c' = c\<lparr>hasUpload := upload\<rparr>"
  have c': "cert_ok c'" "id_ok (certId c')"
    using unmarshal_cert_ok [of body] assms(2,3) plain_id_ok by (simp_all add: c'_def cert_ok_def)
  obtain txid n' p where
    "Execute (connected env) (''postCertificateEvent'' @ certId c) ''postCertificate'' [marshal_cert c'] ?n1 = (Ret (Inr txid), n')"
  proof (rule healthy_execute [OF assms(1), of "''postCertificateEvent'' @ certId c" "''postCertificate''" "[marshal_cert c']" ?n1])
    show "plain_text (''postCertificateEvent'' @ certId c)"
      using assms(3) by (simp add: unreserved_def is_digit_def in_range_def)
    show "fst (transact p [''postCertificate'', marshal_cert c'] (net_ledger ?n1)) = Ret (Success [])" if "peer_ok p" for p
      using post_event(1) [OF c' that] by simp
    show "emitted (snd (Invoke p [''postCertificate'', marshal_cert c'] (new_stub (net_ledger ?n1)))) = [''postCertificateEvent'' @ certId c]"
      if "peer_ok p" for p
      using post_event(2) [OF c' that] by (simp add: c'_def)
  qed
  with q k open_upload assms(2) show ?thesis by (auto simp: CertificateIn_def c'_def Let_def)
qed

lemma healthy_CertificateOut:
  assumes "healthy env" "id_ok i" "ledger_ok (net_ledger n)" "abs_certs (net_ledger n) i = Some c"
  shows "CertificateOut (connected env) [''certId'' \<mapsto> i] n =
    (Ret (Some (c\<lparr>updateDate := take 10 (updateDate c)\<rparr>), None, 200), n\<lparr>net_tick := net_tick n + 1\<rparr>)"
proof -
  obtain v where v: "map_of (net_ledger n) (cert_key i) = Some v" using assms(4) by (auto simp: abs_certs_def)
  obtain c' t where c: "cert_ok c'" "updateDate c' = format_prc t" "v = marshal_cert c'" "abs_certs (net_ledger n) i = Some c'"
    using stored_cert [OF assms(3) v] by blast
  with healthy_query_cert [OF assms(1,2), of n] v assms(4) marshal_cert_nonempty [OF c(1)] cert_roundtrip [OF c(1)]
  show ?thesis by (simp add: CertificateOut_def lookup_param_def)
qed

section \<open>Properties\<close>

text \<open>A network on which everything works, for the examples; its clock is the request count.\<close>

definition sample_peer :: "nat \<Rightarrow> peer" where
  "sample_peer t = \<lparr>refuse_get = \<lambda>_. None, refuse_put = \<lambda>_. None,
     rich_query = \<lambda>l q size bm. Inr ([], 0, ''''), unix_now = 1546300800 + int t, knows_prc = True\<rparr>"

definition sample_env :: environment where
  "sample_env = \<lparr>env_peer = sample_peer, env_fate = \<lambda>_. Served, env_filter_ok = \<lambda>_. True, env_matches = (=)\<rparr>"

definition sample_net :: "ledger \<Rightarrow> network" where
  "sample_net l = \<lparr>net_ledger = l, net_tick = 0, net_events = [], net_regs = []\<rparr>"

definition sample_cert :: certificate where
  "sample_cert = zero_cert\<lparr>certId := ''C1'', entrustOrg := ''lab''\<rparr>"

lemma sample_healthy [simp]: "healthy sample_env"
  by (simp add: healthy_def sample_env_def sample_peer_def peer_ok_def)

lemma sample_cert_ok [simp]: "cert_ok sample_cert"
  by (simp add: sample_cert_def cert_ok_def zero_cert_def)

lemma sample_plain [simp]: "plain_text (certId sample_cert)"
  by (simp add: sample_cert_def unreserved_def is_digit_def in_range_def)

lemma sample_closed [simp]: "isOpen sample_cert = False"
  by (simp add: sample_cert_def zero_cert_def)

lemma sample_app_ok [simp]: "app_ok (net_ledger (sample_net []))"
  by (simp add: sample_net_def app_ok_def open_ok_def abs_certs_def)

text \<open>What the ledger holds of a certificate once CertificateIn has answered with success.\<close>

lemma certificate_posted:
  assumes "unmarshal_cert body = (c, None)"
    and "CertificateIn (connected env) body n = (Ret (Some txid, None, 200), n1)"
  shows "\<exists>u t. (isOpen c \<longrightarrow> u) \<and> (u \<longrightarrow> abs_files (net_ledger n) (certId c) \<noteq> None)
    \<and> abs_certs (net_ledger n1) (certId c) = Some (c\<lparr>hasUpload := u, updateDate := format_prc t\<rparr>)"
proof (cases rule: net.CertificateIn_cases [of body env n])
  case (stored c2 u txid2 w' p t)
  with assms have eq: "c2 = c" "w' = n1" by auto
  have ok: "cert_ok (c\<lparr>hasUpload := u, updateDate := format_prc t\<rparr>)"
    using unmarshal_cert_ok [of body] assms(1) cert_ok_date [of "c\<lparr>hasUpload := u\<rparr>" t]
    by (simp add: cert_ok_def)
  show ?thesis
    using stored eq abs_put_certs(1) [OF ok, of "net_ledger n"]
    by (intro exI [of _ u] exI [of _ t]) simp
qed (use assms in auto)

text \<open>
  C12: What is posted is what is read. If CertificateIn answers with a transaction identifier,
  then CertificateOut of the same certificate answers with exactly the certificate posted,
  except that its update date is the date of the chaincode's clock and its upload flag what
  the ledger says of its file (set when the certificate is open, and only if the ledger has
  the file); the only other answer is a failed query.
\<close>

theorem certificate_read_back:
  assumes "app_ok (net_ledger n)" "unmarshal_cert body = (c, None)"
    and "CertificateIn (connected env) body n = (Ret (Some txid, None, 200), n1)"
  shows "\<exists>u t. (isOpen c \<longrightarrow> u) \<and> (u \<longrightarrow> abs_files (net_ledger n) (certId c) \<noteq> None) \<and>
    (case CertificateOut (connected env) [''certId'' \<mapsto> certId c] n1 of
       (Ret (Some c', err, code), n2) \<Rightarrow>
         err = None \<and> code = 200 \<and> c' = c\<lparr>hasUpload := u, updateDate := format_date t\<rparr>
     | (Ret (None, err, code), n2) \<Rightarrow> err \<noteq> None \<and> code = 400
     | (Panic m, n2) \<Rightarrow> False)"
proof -
  obtain u t where ut: "isOpen c \<longrightarrow> u" "u \<longrightarrow> abs_files (net_ledger n) (certId c) \<noteq> None"
    and at: "abs_certs (net_ledger n1) (certId c) = Some (c\<lparr>hasUpload := u, updateDate := format_prc t\<rparr>)"
    using certificate_posted [OF assms(2,3)] by blast
  have "ledger_ok (net_ledger n1)"
    using net.CertificateIn_app_ok [OF assms(1), of env body] assms(3) by (simp add: app_ok_ledger)
  then show ?thesis
  proof (cases rule: net.CertificateOut_cases [of n1 env "[''certId'' \<mapsto> certId c]"])
    case (found c' t' w2)
    with at have c': "c' = c\<lparr>hasUpload := u, updateDate := format_prc t\<rparr>"
      by (simp add: lookup_param_def)
    with found(4) have "format_prc t' = format_prc t" by simp
    then have "format_date t' = format_date t" by (metis take_format_prc)
    with ut c' found(5) show ?thesis by (intro exI [of _ u] exI [of _ t]) simp
  next
    case (unavailable e w2)
    with ut show ?thesis by (intro exI [of _ u] exI [of _ t]) simp
  next
    case (absent w2)
    with at show ?thesis by (simp add: lookup_param_def)
  qed
qed

text \<open>
  On a healthy network CertificateIn succeeds for every decodable certificate with a
  plain identifier that is not open, and for an open one whose file the ledger holds.
\<close>

lemma certificate_accepted:
  assumes "healthy env" "unmarshal_cert body = (c, None)" "plain_text (certId c)"
    and "isOpen c \<longrightarrow> (\<exists>v fs. abs_files (net_ledger n) (certId c) = Some v \<and> v \<noteq> [] \<and> unmarshal_file v = (fs, None))"
  shows "\<exists>txid n'. CertificateIn (connected env) body n = (Ret (Some txid, None, 200), n')"
  using assms by (rule healthy_CertificateIn)

lemma certificate_accepted_witness:
  "\<exists>txid n'. CertificateIn (connected sample_env) (marshal_cert sample_cert) (sample_net []) = (Ret (Some txid, None, 200), n')"
  by (rule certificate_accepted [OF sample_healthy cert_roundtrip [OF sample_cert_ok]]) simp_all

lemma certificate_read_back_witness:
  "\<exists>txid n1 u t. CertificateIn (connected sample_env) (marshal_cert sample_cert) (sample_net []) = (Ret (Some txid, None, 200), n1)
    \<and> \<not> u \<and> (case CertificateOut (connected sample_env) [''certId'' \<mapsto> ''C1''] n1 of
       (Ret (Some c', err, code), n2) \<Rightarrow>
         err = None \<and> code = 200 \<and> c' = sample_cert\<lparr>hasUpload := u, updateDate := format_date t\<rparr>
     | (Ret (None, err, code), n2) \<Rightarrow> err \<noteq> None \<and> code = 400
     | (Panic m, n2) \<Rightarrow> False)"
proof -
  have u: "unmarshal_cert (marshal_cert sample_cert) = (sample_cert, None)" by (rule cert_roundtrip) simp
  obtain txid n1 where run: "CertificateIn (connected sample_env) (marshal_cert sample_cert) (sample_net []) = (Ret (Some txid, None, 200), n1)"
    using healthy_CertificateIn [OF sample_healthy u, of "sample_net []"] by auto
  have "abs_files (net_ledger (sample_net [])) (certId sample_cert) = None"
    by (simp add: sample_net_def abs_files_def)
  with certificate_read_back [OF sample_app_ok u run] run show ?thesis
    by (fastforce simp: sample_cert_def)
qed

text \<open>
  C20: CertificateIn never panics, and on every outcome the service invariant holds again (an
  open certificate has its file on the ledger), no file and no other certificate
  has changed; status 200 comes with a transaction identifier and no error, 400 leaves the
  whole ledger as it was, and the only other status is 501 with an error.
\<close>

theorem certificateIn_outcomes:
  assumes "app_ok (net_ledger n)"
  shows "case CertificateIn (connected env) body n of
      (Ret (v, err, code), n') \<Rightarrow>
        touches_only (certId (fst (unmarshal_cert body))) (net_ledger n) (net_ledger n')
        \<and> app_ok (net_ledger n')
        \<and> (if code = 200 then v \<noteq> None \<and> err = None
           else if code = 400 then v = None \<and> net_ledger n' = net_ledger n
           else code = 501 \<and> v = None \<and> err \<noteq> None)
    | (Panic m, n') \<Rightarrow> False"
proof (cases rule: net.CertificateIn_cases [of body env n])
  case (bad c e)
  with assms show ?thesis by simp
next
  case (held c err w')
  with assms show ?thesis by (simp add: touches_only_def)
next
  case (failed c upload e w')
  with net.CertificateIn_touches [where body = body and c = c and env = env and w = n] assms show ?thesis
    by (simp add: touches_only_def)
next
  case (stored c upload txid w' p t)
  with net.CertificateIn_touches [where body = body and c = c and env = env and w = n] assms show ?thesis
    by (simp add: touches_only_def)
qed

lemma certificateIn_outcomes_witness:
  "app_ok [] \<and> (\<exists>r n'. CertificateIn (connected sample_env) (marshal_cert sample_cert) (sample_net []) = (Ret r, n') \<and> app_ok (net_ledger n'))"
  using certificateIn_outcomes [OF sample_app_ok, where env = sample_env and body = "marshal_cert sample_cert"] sample_app_ok
  by (auto simp: sample_net_def split: prod.splits outcome.splits)

text \<open>
  C28: CertificateOut on a ledger of the service: it never panics (every stored certificate
  is dated, so the slice of its first ten characters exists), reading changes nothing, and it
  answers 200 with the stored certificate and its date, 404 with neither value nor error when
  there is none, or 400 with the error of the query.
\<close>

theorem certificateOut_outcomes:
  assumes "ledger_ok (net_ledger n)"
  shows "case CertificateOut (connected env) param n of
      (Ret (v, err, code), n') \<Rightarrow>
        net_ledger n' = net_ledger n
        \<and> (if code = 200 then err = None
             \<and> v = map_option (\<lambda>c. c\<lparr>updateDate := take 10 (updateDate c)\<rparr>)
                     (abs_certs (net_ledger n) (lookup_param param ''certId'')) \<and> v \<noteq> None
           else if code = 404 then v = None \<and> err = None
             \<and> abs_certs (net_ledger n) (lookup_param param ''certId'') = None
           else code = 400 \<and> v = None \<and> err \<noteq> None)
    | (Panic m, n') \<Rightarrow> False"
  using assms
  by (cases rule: net.CertificateOut_cases [of n env param]) auto

lemma certificateOut_outcomes_witness:
  "ledger_ok [] \<and> (case CertificateOut (connected sample_env) [''certId'' \<mapsto> ''C1''] (sample_net []) of
      (Ret (v, err, code), n') \<Rightarrow> v = None \<and> code \<noteq> 200 | (Panic m, n') \<Rightarrow> False)"
proof -
  have none: "abs_certs (net_ledger (sample_net [])) i = None" for i by (simp add: sample_net_def abs_certs_def)
  have "ledger_ok (net_ledger (sample_net []))" by (simp add: sample_net_def)
  from certificateOut_outcomes [OF this, where env = sample_env and param = "[''certId'' \<mapsto> ''C1'']"] show ?thesis
    by (auto simp: none split: prod.splits outcome.splits if_splits)
qed

text \<open>
  C15: ChangeStatus on a ledger of the service never panics; it keeps the service invariant,
  the files and every certificate the request does not name; and it answers the statuses of
  the request in order, each unchanged or with its flag isChangedOnChain set, or status 400
  when the request does not decode.
\<close>

theorem changeStatus_outcomes:
  assumes "app_ok (net_ledger n)"
  shows "case ChangeStatus (connected env) body n of
      (Ret (v, err, code), n') \<Rightarrow>
        (case unmarshal_statuses body of
           (sts, Some e) \<Rightarrow> v = None \<and> err = Some e \<and> code = 400 \<and> n' = n
         | (None, None) \<Rightarrow> v = Some None \<and> err = None \<and> code = 200 \<and> n' = n
         | (Some sts, None) \<Rightarrow>
             (\<exists>sts'. v = Some (Some sts') \<and> list_all2 flagged sts sts') \<and> err = None \<and> code = 200
             \<and> touches_ids (st_certId ` set sts) (net_ledger n) (net_ledger n'))
    | (Panic m, n') \<Rightarrow> False"
proof -
  obtain sts err where u: "unmarshal_statuses body = (sts, err)" by (cases "unmarshal_statuses body") auto
  show ?thesis
  proof (cases "\<exists>xs. sts = Some xs \<and> err = None")
    case True
    then obtain xs where xs: "sts = Some xs" "err = None" by blast
    obtain sts' w' where "change_all (connected env) xs n = (Ret sts', w')" "list_all2 flagged xs sts'"
      "touches_ids (st_certId ` set xs) (net_ledger n) (net_ledger w')"
      using net.change_all_returns [OF assms, of env xs] by blast
    with u xs show ?thesis by (simp add: ChangeStatus_def)
  next
    case False
    with u show ?thesis by (cases err; cases sts) (auto simp: ChangeStatus_def)
  qed
qed

lemma changeStatus_outcomes_witness:
  "case ChangeStatus (connected sample_env) '''' (sample_net []) of
      (Ret (v, err, code), n') \<Rightarrow> v = None \<and> code = 400 \<and> n' = sample_net []
    | (Panic m, n') \<Rightarrow> False"
proof -
  have "unmarshal_statuses '''' = (None, Some ErrJsonSyntax)"
    by (simp add: unmarshal_statuses_def unmarshal_def json_parse_def parse_unfold skip_def)
  with changeStatus_outcomes [OF sample_app_ok, where env = sample_env and body = "''''"] show ?thesis
    by (auto split: prod.splits outcome.splits)
qed

lemma healthy_change_held:
  assumes "healthy env" "app_ok (net_ledger n)" "plain_text (st_certId st)" "st_isOpen st"
    and "abs_certs (net_ledger n) (st_certId st) = Some c" "abs_files (net_ledger n) (st_certId st) = None"
  shows "\<exists>n'. change_one (connected env) st n = (Ret (st\<lparr>st_isChangedOnChain := True\<rparr>), n') \<and> net_ledger n' = net_ledger n"
proof -
  let ?i = "st_certId st" and ?n1 = "n\<lparr>net_tick := net_tick n + 1\<rparr>"
  note i = plain_id_ok [OF assms(3)]
  obtain v where "map_of (net_ledger n) (cert_key ?i) = Some v" using assms(5) by (auto simp: abs_certs_def)
  then obtain t where c: "cert_ok c" "certId c = ?i" "updateDate c = format_prc t"
    using stored_cert [OF app_ok_ledger [OF assms(2)]] assms(5) by (metis option.inject)
  define c' where "c' = c\<lparr>updateDate := format_date t, isDeleted := st_isDeleted st,
      isOpen := st_isOpen st, isCompleted := st_isCompleted st\<rparr>"
  have "utf8_valid (format_date t)"
    using format_prc_ascii [of t] utf8_valid_asciis by (simp add: format_prc_def)
  then have "cert_ok c'" using c by (simp add: c'_def cert_ok_def)
  then have u: "unmarshal_cert (marshal_cert c') = (c', None)" by (rule cert_roundtrip)
  have q: "Query (connected env) ''getDownloadFile'' [?i] ?n1 = (Ret (Inr []), ?n1\<lparr>net_tick := net_tick ?n1 + 1\<rparr>)"
    using healthy_query_file [OF assms(1) i, of ?n1] assms(6) by (simp add: abs_files_def)
  have "CertificateOut (connected env) [''certId'' \<mapsto> ?i] n = (Ret (Some (c\<lparr>updateDate := format_date t\<rparr>), None, 200), ?n1)"
    using healthy_CertificateOut [OF assms(1) i app_ok_ledger [OF assms(2)] assms(5)] c by simp
  moreover have "CertificateIn (connected env) (marshal_cert c') ?n1 = (Ret (None, None, 400), ?n1\<lparr>net_tick := net_tick ?n1 + 1\<rparr>)"
    using u q assms(4) c by (simp add: CertificateIn_def upload_check_def Let_def c'_def)
  ultimately show ?thesis by (simp add: change_one_def c'_def)
qed

text \<open>
  What the flag of a changed status means. When a round of the loop sets it, the
  certificate exists, and either it now carries the three requested states on the ledger (and
  its file exists if it is to be open), or it was to be opened, has no file, and nothing was
  written at all, although the flag says so.
\<close>

lemma changeStatus_flag:
  assumes "app_ok (net_ledger n)" "change_one (connected env) st n = (Ret st', n')"
    and "\<not> st_isChangedOnChain st" "st_isChangedOnChain st'"
  shows "\<exists>c. abs_certs (net_ledger n) (st_certId st) = Some c \<and>
    ((\<exists>u t. abs_certs (net_ledger n') (st_certId st) =
        Some (c\<lparr>isDeleted := st_isDeleted st, isOpen := st_isOpen st, isCompleted := st_isCompleted st,
                hasUpload := u, updateDate := format_prc t\<rparr>) \<and> (st_isOpen st \<longrightarrow> u))
     \<or> (st_isOpen st \<and> abs_files (net_ledger n) (st_certId st) = None \<and> net_ledger n' = net_ledger n))"
  using assms(1)
proof (cases rule: net.change_one_cases [of n env st])
  case (kept w')
  with assms show ?thesis by simp
next
  case (held c w')
  with assms(2) show ?thesis by auto
next
  case (changed c w' u t)
  with assms(2) show ?thesis by auto
qed

definition sample_ledger :: ledger where
  "sample_ledger = [(cert_key ''C1'', marshal_cert (sample_cert\<lparr>updateDate := format_prc 0\<rparr>))]"

definition open_request :: status where
  "open_request = zero_status\<lparr>st_certId := ''C1'', st_isOpen := True, st_isCompleted := True\<rparr>"

lemma sample_ledger_certs:
  "app_ok sample_ledger" "abs_certs sample_ledger ''C1'' = Some (sample_cert\<lparr>updateDate := format_prc 0\<rparr>)"
  "abs_files sample_ledger i = None"
proof -
  have dated: "cert_ok (sample_cert\<lparr>updateDate := format_prc 0\<rparr>)" by simp
  have i: "certId sample_cert = ''C1''" by (simp add: sample_cert_def)
  have l: "sample_ledger = put (cert_key (certId (sample_cert\<lparr>updateDate := format_prc 0\<rparr>)))
      (marshal_cert (sample_cert\<lparr>updateDate := format_prc 0\<rparr>)) []"
    by (simp add: sample_ledger_def i)
  have "id_ok (certId sample_cert)" by (rule plain_id_ok) simp
  then have "cert_entry (cert_key ''C1'') (marshal_cert (sample_cert\<lparr>updateDate := format_prc 0\<rparr>))"
    using cert_entryI [OF cert_roundtrip [OF sample_cert_ok], of 0] by (simp add: i)
  then have "ledger_ok sample_ledger" by (simp add: ledger_ok_def sample_ledger_def)
  moreover have "open_ok sample_ledger"
    unfolding l by (rule open_ok_put_cert) (use dated in \<open>auto simp: open_ok_def abs_certs_def\<close>)
  ultimately show "app_ok sample_ledger" by (simp add: app_ok_def)
  show "abs_certs sample_ledger ''C1'' = Some (sample_cert\<lparr>updateDate := format_prc 0\<rparr>)"
    unfolding l abs_put_certs(1) [OF dated] by (simp add: i)
  show "abs_files sample_ledger i = None" by (simp add: sample_ledger_def abs_files_def)
qed

lemma sample_held:
  "\<exists>n'. change_one (connected sample_env) open_request (sample_net sample_ledger)
     = (Ret (open_request\<lparr>st_isChangedOnChain := True\<rparr>), n')"
  using healthy_change_held [OF sample_healthy, of "sample_net sample_ledger" open_request] sample_ledger_certs
  by (auto simp: sample_net_def open_request_def unreserved_def is_digit_def in_range_def)

lemma changeStatus_flag_witness:
  "\<exists>st' n' c. change_one (connected sample_env) open_request (sample_net sample_ledger) = (Ret st', n')
     \<and> st_isChangedOnChain st' \<and> abs_certs sample_ledger ''C1'' = Some c"
proof -
  obtain n' where n': "change_one (connected sample_env) open_request (sample_net sample_ledger)
     = (Ret (open_request\<lparr>st_isChangedOnChain := True\<rparr>), n')" using sample_held by blast
  have "app_ok (net_ledger (sample_net sample_ledger))" using sample_ledger_certs by (simp add: sample_net_def)
  from changeStatus_flag [OF this n'] n' show ?thesis
    by (auto simp: open_request_def zero_status_def sample_net_def)
qed

text \<open>
  The case of C10 in which nothing is written does occur, on a healthy network: a request
  to open a certificate without a file is answered with isChangedOnChain set, while the ledger
  stays as it was. (CertificateIn answers it with status 400 and a nil error, and ChangeStatus
  looks at the error only.)
\<close>

lemma changeStatus_open_without_file:
  assumes "healthy env" "app_ok (net_ledger n)" "plain_text (st_certId st)" "st_isOpen st"
    and "abs_certs (net_ledger n) (st_certId st) = Some c" "abs_files (net_ledger n) (st_certId st) = None"
  shows "\<exists>n'. change_one (connected env) st n = (Ret (st\<lparr>st_isChangedOnChain := True\<rparr>), n') \<and> net_ledger n' = net_ledger n"
  using assms by (rule healthy_change_held)

lemma changeStatus_open_without_file_witness:
  "\<exists>n'. change_one (connected sample_env) open_request (sample_net sample_ledger)
     = (Ret (open_request\<lparr>st_isChangedOnChain := True\<rparr>), n') \<and> net_ledger n' = sample_ledger"
  using changeStatus_open_without_file [OF sample_healthy, of "sample_net sample_ledger" open_request] sample_ledger_certs
  by (auto simp: sample_net_def open_request_def unreserved_def is_digit_def in_range_def)

end
