(* ===== verification/Files.thy ===== *)
theory Files
  imports Paths Certificates "HOL-Library.List_Lexorder" "HOL-Library.Char_ord"
begin

text \<open>
  The file operations of app/business/certificateIO.go: \<open>UploadFile\<close>, \<open>DownloadFile\<close> and
  \<open>deleteFileOnDisk\<close>, over a local disk and the outside world of the Fabric client. The disk
  keeps its files under cleaned relative paths and the directories that exist; \<open>os_env\<close> says
  which system call fails and how much a read returns. The lemmas: what an
  upload puts on the ledger is what a download gives back, only PDF content gets there, and
  which paths are touched.
\<close>

section \<open>The disk\<close>

record disk =
  d_files :: "(string \<times> bytes) list"
  d_dirs :: "string list"
  d_tick :: nat

record os_env =
  os_fault :: "nat \<Rightarrow> error option"
  os_reads :: "nat \<Rightarrow> nat \<Rightarrow> nat"

definition no_entry :: error where "no_entry = ErrText ''no such file or directory''"
definition not_empty :: error where "not_empty = ErrText ''directory not empty''"
definition is_directory :: error where "is_directory = ErrText ''is a directory''"
definition bad_argument :: error where "bad_argument = ErrText ''invalid argument''"
definition end_of_file :: error where "end_of_file = ErrText ''EOF''"

text \<open>A call with a zero byte in its path fails, as does one the environment lets fail.\<close>

definition os_call :: "os_env \<Rightarrow> string \<Rightarrow> disk \<Rightarrow> error option \<times> disk" where
  "os_call os path d =
     (if CHR 0x00 \<in> set path then Some bad_argument else os_fault os (d_tick d), d\<lparr>d_tick := d_tick d + 1\<rparr>)"

definition entries :: "string \<Rightarrow> disk \<Rightarrow> string list" where
  "entries k d = filter (\<lambda>q. q \<noteq> k \<and> path_Dir q = k) (map fst (d_files d) @ d_dirs d)"

definition delete_key :: "'k \<Rightarrow> ('k \<times> 'v) list \<Rightarrow> ('k \<times> 'v) list" where
  "delete_key k xs = filter (\<lambda>kv. fst kv \<noteq> k) xs"

definition os_Remove :: "os_env \<Rightarrow> string \<Rightarrow> disk \<Rightarrow> error option \<times> disk" where
  "os_Remove os path d =
     (case os_call os path d of
        (Some e, d1) \<Rightarrow> (Some e, d1)
      | (None, d1) \<Rightarrow>
          (let k = path_Clean path
           in if map_of (d_files d1) k \<noteq> None then (None, d1\<lparr>d_files := delete_key k (d_files d1)\<rparr>)
              else if k \<in> set (d_dirs d1) then
                (if entries k d1 = [] then (None, d1\<lparr>d_dirs := removeAll k (d_dirs d1)\<rparr>)
                 else (Some not_empty, d1))
              else (Some no_entry, d1)))"

text \<open>Opening for writing, with or without truncation; both create the file.\<close>

definition os_OpenFile :: "os_env \<Rightarrow> bool \<Rightarrow> string \<Rightarrow> disk \<Rightarrow> error option \<times> disk" where
  "os_OpenFile os trunc path d =
     (case os_call os path d of
        (Some e, d1) \<Rightarrow> (Some e, d1)
      | (None, d1) \<Rightarrow>
          (let k = path_Clean path
           in if k \<in> set (d_dirs d1) then (Some is_directory, d1)
              else (case map_of (d_files d1) k of
                  Some old \<Rightarrow> (None, if trunc then d1\<lparr>d_files := put k '''' (d_files d1)\<rparr> else d1)
                | None \<Rightarrow>
                    (if path_Dir k \<in> set (d_dirs d1) then (None, d1\<lparr>d_files := put k '''' (d_files d1)\<rparr>)
                     else (Some no_entry, d1)))))"

definition file_content :: "string \<Rightarrow> disk \<Rightarrow> bytes" where
  "file_content path d = (case map_of (d_files d) (path_Clean path) of None \<Rightarrow> '''' | Some b \<Rightarrow> b)"

text \<open>Writing from the start of the file keeps what lies behind the new content.\<close>

definition os_Write :: "os_env \<Rightarrow> string \<Rightarrow> bytes \<Rightarrow> disk \<Rightarrow> error option \<times> disk" where
  "os_Write os path b d =
     (case os_call os path d of
        (Some e, d1) \<Rightarrow> (Some e, d1)
      | (None, d1) \<Rightarrow>
          (None, d1\<lparr>d_files := put (path_Clean path) (b @ drop (length b) (file_content path d1)) (d_files d1)\<rparr>))"

definition os_Open :: "os_env \<Rightarrow> string \<Rightarrow> disk \<Rightarrow> error option \<times> disk" where
  "os_Open os path d =
     (case os_call os path d of
        (Some e, d1) \<Rightarrow> (Some e, d1)
      | (None, d1) \<Rightarrow>
          (if map_of (d_files d1) (path_Clean path) \<noteq> None \<or> path_Clean path \<in> set (d_dirs d1)
           then (None, d1) else (Some no_entry, d1)))"

definition os_Stat :: "os_env \<Rightarrow> string \<Rightarrow> disk \<Rightarrow> (error + nat) \<times> disk" where
  "os_Stat os path d =
     (case os_Open os path d of
        (Some e, d1) \<Rightarrow> (Inl e, d1)
      | (None, d1) \<Rightarrow> (Inr (length (file_content path d1)), d1))"

text \<open>A read into a buffer of the given size: the number of bytes read, with the bytes.\<close>

definition os_Read :: "os_env \<Rightarrow> string \<Rightarrow> nat \<Rightarrow> disk \<Rightarrow> (error + bytes) \<times> disk" where
  "os_Read os path n d =
     (case os_call os path d of
        (Some e, d1) \<Rightarrow> (Inl e, d1)
      | (None, d1) \<Rightarrow> (Inr (take (min n (os_reads os (d_tick d) n)) (file_content path d1)), d1))"

text \<open>\<open>Readdirnames(1)\<close>: one name, or the end of the directory.\<close>

definition os_Readdirnames :: "os_env \<Rightarrow> string \<Rightarrow> disk \<Rightarrow> (error + string) \<times> disk" where
  "os_Readdirnames os path d =
     (case os_call os path d of
        (Some e, d1) \<Rightarrow> (Inl e, d1)
      | (None, d1) \<Rightarrow>
          (if path_Clean path \<notin> set (d_dirs d1) then (Inl (ErrText ''not a directory''), d1)
           else (case entries (path_Clean path) d1 of
               [] \<Rightarrow> (Inl end_of_file, d1)
             | q # qs \<Rightarrow> (Inr (path_Base q), d1))))"

section \<open>deleteFileOnDisk\<close>

definition upload_dir :: string where "upload_dir = ''./tempUploadFiles''"

lemma upload_dir_length: "length upload_dir = 17"
  by (simp add: upload_dir_def)

text \<open>The directories above a path, nearest first, while their names are longer than the upload directory's.\<close>

function dirs_above :: "string \<Rightarrow> string list" where
  "dirs_above dir =
     (if dir \<noteq> upload_dir \<and> length upload_dir < length dir then dir # dirs_above (path_Dir dir) else [])"
  by pat_completeness auto
termination
  by (relation "measure length") (use path_Dir_shorter in \<open>auto simp: upload_dir_length\<close>)

declare dirs_above.simps [simp del]

definition remove_if_empty :: "os_env \<Rightarrow> string \<Rightarrow> disk \<Rightarrow> disk" where
  "remove_if_empty os dir d =
     (case os_Open os dir d of
        (Some e, d1) \<Rightarrow> d1
      | (None, d1) \<Rightarrow>
          (case os_Readdirnames os dir d1 of
             (Inl e, d2) \<Rightarrow> (if e = end_of_file then snd (os_Remove os dir d2) else d2)
           | (Inr name, d2) \<Rightarrow> d2))"

definition deleteFileOnDisk :: "os_env \<Rightarrow> string \<Rightarrow> disk \<Rightarrow> disk" where
  "deleteFileOnDisk os localPath d =
     fold (remove_if_empty os) (rev (sort (dirs_above (path_Dir localPath)))) (snd (os_Remove os localPath d))"

section \<open>UploadFile and DownloadFile\<close>

text \<open>Running a call on the outside world while the disk stays as it is.\<close>

definition on_world :: "('w \<Rightarrow> 'a outcome \<times> 'w) \<Rightarrow> disk \<times> 'w \<Rightarrow> 'a outcome \<times> (disk \<times> 'w)" where
  "on_world f s = (case f (snd s) of (r, w) \<Rightarrow> (r, (fst s, w)))"

text \<open>\<open>http.DetectContentType(buf) == "application/pdf"\<close>.\<close>

definition is_pdf :: "bytes \<Rightarrow> bool" where
  "is_pdf buf = starts_with ''%PDF-'' buf"

definition upload_path :: "string \<Rightarrow> string" where
  "upload_path i = ''./tempUploadFiles/'' @ i @ ''.pdf''"

definition download_path :: "string \<Rightarrow> string" where
  "download_path i = ''../files/'' @ i @ ''.pdf''"

text \<open>After the file is on the ledger its certificate is read back and posted again.\<close>

definition refresh_certificate :: "'w fabric_setup \<Rightarrow> string \<Rightarrow> string \<Rightarrow> 'w \<Rightarrow> string reply outcome \<times> 'w" where
  "refresh_certificate setup i txid w =
     and_then (CertificateOut setup [''certId'' \<mapsto> i] w) (\<lambda>out w1.
       (case out of
          (Some certificate, None, _) \<Rightarrow>
            and_then (CertificateIn setup (marshal_cert (certificate\<lparr>hasUpload := True\<rparr>)) w1) (\<lambda>res w2.
              (case res of
                 (_, Some e, _) \<Rightarrow> (Ret (None, Some e, 501), w2)
               | (_, None, _) \<Rightarrow> (Ret (Some txid, None, 200), w2)))
        | _ \<Rightarrow> (Ret (Some txid, None, 200), w1)))"

text \<open>What happens once the uploaded bytes have been read back from the disk.\<close>

definition upload_bytes :: "'w fabric_setup \<Rightarrow> string \<Rightarrow> bytes \<Rightarrow> 'w \<Rightarrow> string reply outcome \<times> 'w" where
  "upload_bytes setup i buf w =
     (if \<not> is_pdf buf then (Ret (None, None, 400), w)
      else and_then
        (Execute setup (''postUploadFileEvent'' @ i) ''postUploadFile''
           [marshal_file \<lparr>fs_certId = i, fs_certFile = Some buf, fs_fileName = ''''\<rparr>] w)
        (\<lambda>res w1.
          (case res of
             Inl e \<Rightarrow> (Ret (None, Some e, 501), w1)
           | Inr txid \<Rightarrow> refresh_certificate setup i txid w1)))"

text \<open>
  The request's file is the bytes its reader gives and the error it then reports, if any.
\<close>

definition UploadFile ::
    "os_env \<Rightarrow> 'w fabric_setup \<Rightarrow> string \<Rightarrow> bytes \<times> error option \<Rightarrow> disk \<times> 'w \<Rightarrow> string reply outcome \<times> (disk \<times> 'w)" where
  "UploadFile os setup i upload s =
     (let path = upload_path i; w = snd s; d = deleteFileOnDisk os path (fst s)
      in case os_OpenFile os False path d of
        (Some e, d1) \<Rightarrow> (Ret (None, Some e, 500), (d1, w))
      | (None, d1) \<Rightarrow>
          (case os_Write os path (fst upload) d1 of
             (Some e, d2) \<Rightarrow> (Ret (None, Some e, 500), (d2, w))
           | (None, d2) \<Rightarrow>
               (if snd upload \<noteq> None then (Ret (None, snd upload, 500), (d2, w))
                else (case os_Open os path d2 of
                  (Some e, d3) \<Rightarrow> (Ret (None, Some e, 501), (d3, w))
                | (None, d3) \<Rightarrow>
                    (case os_Stat os path d3 of
                       (Inl e, d4) \<Rightarrow> (Ret (None, Some e, 501), (d4, w))
                     | (Inr fileSize, d4) \<Rightarrow>
                         (case os_Read os path fileSize d4 of
                            (Inl e, d5) \<Rightarrow> (Ret (None, Some e, 501), (d5, w))
                          | (Inr b, d5) \<Rightarrow>
                              (if length b = fileSize then on_world (upload_bytes setup i b) (d5, w)
                               else (Ret (None, None, 501), (d5, w)))))))))"

text \<open>
  The result of a download: the escaped file name, its size in decimal, the path of the open
  file, if any, the error and the status.
\<close>

type_synonym download = "string \<times> string \<times> string option \<times> error option \<times> nat"

definition write_download :: "os_env \<Rightarrow> string \<Rightarrow> bytes option \<Rightarrow> disk \<Rightarrow> download \<times> disk" where
  "write_download os path content d0 =
     (let d = deleteFileOnDisk os path d0
      in case os_OpenFile os True path d of
        (Some e, d1) \<Rightarrow> (('''', '''', None, Some e, 501), d1)
      | (None, d1) \<Rightarrow>
          (case os_Write os path (case content of None \<Rightarrow> '''' | Some b \<Rightarrow> b) d1 of
             (Some e, d2) \<Rightarrow> (('''', '''', None, Some e, 501), d2)
           | (None, d2) \<Rightarrow>
               (case os_Open os path d2 of
                  (Some e, d3) \<Rightarrow> (('''', '''', None, Some e, 500), d3)
                | (None, d3) \<Rightarrow>
                    (case os_Stat os path d3 of
                       (Inl e, d4) \<Rightarrow> (('''', '''', None, Some e, 500), d4)
                     | (Inr fileSize, d4) \<Rightarrow>
                         ((query_escape (path_Base path), itoa (int fileSize), Some path, None, 200), d4)))))"

definition DownloadFile ::
    "os_env \<Rightarrow> 'w fabric_setup \<Rightarrow> (string \<rightharpoonup> string) \<Rightarrow> disk \<times> 'w \<Rightarrow> download outcome \<times> (disk \<times> 'w)" where
  "DownloadFile os setup param s =
     and_then (on_world (Query setup ''getDownloadFile'' [lookup_param param ''certId'']) s) (\<lambda>response s1.
       (case response of
          Inl e \<Rightarrow> (Ret ('''', '''', None, Some e, 400), s1)
        | Inr r \<Rightarrow>
            (if r = '''' then (Ret ('''', '''', None, None, 404), s1)
             else (case unmarshal_file r of
                 (fs, Some e) \<Rightarrow> (Ret ('''', '''', None, Some e, 501), s1)
               | (fs, None) \<Rightarrow>
                   (case write_download os (download_path (lookup_param param ''certId'')) (fs_certFile fs) (fst s1) of
                      (res, d) \<Rightarrow> (Ret res, (d, snd s1)))))))"

section \<open>Which paths an operation touches\<close>

definition only_path :: "string \<Rightarrow> disk \<Rightarrow> disk \<Rightarrow> bool" where
  "only_path k d d' \<longleftrightarrow>
     (\<forall>q. q \<noteq> k \<longrightarrow> map_of (d_files d') q = map_of (d_files d) q \<and> (q \<in> set (d_dirs d') \<longleftrightarrow> q \<in> set (d_dirs d)))"

lemma only_path_refl [simp]: "only_path k d d"
  by (simp add: only_path_def)

lemma only_path_trans: "only_path k d d1 \<Longrightarrow> only_path k d1 d2 \<Longrightarrow> only_path k d d2"
  by (simp add: only_path_def)

lemma map_of_delete_key: "map_of (delete_key k xs) q = (if q = k then None else map_of xs q)"
  by (induction xs) (auto simp: delete_key_def)

lemma os_call_only: "only_path k d (snd (os_call os path d))"
  by (simp add: os_call_def only_path_def)

lemma os_call_disk: "os_call os path d = (r, d1) \<Longrightarrow> d1 = d\<lparr>d_tick := d_tick d + 1\<rparr>"
  by (simp add: os_call_def)

lemma os_only:
  "only_path (path_Clean path) d (snd (os_Remove os path d))"
  "only_path (path_Clean path) d (snd (os_OpenFile os trunc path d))"
  "only_path (path_Clean path) d (snd (os_Write os path b d))"
  "only_path k d (snd (os_Open os path d))"
  "only_path k d (snd (os_Stat os path d))"
  "only_path k d (snd (os_Read os path n d))"
  by (auto simp: os_Remove_def os_OpenFile_def os_Write_def os_Open_def os_Stat_def os_Read_def only_path_def
      map_of_delete_key Let_def dest!: os_call_disk split: prod.splits option.splits if_splits)

lemma os_only_eq:
  "os_OpenFile os trunc path d = (r, d1) \<Longrightarrow> only_path (path_Clean path) d d1"
  "os_Write os path b d = (r1, d1) \<Longrightarrow> only_path (path_Clean path) d d1"
  "os_Open os path d = (r2, d1) \<Longrightarrow> only_path k d d1"
  "os_Stat os path d = (r3, d1) \<Longrightarrow> only_path k d d1"
  "os_Read os path n d = (r4, d1) \<Longrightarrow> only_path k d d1"
  by (metis os_only snd_conv)+

text \<open>For an identifier without a slash, deleting goes no further than the file itself.\<close>

lemma clean_two:
  assumes "CHR ''/'' \<notin> set d" "CHR ''/'' \<notin> set f" "d \<noteq> []" "d \<noteq> dot" "f \<noteq> []" "f \<noteq> dot" "f \<noteq> dot_dot"
  shows "d \<noteq> dot_dot \<Longrightarrow> path_Clean (''./'' @ d @ ''/'' @ f) = d @ ''/'' @ f"
    and "d = dot_dot \<Longrightarrow> path_Clean (d @ ''/'' @ f) = d @ ''/'' @ f"
proof -
  have f: "split_slash f = [f]" by (rule split_slash_single [OF assms(2)])
  have d: "split_slash (d @ CHR ''/'' # f) = [d, f]"
    using split_slash_append [of d f] f split_slash_single [OF assms(1)] by simp
  show "path_Clean (''./'' @ d @ ''/'' @ f) = d @ ''/'' @ f" if "d \<noteq> dot_dot"
    using that assms d by (simp add: path_Clean_def Let_def dot_def)
  show "path_Clean (d @ ''/'' @ f) = d @ ''/'' @ f" if "d = dot_dot"
    using that assms d by (simp add: path_Clean_def Let_def dot_def dot_dot_def)
qed

lemma upload_path_clean:
  assumes "CHR ''/'' \<notin> set i"
  shows "path_Clean (upload_path i) = ''tempUploadFiles/'' @ i @ ''.pdf''"
  using clean_two(1) [of "''tempUploadFiles''" "i @ ''.pdf''"] assms
  by (auto simp: upload_path_def dot_def dot_dot_def Cons_eq_append_conv append_eq_Cons_conv)

lemma path_Dir_append:
  assumes "CHR ''/'' \<notin> set f"
  shows "path_Dir (d @ ''/'' @ f) = path_Clean (d @ ''/'')"
proof -
  have "takeWhile (\<lambda>c. c \<noteq> CHR ''/'') (rev (d @ ''/'' @ f)) = rev f"
    using assms by (simp add: takeWhile_append)
  then have "path_Split (d @ ''/'' @ f) = (d @ ''/'', f)" by (simp add: path_Split_def)
  then show ?thesis by (simp add: path_Dir_def)
qed

lemma upload_dirs_above: "CHR ''/'' \<notin> set i \<Longrightarrow> dirs_above (path_Dir (upload_path i)) = []"
  using path_Dir_append [of "i @ ''.pdf''" "''./tempUploadFiles''"]
  by (simp add: upload_path_def dirs_above.simps upload_dir_def path_Clean_def Let_def dot_def dot_dot_def)

lemma deleteFile_only:
  assumes "CHR ''/'' \<notin> set i"
  shows "only_path (path_Clean (upload_path i)) d (deleteFileOnDisk os (upload_path i) d)"
  by (simp add: deleteFileOnDisk_def upload_dirs_above [OF assms] os_only(1))

lemma UploadFile_only_path:
  assumes "CHR ''/'' \<notin> set i" "UploadFile os setup i upload (d, w) = (r, (d', w'))"
  shows "only_path (''tempUploadFiles/'' @ i @ ''.pdf'') d d'"
proof -
  let ?k = "path_Clean (upload_path i)" and ?d = "deleteFileOnDisk os (upload_path i) d"
  have start: "only_path ?k d ?d" by (rule deleteFile_only [OF assms(1)])
  have "only_path ?k ?d d'"
    using assms(2)
    by (auto simp: UploadFile_def Let_def on_world_def split: prod.splits option.splits sum.splits if_splits
        dest!: os_only_eq(1,2) os_only_eq(3-5) [where k = ?k] intro: only_path_trans)
       (meson only_path_trans)+
  with start upload_path_clean [OF assms(1)] show ?thesis using only_path_trans by metis
qed

section \<open>What an upload does to the ledger\<close>

definition file_record :: "string \<Rightarrow> bytes \<Rightarrow> file_struct" where
  "file_record i buf = \<lparr>fs_certId = i, fs_certFile = Some buf, fs_fileName = ''''\<rparr>"

lemma file_record_ok [simp]: "file_ok (file_record i buf) \<longleftrightarrow> utf8_valid i"
  by (simp add: file_ok_def file_record_def)

lemma file_record_fields [simp]:
  "fs_certId (file_record i buf) = i" "fs_certFile (file_record i buf) = Some buf"
  by (simp_all add: file_record_def)

text \<open>Posting a marshalled file writes it under its identifier, or nothing.\<close>

lemma post_file_marshalled:
  assumes "utf8_valid i"
  obtains "snd (transact p [''postUploadFile'', marshal_file (file_record i buf)] l) = l"
    "\<And>r. fst (transact p [''postUploadFile'', marshal_file (file_record i buf)] l) \<noteq> Ret (Success r)"
  | "id_ok i" "transact p [''postUploadFile'', marshal_file (file_record i buf)] l
       = (Ret (Success []), put (file_key i) (marshal_file (file_record i buf)) l)"
proof (cases "id_ok i \<and> refuse_put p (file_key i) = None")
  case True
  then show thesis
    by (intro that(2)) (simp_all add: transact_post_file cc_file_roundtrip assms id_ok_def)
next
  case False
  then show thesis
    by (intro that(1)) (auto simp: transact_post_file cc_file_roundtrip assms id_ok_def file_record_def file_ok_def
        split: option.splits)
qed

lemma file_entry_marshalled:
  "utf8_valid i \<Longrightarrow> id_ok i \<Longrightarrow> file_entry (file_key i) (marshal_file (file_record i buf))"
  using cc_file_roundtrip [of "file_record i buf"] by (auto simp: file_entry_def file_record_def file_ok_def)

text \<open>The relation between the ledgers before and after an upload under an identifier.\<close>

definition uploads_only :: "string \<Rightarrow> ledger \<Rightarrow> ledger \<Rightarrow> bool" where
  "uploads_only i l l' \<longleftrightarrow>
     (app_ok l \<longrightarrow> app_ok l') \<and>
     (\<forall>j. j \<noteq> i \<longrightarrow> abs_files l' j = abs_files l j \<and> abs_certs l' j = abs_certs l j)"

lemma uploads_only_trans: "uploads_only i l l' \<Longrightarrow> uploads_only i l' l'' \<Longrightarrow> uploads_only i l l''"
  by (simp add: uploads_only_def)

lemma uploads_only_refl [simp]: "uploads_only i l l"
  by (simp add: uploads_only_def)

lemma touches_uploads: "touches_only i l l' \<Longrightarrow> uploads_only i l l'"
  by (simp add: touches_only_def uploads_only_def)

lemma post_file_uploads:
  assumes "utf8_valid i"
  shows "uploads_only i l (snd (transact p [''postUploadFile'', marshal_file (file_record i buf)] l))"
proof (cases rule: post_file_marshalled [OF assms, of p buf l])
  case 2
  then show ?thesis
    using app_ok_put_file file_entry_marshalled [OF assms] by (simp add: uploads_only_def abs_put_files)
qed simp

context ledger_client
begin

lemma refresh_returns:
  assumes "app_ok (ledger_of w)"
  obtains v e code w' where "refresh_certificate fab i txid w = (Ret (v, e, code), w')"
    "touches_only i (ledger_of w) (ledger_of w')"
    "code = 200 \<and> v = Some txid \<and> e = None \<or> code = 501 \<and> v = None \<and> e \<noteq> None"
proof -
  have l: "ledger_ok (ledger_of w)" using assms app_ok_ledger by blast
  from l show thesis
  proof (cases rule: CertificateOut_cases [of w "[''certId'' \<mapsto> i]"])
    case (found c t w1)
    define c' where "c' = c\<lparr>updateDate := format_date t, hasUpload := True\<rparr>"
    have "utf8_valid (format_date t)"
      using format_prc_ascii [of t] utf8_valid_asciis by (simp add: format_prc_def)
    then have "cert_ok c'" using found by (simp add: c'_def cert_ok_def)
    then have u: "unmarshal_cert (marshal_cert c') = (c', None)" by (rule cert_roundtrip)
    have i: "certId c' = i" using found by (simp add: c'_def lookup_param_def)
    obtain r w2 where run: "CertificateIn fab (marshal_cert c') w1 = (Ret r, w2)"
      using CertificateIn_returns [of "marshal_cert c'" w1]
      by (cases "CertificateIn fab (marshal_cert c') w1"; cases "fst (CertificateIn fab (marshal_cert c') w1)") auto
    have "touches_only i (ledger_of w) (ledger_of w2)"
      using CertificateIn_touches [OF u, of w1] run found i by simp
    with run found that show thesis
      by (cases r; cases "fst (snd r)") (auto simp: refresh_certificate_def c'_def)
  qed (use that in \<open>auto simp: refresh_certificate_def\<close>)
qed

text \<open>The ways \<open>upload_bytes\<close> ends.\<close>

lemma upload_bytes_cases:
  assumes "app_ok (ledger_of w)" "utf8_valid i"
  obtains (rejected) "\<not> is_pdf buf" "upload_bytes fab i buf w = (Ret (None, None, 400), w)"
  | (failed) e w' where "is_pdf buf" "upload_bytes fab i buf w = (Ret (None, Some e, 501), w')"
      "uploads_only i (ledger_of w) (ledger_of w')"
  | (stored) txid w' where "is_pdf buf" "upload_bytes fab i buf w = (Ret (Some txid, None, 200), w')"
      "uploads_only i (ledger_of w) (ledger_of w')" "id_ok i"
      "abs_files (ledger_of w') i = Some (marshal_file (file_record i buf))"
proof (cases "is_pdf buf")
  case False
  with that(1) show thesis by (simp add: upload_bytes_def)
next
  case True
  let ?args = "[marshal_file (file_record i buf)]"
  have run: "upload_bytes fab i buf w =
      and_then (Execute fab (''postUploadFileEvent'' @ i) ''postUploadFile'' ?args w)
        (\<lambda>res w1. case res of Inl e \<Rightarrow> (Ret (None, Some e, 501), w1)
                  | Inr txid \<Rightarrow> refresh_certificate fab i txid w1)"
    using True by (simp add: upload_bytes_def file_record_def)
  show thesis
  proof (cases rule: execute_cases [of "''postUploadFileEvent'' @ i" "''postUploadFile''" ?args w])
    case (err e w')
    then have "uploads_only i (ledger_of w) (ledger_of w')"
      using post_file_uploads [OF assms(2), of "ledger_of w" _ buf] by auto
    with True err run that(2) show thesis by simp
  next
    case (ok txid w1 p r)
    then have tr: "ledger_of w1 = snd (transact p [''postUploadFile'', marshal_file (file_record i buf)] (ledger_of w))"
      by simp
    have here: "id_ok i \<and> abs_files (ledger_of w1) i = Some (marshal_file (file_record i buf))"
      using ok tr by (cases rule: post_file_marshalled [OF assms(2), of p buf "ledger_of w"])
        (auto simp: abs_put_files)
    have up: "uploads_only i (ledger_of w) (ledger_of w1)"
      using post_file_uploads [OF assms(2), of "ledger_of w" p buf] tr by simp
    with assms(1) have "app_ok (ledger_of w1)" by (simp add: uploads_only_def)
    then obtain v e code w2 where r: "refresh_certificate fab i txid w1 = (Ret (v, e, code), w2)"
      "touches_only i (ledger_of w1) (ledger_of w2)"
      "code = 200 \<and> v = Some txid \<and> e = None \<or> code = 501 \<and> v = None \<and> e \<noteq> None"
      by (rule refresh_returns [of w1 i txid])
    have both: "uploads_only i (ledger_of w) (ledger_of w2)"
      using up touches_uploads [OF r(2)] by (rule uploads_only_trans)
    have stays: "abs_files (ledger_of w2) i = Some (marshal_file (file_record i buf))"
      using here r(2) by (simp add: touches_only_def)
    show thesis
      using r(3)
    proof
      assume "code = 200 \<and> v = Some txid \<and> e = None"
      with r ok run True here both stays that(3) [of txid w2] show thesis by simp
    next
      assume "code = 501 \<and> v = None \<and> e \<noteq> None"
      with r ok run True both that(2) [of _ w2] show thesis by auto
    qed
  qed
qed

end

section \<open>A disk on which everything works\<close>

definition quiet :: "os_env \<Rightarrow> bool" where
  "quiet os \<longleftrightarrow> (\<forall>t n. os_fault os t = None \<and> n \<le> os_reads os t n)"

text \<open>The directory of a path exists and the path is not one.\<close>

definition writable :: "string \<Rightarrow> disk \<Rightarrow> bool" where
  "writable path d \<longleftrightarrow> path_Dir (path_Clean path) \<in> set (d_dirs d) \<and> path_Clean path \<notin> set (d_dirs d)
     \<and> CHR 0x00 \<notin> set path \<and> dirs_above (path_Dir path) = []"

lemma quiet_call: "quiet os \<Longrightarrow> CHR 0x00 \<notin> set path \<Longrightarrow> os_call os path d = (None, d\<lparr>d_tick := d_tick d + 1\<rparr>)"
  by (simp add: os_call_def quiet_def)

text \<open>Deleting, creating and writing a file leaves exactly the bytes written.\<close>

lemma quiet_write:
  assumes "quiet os" "writable path d"
  obtains d1 d2 where "os_OpenFile os trunc path (deleteFileOnDisk os path d) = (None, d1)"
    "os_Write os path b d1 = (None, d2)" "map_of (d_files d2) (path_Clean path) = Some b"
proof -
  let ?k = "path_Clean path"
  have w: "?k \<notin> set (d_dirs d)" "path_Dir ?k \<in> set (d_dirs d)" "CHR 0x00 \<notin> set path" "dirs_above (path_Dir path) = []"
    using assms(2) by (simp_all add: writable_def)
  let ?d0 = "deleteFileOnDisk os path d"
  have d0: "map_of (d_files ?d0) ?k = None" "d_dirs ?d0 = d_dirs d"
    using w quiet_call [OF assms(1) w(3)]
    by (auto simp: deleteFileOnDisk_def os_Remove_def Let_def map_of_delete_key)
  then have "os_OpenFile os trunc path ?d0 = (None, ?d0\<lparr>d_tick := d_tick ?d0 + 1, d_files := put ?k '''' (d_files ?d0)\<rparr>)"
    using w quiet_call [OF assms(1) w(3)] by (simp add: os_OpenFile_def Let_def)
  moreover have "os_Write os path b (?d0\<lparr>d_tick := d_tick ?d0 + 1, d_files := put ?k '''' (d_files ?d0)\<rparr>)
      = (None, ?d0\<lparr>d_tick := d_tick ?d0 + 2, d_files := put ?k b (put ?k '''' (d_files ?d0))\<rparr>)"
    using quiet_call [OF assms(1) w(3)] by (simp add: os_Write_def file_content_def)
  ultimately show thesis using that by simp
qed

lemma quiet_read_back:
  assumes "quiet os" "CHR 0x00 \<notin> set path" "map_of (d_files d) (path_Clean path) = Some b"
  obtains d1 d2 d3 where "os_Open os path d = (None, d1)" "os_Stat os path d1 = (Inr (length b), d2)"
    "os_Read os path (length b) d2 = (Inr b, d3)"
    "file_content path d1 = b" "file_content path d2 = b"
  using assms quiet_call [OF assms(1,2)]
  by (simp add: os_Open_def os_Stat_def os_Read_def file_content_def quiet_def)

lemma quiet_UploadFile:
  assumes "quiet os" "writable (upload_path i) d" "snd upload = None"
  obtains d' where "UploadFile os setup i upload (d, w) = on_world (upload_bytes setup i (fst upload)) (d', w)"
proof -
  obtain d1 d2 where o: "os_OpenFile os False (upload_path i) (deleteFileOnDisk os (upload_path i) d) = (None, d1)"
    "os_Write os (upload_path i) (fst upload) d1 = (None, d2)"
    "map_of (d_files d2) (path_Clean (upload_path i)) = Some (fst upload)"
    by (rule quiet_write [OF assms(1,2)])
  have z: "CHR 0x00 \<notin> set (upload_path i)" using assms(2) by (simp add: writable_def)
  obtain d3 d4 d5 where r: "os_Open os (upload_path i) d2 = (None, d3)"
    "os_Stat os (upload_path i) d3 = (Inr (length (fst upload)), d4)"
    "os_Read os (upload_path i) (length (fst upload)) d4 = (Inr (fst upload), d5)"
    using quiet_read_back [OF assms(1) z o(3)] by metis
  from o r assms(3) that show thesis by (simp add: UploadFile_def Let_def)
qed

lemma quiet_write_download:
  assumes "quiet os" "writable path d"
  obtains d' where "write_download os path (Some b) d =
      ((query_escape (path_Base path), itoa (int (length b)), Some path, None, 200), d')"
    "file_content path d' = b"
proof -
  obtain d1 d2 where o: "os_OpenFile os True path (deleteFileOnDisk os path d) = (None, d1)"
    "os_Write os path b d1 = (None, d2)" "map_of (d_files d2) (path_Clean path) = Some b"
    by (rule quiet_write [OF assms])
  have z: "CHR 0x00 \<notin> set path" using assms(2) by (simp add: writable_def)
  obtain d3 d4 where r: "os_Open os path d2 = (None, d3)" "os_Stat os path d3 = (Inr (length b), d4)"
    "file_content path d4 = b"
    using quiet_read_back [OF assms(1) z o(3)] by metis
  from o r that show thesis by (simp add: write_download_def Let_def)
qed

section \<open>On a healthy network\<close>

lemma plain_utf8: "plain_text i \<Longrightarrow> utf8_valid i"
  using plain_id_ok id_ok_utf8 by blast

lemma healthy_post_file:
  assumes "healthy env" "plain_text i"
  obtains txid n' where
    "Execute (connected env) (''postUploadFileEvent'' @ i) ''postUploadFile'' [marshal_file (file_record i buf)] n = (Ret (Inr txid), n')"
    "net_ledger n' = put (file_key i) (marshal_file (file_record i buf)) (net_ledger n)"
proof -
  note ok = plain_id_ok [OF assms(2)] plain_utf8 [OF assms(2)]
  have tr: "transact p [''postUploadFile'', marshal_file (file_record i buf)] l
      = (Ret (Success []), put (file_key i) (marshal_file (file_record i buf)) l)" if "peer_ok p" for p l
    using that ok by (simp add: transact_post_file cc_file_roundtrip id_ok_def peer_ok_def)
  have ev: "emitted (snd (Invoke p [''postUploadFile'', marshal_file (file_record i buf)] (new_stub l))) = [''postUploadFileEvent'' @ i]"
    if "peer_ok p" for p l
    using that ok by (simp add: postUploadFile_cc_def cc_file_roundtrip create_file_key id_ok_def peer_ok_def PutState_def
        SetEvent_def new_stub_def emitted_def)
  show thesis
  proof (rule healthy_execute [OF assms(1), of "''postUploadFileEvent'' @ i" "''postUploadFile''" "[marshal_file (file_record i buf)]" n])
    show "plain_text (''postUploadFileEvent'' @ i)"
      using assms(2) by (simp add: unreserved_def is_digit_def in_range_def)
    show "fst (transact p [''postUploadFile'', marshal_file (file_record i buf)] (net_ledger n)) = Ret (Success [])" if "peer_ok p" for p
      using tr [OF that] by simp
    show "emitted (snd (Invoke p [''postUploadFile'', marshal_file (file_record i buf)] (new_stub (net_ledger n)))) = [''postUploadFileEvent'' @ i]"
      if "peer_ok p" for p
      using ev [OF that] by simp
  next
    fix txid n' p
    assume "Execute (connected env) (''postUploadFileEvent'' @ i) ''postUploadFile'' [marshal_file (file_record i buf)] n = (Ret (Inr txid), n')"
      "peer_ok p" "net_ledger n' = snd (transact p [''postUploadFile'', marshal_file (file_record i buf)] (net_ledger n))"
    with that tr show thesis by simp
  qed
qed

lemma healthy_refresh:
  assumes "healthy env" "plain_text i" "app_ok (net_ledger n)"
    and "abs_files (net_ledger n) i = Some (marshal_file (file_record i buf))"
  shows "\<exists>n'. refresh_certificate (connected env) i txid n = (Ret (Some txid, None, 200), n')"
proof -
  have l: "ledger_ok (net_ledger n)" using assms(3) app_ok_ledger by blast
  from l show ?thesis
  proof (cases rule: net.CertificateOut_cases [of n env "[''certId'' \<mapsto> i]"])
    case (unavailable e w')
    note q = healthy_query_cert [OF assms(1) plain_id_ok [OF assms(2)], of n]
    from unavailable show ?thesis
      by (auto simp: CertificateOut_def lookup_param_def q split: prod.splits option.splits if_splits)
  next
    case (absent w')
    then show ?thesis by (simp add: refresh_certificate_def)
  next
    case (found c t n1)
    define c' where "c' = c\<lparr>updateDate := format_date t, hasUpload := True\<rparr>"
    have "utf8_valid (format_date t)"
      using format_prc_ascii [of t] utf8_valid_asciis by (simp add: format_prc_def)
    then have "cert_ok c'" using found by (simp add: c'_def cert_ok_def)
    then have u: "unmarshal_cert (marshal_cert c') = (c', None)" by (rule cert_roundtrip)
    have i: "certId c' = i" using found by (simp add: c'_def lookup_param_def)
    have onfile: "\<exists>v fs. abs_files (net_ledger n1) (certId c') = Some v \<and> v \<noteq> [] \<and> unmarshal_file v = (fs, None)"
      using assms(4) found i file_roundtrip [of "file_record i buf"] plain_utf8 [OF assms(2)]
        stored_file_nonempty [OF l, of i] by auto
    obtain txid' n' where "CertificateIn (connected env) (marshal_cert c') n1 = (Ret (Some txid', None, 200), n')"
      using healthy_CertificateIn [OF assms(1) u, of n1] assms(2) i onfile by auto
    with found show ?thesis by (simp add: refresh_certificate_def c'_def)
  qed
qed

lemma healthy_upload_bytes:
  assumes "healthy env" "plain_text i" "app_ok (net_ledger n)" "is_pdf buf"
  shows "\<exists>txid n'. upload_bytes (connected env) i buf n = (Ret (Some txid, None, 200), n')"
proof -
  obtain txid n1 where x: "Execute (connected env) (''postUploadFileEvent'' @ i) ''postUploadFile'' [marshal_file (file_record i buf)] n = (Ret (Inr txid), n1)"
    "net_ledger n1 = put (file_key i) (marshal_file (file_record i buf)) (net_ledger n)"
    by (rule healthy_post_file [OF assms(1,2)])
  have "app_ok (net_ledger n1)"
    using x(2) app_ok_put_file [OF assms(3)] file_entry_marshalled plain_utf8 [OF assms(2)] plain_id_ok [OF assms(2)] by simp
  moreover have "abs_files (net_ledger n1) i = Some (marshal_file (file_record i buf))"
    using x(2) by (simp add: abs_put_files)
  ultimately obtain n2 where "refresh_certificate (connected env) i txid n1 = (Ret (Some txid, None, 200), n2)"
    using healthy_refresh [OF assms(1,2)] by blast
  with x(1) assms(4) show ?thesis by (simp add: upload_bytes_def file_record_def)
qed

section \<open>Properties\<close>

definition sample_os :: os_env where
  "sample_os = \<lparr>os_fault = \<lambda>_. None, os_reads = \<lambda>_ n. n\<rparr>"

definition sample_disk :: disk where
  "sample_disk = \<lparr>d_files = [], d_dirs = [''tempUploadFiles'', ''../files''], d_tick = 0\<rparr>"

lemma sample_quiet [simp]: "quiet sample_os"
  by (simp add: quiet_def sample_os_def)

lemma sample_plain_id [simp]: "plain_text ''C1''"
  by (simp add: unreserved_def is_digit_def in_range_def)

lemma sample_writable: "writable (upload_path ''C1'') sample_disk" "writable (download_path ''C1'') sample_disk"
proof -
  have u: "path_Clean (upload_path ''C1'') = ''tempUploadFiles/C1.pdf''" "path_Dir (''tempUploadFiles/C1.pdf'') = ''tempUploadFiles''"
    "path_Dir (upload_path ''C1'') = ''tempUploadFiles''"
    by (simp_all add: upload_path_def path_Clean_def path_Dir_def path_Split_def Let_def dot_def dot_dot_def)
  then show "writable (upload_path ''C1'') sample_disk"
    by (simp add: writable_def sample_disk_def dirs_above.simps upload_dir_def) (simp add: upload_path_def)
  have d: "path_Clean (download_path ''C1'') = ''../files/C1.pdf''" "path_Dir (''../files/C1.pdf'') = ''../files''"
    "path_Dir (download_path ''C1'') = ''../files''"
    by (simp_all add: download_path_def path_Clean_def path_Dir_def path_Split_def Let_def dot_def dot_dot_def)
  then show "writable (download_path ''C1'') sample_disk"
    by (simp add: writable_def sample_disk_def dirs_above.simps upload_dir_def) (simp add: download_path_def)
qed



text \<open>
  C14: What is uploaded is what is downloaded. When the disk works, an upload answered with a
  transaction identifier has put exactly the uploaded bytes on the ledger, and a later
  download answers with the size of those bytes and an open file that holds them; its only
  other answer is a failed query.
\<close>

theorem upload_download_roundtrip:
  assumes "app_ok (net_ledger n)" "utf8_valid i" "quiet os" "writable (upload_path i) d" "snd upload = None"
    and "UploadFile os (connected env) i upload (d, n) = (Ret (Some txid, None, 200), (d1, n1))"
    and "writable (download_path i) d2"
  shows "case DownloadFile os (connected env) [''certId'' \<mapsto> i] (d2, n1) of
      (Ret (name, fsize, Some path, err, code), (d3, n3)) \<Rightarrow>
        file_content path d3 = fst upload \<and> fsize = itoa (int (length (fst upload)))
        \<and> name = query_escape (path_Base (download_path i)) \<and> err = None \<and> code = 200 \<and> net_ledger n3 = net_ledger n1
    | (Ret (name, fsize, None, err, code), (d3, n3)) \<Rightarrow> err \<noteq> None \<and> code = 400 \<and> net_ledger n3 = net_ledger n1
    | (Panic m, s') \<Rightarrow> False"
proof -
  let ?v = "marshal_file (file_record i (fst upload))"
  obtain d' where "UploadFile os (connected env) i upload (d, n) = on_world (upload_bytes (connected env) i (fst upload)) (d', n)"
    by (rule quiet_UploadFile [OF assms(3-5)])
  with assms(6) have up: "upload_bytes (connected env) i (fst upload) n = (Ret (Some txid, None, 200), n1)"
    by (auto simp: on_world_def split: prod.splits)
  have stored: "abs_files (net_ledger n1) i = Some ?v \<and> app_ok (net_ledger n1)"
    using assms(1,2)
    by (cases rule: net.upload_bytes_cases [of n i "fst upload" env]) (use up assms(1) in \<open>auto simp: uploads_only_def\<close>)
  then have ne: "?v \<noteq> []" using stored_file_nonempty [of "net_ledger n1" i] by (auto simp: app_ok_ledger)
  have rt: "unmarshal_file ?v = (file_record i (fst upload), None)" by (rule file_roundtrip) (simp add: assms(2))
  obtain d3 where dl: "write_download os (download_path i) (Some (fst upload)) d2 =
      ((query_escape (path_Base (download_path i)), itoa (int (length (fst upload))), Some (download_path i), None, 200), d3)"
    "file_content (download_path i) d3 = fst upload"
    by (rule quiet_write_download [OF assms(3,7)])
  show ?thesis
  proof (cases rule: net.query_cases [of env "''getDownloadFile''" "[i]" n1])
    case (ok payload n3)
    with net.query_file [of env i n1 payload n3] stored have "payload = ?v" by simp
    with ok ne rt dl show ?thesis
      by (simp add: DownloadFile_def on_world_def lookup_param_def)
  next
    case (err e n3)
    then show ?thesis by (simp add: DownloadFile_def on_world_def lookup_param_def)
  qed
qed

lemma upload_download_roundtrip_witness:
  "\<exists>txid d1 n1. UploadFile sample_os (connected sample_env) ''C1'' (''%PDF-1'', None) (sample_disk, sample_net [])
       = (Ret (Some txid, None, 200), (d1, n1))
     \<and> (case DownloadFile sample_os (connected sample_env) [''certId'' \<mapsto> ''C1''] (sample_disk, n1) of
         (Ret (name, fsize, Some path, err, code), (d3, n3)) \<Rightarrow> file_content path d3 = ''%PDF-1'' \<and> fsize = itoa 6
       | (Ret (name, fsize, None, err, code), (d3, n3)) \<Rightarrow> err \<noteq> None \<and> code = 400
       | (Panic m, s') \<Rightarrow> False)"
proof -
  obtain d' where q: "UploadFile sample_os (connected sample_env) ''C1'' (''%PDF-1'', None) (sample_disk, sample_net [])
      = on_world (upload_bytes (connected sample_env) ''C1'' ''%PDF-1'') (d', sample_net [])"
    by (rule quiet_UploadFile [OF sample_quiet sample_writable(1), of "(''%PDF-1'', None)" "connected sample_env" "sample_net []"]) simp_all
  obtain txid n1 where "upload_bytes (connected sample_env) ''C1'' ''%PDF-1'' (sample_net []) = (Ret (Some txid, None, 200), n1)"
    using healthy_upload_bytes [OF sample_healthy sample_plain_id sample_app_ok, of "''%PDF-1''"] by (auto simp: is_pdf_def)
  with q have run: "UploadFile sample_os (connected sample_env) ''C1'' (''%PDF-1'', None) (sample_disk, sample_net [])
      = (Ret (Some txid, None, 200), (d', n1))" by (simp add: on_world_def)
  from upload_download_roundtrip [OF sample_app_ok plain_utf8 [OF sample_plain_id] sample_quiet sample_writable(1) _ run sample_writable(2)] run
  show ?thesis by (auto split: prod.splits outcome.splits option.splits)
qed

text \<open>
  An uploaded file that is not a PDF document is refused with status 400 and a nil
  error, on a working disk, and the ledger stays as it was.
\<close>

lemma upload_refuses_non_pdf:
  assumes "quiet os" "writable (upload_path i) d" "\<not> is_pdf b"
  shows "\<exists>d'. UploadFile os setup i (b, None) (d, w) = (Ret (None, None, 400), (d', w))"
proof -
  obtain d' where "UploadFile os setup i (b, None) (d, w) = on_world (upload_bytes setup i (fst (b, None))) (d', w)"
    by (rule quiet_UploadFile [OF assms(1,2), of "(b, None)" "setup" w]) simp_all
  with assms(3) show ?thesis by (simp add: on_world_def upload_bytes_def)
qed

lemma upload_refuses_non_pdf_witness:
  "\<exists>d'. UploadFile sample_os (connected sample_env) ''C1'' (''PK'', None) (sample_disk, sample_net []) = (Ret (None, None, 400), (d', sample_net []))"
  by (rule upload_refuses_non_pdf [OF sample_quiet sample_writable(1)]) (simp add: is_pdf_def)

text \<open>
  C40: An upload under an identifier without a slash touches one path of the disk only, the
  identifier's own file in the upload directory.
\<close>

theorem upload_stays_in_directory:
  assumes "CHR ''/'' \<notin> set i" "UploadFile os setup i upload (d, w) = (r, (d', w'))"
  shows "only_path (''tempUploadFiles/'' @ i @ ''.pdf'') d d'"
  using assms by (rule UploadFile_only_path)

lemma upload_stays_in_directory_witness:
  "only_path ''tempUploadFiles/C1.pdf'' sample_disk
     (fst (snd (UploadFile sample_os (connected sample_env) ''C1'' (''PK'', None) (sample_disk, sample_net []))))"
  using upload_stays_in_directory [of "''C1''" sample_os "connected sample_env" "(''PK'', None)" sample_disk "sample_net []"
      "fst (UploadFile sample_os (connected sample_env) ''C1'' (''PK'', None) (sample_disk, sample_net []))"
      "fst (snd (UploadFile sample_os (connected sample_env) ''C1'' (''PK'', None) (sample_disk, sample_net [])))"
      "snd (snd (UploadFile sample_os (connected sample_env) ''C1'' (''PK'', None) (sample_disk, sample_net [])))"]
  by simp

text \<open>An identifier with dots and slashes names a file elsewhere.\<close>

lemma upload_path_escapes: "path_Clean (upload_path ''../../etc/x'') = ''../etc/x.pdf''"
  by (simp add: upload_path_def path_Clean_def Let_def dot_def dot_dot_def)

end
