(* ===== verification/RichQuery.thy ===== *)
theory RichQuery
  imports Certificates
begin

text \<open>
  The list queries of app/business/certificateIO.go: the query text built from the client's
  conditions, the paging loop of \<open>CertificateRichQuery\<close> over \<open>getNewBookmarks\<close>, and the
  three lists. The loop may run for ever, so it is a partial function whose value is
  \<open>None\<close> when it does. The lemmas: the text parses to the intended selector, and on a
  database that answers pages of a fixed result the loop ends with the right count and page.
\<close>

section \<open>The query text\<close>

text \<open>Spaces and newlines are removed from every value.\<close>

definition squeeze :: "string \<Rightarrow> string" where
  "squeeze v = remove_char (CHR 0x0A) (remove_char (CHR '' '') v)"

definition editEqString :: "string \<Rightarrow> string \<Rightarrow> string" where
  "editEqString v str =
     (let v = squeeze v in if v \<noteq> '''' then '',{\"'' @ str @ ''\": \"'' @ v @ ''\"}'' else '''')"

definition editCoString :: "string \<Rightarrow> string \<Rightarrow> string \<Rightarrow> string" where
  "editCoString v str comStr =
     (let v = squeeze v
      in if v \<noteq> '''' then '',{\"'' @ str @ ''\": {\"'' @ comStr @ ''\":\"'' @ v @ ''\"}}'' else '''')"

definition query_tail :: string where
  "query_tail = '']},\"sort\": [{\"updateDate\": \"desc\"},{\"certId\": \"desc\"}],\"use_index\": [\"indexSortDoc\",\"indexSort\"]}''"

definition editQueryString :: "string \<Rightarrow> query_conditions \<Rightarrow> string" where
  "editQueryString queryString qc =
     queryString
     @ editEqString (qc_certType qc) ''certType''
     @ editEqString (qc_certId qc) ''certId''
     @ editEqString (qc_entrustOrg qc) ''entrustOrg''
     @ editEqString (qc_instrumentName qc) ''instrumentName''
     @ editCoString (qc_startCreateDate qc) ''updateDate'' ''$gte''
     @ editCoString (qc_endCreateDate qc) ''updateDate'' ''$lte''
     @ editCoString (qc_startCalibDate qc) ''calibrateDate'' ''$gte''
     @ editCoString (qc_endCalibDate qc) ''calibrateDate'' ''$lte''
     @ query_tail"

definition open_head :: string where
  "open_head = ''{\"selector\":{\"$and\":[{\"isOpen\":true},{\"isCompleted\": true},{\"isDeleted\": false}''"

definition deleted_head :: string where
  "deleted_head = ''{\"selector\":{\"$and\":[{\"isDeleted\": true}''"

definition draft_head :: string where
  "draft_head = ''{\"selector\":{\"$and\":[{\"isOpen\":false},{\"isCompleted\": false},{\"isDeleted\": false}''"

section \<open>One page\<close>

fun shorten_dates :: "certificate list \<Rightarrow> certificate list option" where
  "shorten_dates [] = Some []"
| "shorten_dates (c # cs) =
     (if length (updateDate c) < 10 then None
      else map_option (Cons (c\<lparr>updateDate := take 10 (updateDate c)\<rparr>)) (shorten_dates cs))"

text \<open>A nil list with a nil error is what an empty response gives.\<close>

definition getNewBookmarks ::
    "'w fabric_setup \<Rightarrow> string \<Rightarrow> int \<Rightarrow> string \<Rightarrow> 'w \<Rightarrow> list_internal reply outcome \<times> 'w" where
  "getNewBookmarks setup queryString pageSize bookmark w =
     and_then (Query setup ''queryList'' [queryString, itoa pageSize, bookmark] w) (\<lambda>response w1.
       (case response of
          Inl e \<Rightarrow> (Ret (None, Some e, 400), w1)
        | Inr r \<Rightarrow>
            (if r = '''' then (Ret (None, None, 404), w1)
             else (case unmarshal_list_internal r of
                 (listInter, Some e) \<Rightarrow> (Ret (None, Some e, 501), w1)
               | (listInter, None) \<Rightarrow>
                   (case li_certs listInter of
                      None \<Rightarrow> (Ret (Some listInter, None, 200), w1)
                    | Some certs \<Rightarrow>
                        (case shorten_dates certs of
                           None \<Rightarrow> (Panic slice_panic, w1)
                         | Some certs' \<Rightarrow> (Ret (Some (listInter\<lparr>li_certs := Some certs'\<rparr>), None, 200), w1)))))))"

section \<open>The paging loop\<close>

text \<open>
  The loop that collects the bookmarks: it ends with an error and its status, or with the
  bookmarks, or with a panic when a page is a nil list, or not at all.
\<close>

partial_function (option) gather_bookmarks ::
    "'w fabric_setup \<Rightarrow> string \<Rightarrow> int \<Rightarrow> string list \<Rightarrow> string \<Rightarrow> 'w
     \<Rightarrow> (((error \<times> nat) + string list) outcome \<times> 'w) option" where
  "gather_bookmarks setup queryString pageSize bookmarks bookmark w =
     (case getNewBookmarks setup queryString pageSize bookmark w of
        (Panic m, w1) \<Rightarrow> Some (Panic m, w1)
      | (Ret (newList, err, code), w1) \<Rightarrow>
          (case err of
             Some e \<Rightarrow> Some (Ret (Inl (e, code)), w1)
           | None \<Rightarrow>
               (case newList of
                  None \<Rightarrow> Some (Panic nil_dereference, w1)
                | Some l \<Rightarrow>
                    (if last bookmarks \<noteq> li_bookmark l \<and> li_pageCount l \<noteq> 0
                     then gather_bookmarks setup queryString pageSize (bookmarks @ [li_bookmark l]) (li_bookmark l) w1
                     else Some (Ret (Inr bookmarks), w1)))))"

text \<open>The value a query returns: the text of an error, or a list.\<close>

datatype query_value = ErrorValue error | ListValue cert_list

definition page_count :: "list_internal option \<Rightarrow> int outcome" where
  "page_count l = (case l of None \<Rightarrow> Panic nil_dereference | Some l \<Rightarrow> Ret (li_pageCount l))"

definition make_list :: "int \<Rightarrow> int \<Rightarrow> list_internal option \<Rightarrow> query_value reply outcome" where
  "make_list count pageIndex listInter =
     (case listInter of
        None \<Rightarrow> Panic nil_dereference
      | Some l \<Rightarrow> Ret (Some (ListValue \<lparr>cl_count = count, cl_pageIndex = pageIndex, cl_certs = li_certs l\<rparr>), None, 200))"

text \<open>What follows the loop: the page asked for, the last page, and the count from it.\<close>

definition finish_query ::
    "'w fabric_setup \<Rightarrow> string \<Rightarrow> int \<Rightarrow> int \<Rightarrow> string list \<Rightarrow> 'w \<Rightarrow> query_value reply outcome \<times> 'w" where
  "finish_query setup queryString pageSize pageIndex0 bookmarks w =
     (let n = int (length bookmarks);
          pageIndex = (if n < pageIndex0 then n else pageIndex0)
      in and_then (getNewBookmarks setup queryString pageSize (bookmarks ! nat (pageIndex - 1)) w) (\<lambda>r1 w1.
           (case r1 of
              (listInter, Some e, code) \<Rightarrow> (Ret (Some (ErrorValue e), Some e, code), w1)
            | (listInter, None, _) \<Rightarrow>
                and_then (getNewBookmarks setup queryString pageSize (last bookmarks) w1) (\<lambda>r2 w2.
                  (case r2 of
                     (lastInter, Some e, code) \<Rightarrow> (Ret (Some (ErrorValue e), Some e, code), w2)
                   | (lastInter, None, _) \<Rightarrow>
                       and_then (page_count lastInter, w2) (\<lambda>lastPageCount w2.
                         (if lastPageCount = 0 \<and> n > 1 then
                            and_then (getNewBookmarks setup queryString pageSize (bookmarks ! nat (n - 2)) w2) (\<lambda>r3 w3.
                              (case r3 of
                                 (lastInter, Some e, code) \<Rightarrow> (Ret (Some (ErrorValue e), Some e, code), w3)
                               | (lastInter, None, _) \<Rightarrow>
                                   and_then (page_count lastInter, w3) (\<lambda>lastPageCount w3.
                                     (make_list (wrap64 (pageSize * (n - 2) + lastPageCount)) pageIndex listInter, w3))))
                          else (make_list (wrap64 (pageSize * (n - 1) + lastPageCount)) pageIndex listInter, w2))))))))"

definition CertificateRichQuery ::
    "'w fabric_setup \<Rightarrow> query_conditions \<Rightarrow> bool \<Rightarrow> string \<Rightarrow> 'w \<Rightarrow> (query_value reply outcome \<times> 'w) option" where
  "CertificateRichQuery setup qc isLogin queryString w =
     (if \<not> qc_isOpen qc \<and> \<not> isLogin then Some (Ret (None, Some (ErrText ''Should login''), 401), w)
      else if qc_pageIndex qc < 1 then
        Some (Ret (None, Some (ErrText ''PageIndex value should >=1''), 400), w)
      else (case gather_bookmarks setup queryString (qc_pageSize qc) [''''] '''' w of
          None \<Rightarrow> None
        | Some (Panic m, w1) \<Rightarrow> Some (Panic m, w1)
        | Some (Ret (Inl (e, code)), w1) \<Rightarrow> Some (Ret (Some (ErrorValue e), Some e, code), w1)
        | Some (Ret (Inr bookmarks), w1) \<Rightarrow>
            Some (finish_query setup queryString (qc_pageSize qc) (qc_pageIndex qc) bookmarks w1)))"

section \<open>The three lists\<close>

definition OpenListRichQuery ::
    "'w fabric_setup \<Rightarrow> string \<Rightarrow> bool \<Rightarrow> 'w \<Rightarrow> (query_value reply outcome \<times> 'w) option" where
  "OpenListRichQuery setup body isLogin w =
     (case unmarshal_conditions body of
        (qc, Some e) \<Rightarrow> Some (Ret (Some (ErrorValue e), Some e, 400), w)
      | (qc, None) \<Rightarrow>
          (let qc = qc\<lparr>qc_isOpen := True\<rparr>
           in CertificateRichQuery setup qc isLogin (editQueryString open_head qc) w))"

definition DeletedListRichQuery ::
    "'w fabric_setup \<Rightarrow> string \<Rightarrow> bool \<Rightarrow> 'w \<Rightarrow> (query_value reply outcome \<times> 'w) option" where
  "DeletedListRichQuery setup body isLogin w =
     (case unmarshal_conditions body of
        (qc, Some e) \<Rightarrow> Some (Ret (Some (ErrorValue e), Some e, 400), w)
      | (qc, None) \<Rightarrow> CertificateRichQuery setup qc isLogin (editQueryString deleted_head qc) w)"

definition DraftListRichQuery ::
    "'w fabric_setup \<Rightarrow> string \<Rightarrow> bool \<Rightarrow> 'w \<Rightarrow> (query_value reply outcome \<times> 'w) option" where
  "DraftListRichQuery setup body isLogin w =
     (case unmarshal_conditions body of
        (qc, Some e) \<Rightarrow> Some (Ret (Some (ErrorValue e), Some e, 400), w)
      | (qc, None) \<Rightarrow> CertificateRichQuery setup qc isLogin (editQueryString draft_head qc) w)"

section \<open>Paging over a fixed result\<close>

text \<open>The number of pages of \<open>N\<close> rows that \<open>m\<close> rows fill.\<close>

definition pages :: "nat \<Rightarrow> nat \<Rightarrow> nat" where
  "pages N m = (m + N - 1) div N"

lemma pages_0 [simp]: "0 < N \<Longrightarrow> pages N 0 = 0"
  by (simp add: pages_def)

lemma pages_step: "0 < N \<Longrightarrow> 0 < m \<Longrightarrow> pages N m = Suc (pages N (m - N))"
proof -
  assume N: "0 < N" and m: "0 < m"
  show ?thesis
  proof (cases "m \<le> N")
    case True
    have "(m + N - 1) div N = 1"
    proof (rule div_nat_eqI)
      show "N * 1 \<le> m + N - 1" using N m by simp
      show "m + N - 1 < N * Suc 1" using N True by simp
    qed
    moreover have "(m - N + N - 1) div N = 0" using True N by simp
    ultimately show ?thesis by (simp only: pages_def One_nat_def)
  next
    case False
    then have eq: "m + N - 1 = (m - N + N - 1) + N" using N by simp
    have "((m - N + N - 1) + N) div N = (m - N + N - 1) div N + 1"
      by (rule div_add_self2) (use N in simp)
    then show ?thesis by (simp only: pages_def eq Suc_eq_plus1)
  qed
qed

lemma after_page: "(L::nat) - (k + min N (L - k)) = L - k - N"
  by (simp add: min_def)

lemma first_page: "k \<le> (L::nat) \<Longrightarrow> k + min N (L - k) = min L (k + N)"
  by (auto simp: min_def)

lemma pages_bounds: "0 < N \<Longrightarrow> m \<le> pages N m * N \<and> (0 < m \<longrightarrow> (pages N m - 1) * N < m)"
proof (induction m rule: less_induct)
  case (less m)
  show ?case
  proof (cases "m = 0")
    case False
    then have s: "pages N m = Suc (pages N (m - N))" using pages_step less.prems by simp
    have "m - N < m" using False less.prems by simp
    from less.IH [OF this less.prems] have ih: "m - N \<le> pages N (m - N) * N" "0 < m - N \<longrightarrow> (pages N (m - N) - 1) * N < m - N"
      by simp_all
    show ?thesis
    proof (cases "m \<le> N")
      case True
      with s False less.prems show ?thesis by simp
    next
      case mN: False
      then have "0 < pages N (m - N)" using less.prems pages_step [of N "m - N"] by simp
      then obtain k where k: "pages N (m - N) = Suc k" using gr0_conv_Suc by blast
      have "m \<le> N + (N + k * N)" "N + k * N < m" using ih k mN by auto
      with s k show ?thesis by simp
    qed
  qed simp
qed

text \<open>
  What a database that answers pages of a result promises: \<open>rows\<close> is the result of a query,
  \<open>pos\<close> the row a bookmark stands at, the empty bookmark at the start, and \<open>ok\<close> the
  page sizes, queries and states the promise is for. The answers do not change the result.
\<close>

locale paged_list =
  fixes fab :: "'w fabric_setup"
    and rows :: "'w \<Rightarrow> string \<Rightarrow> certificate list"
    and pos :: "string \<Rightarrow> nat option"
    and ok :: "int \<Rightarrow> string \<Rightarrow> 'w \<Rightarrow> bool"
  assumes positive: "ok n q w \<Longrightarrow> 0 < n"
    and start: "pos [] = Some 0"
    and small: "ok n q w \<Longrightarrow> fits 64 (int (length (rows w q)))"
    and page: "ok n q w \<Longrightarrow> pos b = Some k \<Longrightarrow>
      \<exists>w' b'. getNewBookmarks fab q n b w =
          (Ret (Some \<lparr>li_pageCount = int (length (take (nat n) (drop k (rows w q)))), li_bookmark = b',
                      li_certs = appended (take (nat n) (drop k (rows w q)))\<rparr>, None, 200), w')
        \<and> ok n q w' \<and> rows w' q = rows w q
        \<and> pos b' = Some (k + length (take (nat n) (drop k (rows w q))))"
begin

lemma page_at:
  assumes "ok n q w" "pos b = Some k"
  obtains w' b' where "getNewBookmarks fab q n b w =
      (Ret (Some \<lparr>li_pageCount = int (length (take (nat n) (drop k (rows w q)))), li_bookmark = b',
                  li_certs = appended (take (nat n) (drop k (rows w q)))\<rparr>, None, 200), w')"
    "ok n q w'" "rows w' q = rows w q" "pos b' = Some (k + length (take (nat n) (drop k (rows w q))))"
  using page [OF assms] by blast

text \<open>The loop ends, with one bookmark for each page that has rows after those it started with.\<close>

lemma gather_pages:
  assumes "ok n q w" "pos b = Some k" "bms \<noteq> []" "last bms = b" "k \<le> length (rows w q)"
  shows "\<exists>extra w'. gather_bookmarks fab q n bms b w = Some (Ret (Inr (bms @ extra)), w')
    \<and> ok n q w' \<and> rows w' q = rows w q
    \<and> length extra = pages (nat n) (length (rows w q) - k)
    \<and> (\<forall>j < length extra. pos (extra ! j) = Some (min (length (rows w q)) (k + (j + 1) * nat n)))"
  using assms
proof (induction "length (rows w q) - k" arbitrary: w b k bms rule: less_induct)
  case less
  let ?L = "length (rows w q)" and ?N = "nat n"
  let ?m = "length (take ?N (drop k (rows w q)))"
  have N: "0 < ?N" using positive [OF less.prems(1)] by simp
  obtain w1 b1 where p: "getNewBookmarks fab q n b w =
      (Ret (Some \<lparr>li_pageCount = int ?m, li_bookmark = b1, li_certs = appended (take ?N (drop k (rows w q)))\<rparr>, None, 200), w1)"
    "ok n q w1" "rows w1 q = rows w q" "pos b1 = Some (k + ?m)"
    by (rule page_at [OF less.prems(1,2)])
  show ?case
  proof (cases "?m = 0")
    case True
    then have "?L - k = 0" using N by simp
    with p True N show ?thesis
      by (intro exI [of _ "[]"]) (simp add: gather_bookmarks.simps [of fab q n bms b w])
  next
    case False
    then have m: "?m = min ?N (?L - k)" "0 < ?m" by auto
    have ne: "last bms \<noteq> b1" using p(4) less.prems(2,4) False by auto
    have step: "gather_bookmarks fab q n bms b w = gather_bookmarks fab q n (bms @ [b1]) b1 w1"
      using p(1) ne False by (simp add: gather_bookmarks.simps [of fab q n bms b w])
    have lt: "length (rows w1 q) - (k + ?m) < length (rows w q) - k"
      using m(2) p(3) less.prems(5) N by (auto simp: min_def split: if_splits)
    have le: "k + ?m \<le> length (rows w1 q)" using m(1) p(3) less.prems(5) by simp
    have nn: "bms @ [b1] \<noteq> []" "last (bms @ [b1]) = b1" by simp_all
    obtain extra w' where e: "gather_bookmarks fab q n (bms @ [b1]) b1 w1 = Some (Ret (Inr ((bms @ [b1]) @ extra)), w')"
      "ok n q w'" "rows w' q = rows w q" "length extra = pages ?N (?L - (k + ?m))"
      "\<forall>j < length extra. pos (extra ! j) = Some (min ?L (k + ?m + (j + 1) * ?N))"
      using less.hyps [OF lt p(2) p(4) nn le] unfolding p(3) by blast
    have len: "length (b1 # extra) = pages ?N (?L - k)"
    proof -
      have "?L - (k + ?m) = (?L - k) - ?N" unfolding m(1) by (rule after_page)
      moreover have "0 < ?L - k" using m by auto
      ultimately show ?thesis using e(4) pages_step [OF N, of "?L - k"] by simp
    qed
    have "pos ((b1 # extra) ! j) = Some (min ?L (k + (j + 1) * ?N))" if "j < length (b1 # extra)" for j
    proof (cases j)
      case 0
      have "pos b1 = Some (min ?L (k + ?N))" using p(4) unfolding m(1) first_page [OF less.prems(5)] .
      with 0 show ?thesis by simp
    next
      case (Suc i)
      then have i: "i < length extra" using that by simp
      then have "0 < pages ?N (?L - (k + ?m))" using e(4) by simp
      then have "?m = ?N" using m(1) pages_0 [OF N] by (auto simp: min_def split: if_splits)
      with e(5) i Suc show ?thesis by (simp add: algebra_simps)
    qed
    then have at: "\<forall>j < length (b1 # extra). pos ((b1 # extra) ! j) = Some (min ?L (k + (j + 1) * ?N))"
      by blast
    have "gather_bookmarks fab q n bms b w = Some (Ret (Inr (bms @ b1 # extra)), w')"
      using step e(1) by simp
    with e(2,3) len at show ?thesis by blast
  qed
qed

end

text \<open>The page a client gets for a page index: the one asked for, or the one after the last.\<close>

definition shown_page :: "nat \<Rightarrow> certificate list \<Rightarrow> int \<Rightarrow> certificate list" where
  "shown_page N cs pageIndex = take N (drop ((nat pageIndex - 1) * N) cs)"

definition shown_index :: "nat \<Rightarrow> nat \<Rightarrow> int \<Rightarrow> int" where
  "shown_index N m pageIndex = min pageIndex (int (pages N m) + 1)"

context paged_list
begin

lemma finish_pages:
  fixes q :: string
  assumes "ok n q w" "0 < pageIndex" "bms \<noteq> []"
    and len: "length bms = Suc (pages (nat n) (length (rows w q)))"
    and at: "\<forall>j < length bms. pos (bms ! j) = Some (min (length (rows w q)) (j * nat n))"
  shows "\<exists>w'. finish_query fab q n pageIndex bms w =
      (Ret (Some (ListValue
         \<lparr>cl_count = int (length (rows w q)),
          cl_pageIndex = shown_index (nat n) (length (rows w q)) pageIndex,
          cl_certs = appended (shown_page (nat n) (rows w q) (shown_index (nat n) (length (rows w q)) pageIndex))\<rparr>),
        None, 200), w')
    \<and> ok n q w' \<and> rows w' q = rows w q"
proof -
  let ?L = "length (rows w q)" and ?N = "nat n"
  let ?P = "pages ?N ?L" and ?i = "shown_index (nat n) (length (rows w q)) pageIndex"
  have N: "0 < ?N" using positive [OF assms(1)] by simp
  have idx: "(if int (length bms) < pageIndex then int (length bms) else pageIndex) = ?i"
    using len by (auto simp: shown_index_def)
  have i: "1 \<le> ?i" "nat (?i - 1) < length bms" "nat (?i - 1) = nat ?i - 1"
    using assms(2) len by (auto simp: shown_index_def)
  have fin: "last bms = bms ! ?P" using len assms(3) by (simp add: last_conv_nth)
  have L: "min ?L (?P * ?N) = ?L" using pages_bounds [OF N, of ?L] by simp
  obtain w1 b1 where p1: "getNewBookmarks fab q n (bms ! nat (?i - 1)) w =
      (Ret (Some \<lparr>li_pageCount = int (length (take ?N (drop (min ?L ((nat ?i - 1) * ?N)) (rows w q)))), li_bookmark = b1,
          li_certs = appended (take ?N (drop (min ?L ((nat ?i - 1) * ?N)) (rows w q)))\<rparr>, None, 200), w1)"
    "ok n q w1" "rows w1 q = rows w q"
    using page_at [OF assms(1), of "bms ! nat (?i - 1)" "min ?L ((nat ?i - 1) * ?N)"] at i by metis
  have same: "drop (min ?L ((nat ?i - 1) * ?N)) (rows w q) = drop ((nat ?i - 1) * ?N) (rows w q)"
    by (cases "?L \<le> (nat ?i - 1) * ?N") auto
  obtain w2 b2 where p2: "getNewBookmarks fab q n (last bms) w1 =
      (Ret (Some \<lparr>li_pageCount = 0, li_bookmark = b2, li_certs = None\<rparr>, None, 200), w2)"
    "ok n q w2" "rows w2 q = rows w q"
  proof (rule page_at [OF p1(2), of "last bms" ?L])
    show "pos (last bms) = Some ?L" using at fin len L by simp
  qed (use that p1(3) in \<open>simp add: appended_def\<close>)
  note run = finish_query_def [of fab q n pageIndex bms w, unfolded Let_def idx p1(1) and_then_simps prod.case option.case
      p2(1) page_count_def list_internal.simps]
  show ?thesis
  proof (cases "?P = 0")
    case True
    then have "?L = 0" using pages_bounds [OF N, of ?L] by simp
    then have e: "rows w q = []" by simp
    have l1: "int (length bms) = 1" using len True by simp
    have fin: "ok n q w2" "rows w2 q = []" using p2(2,3) e by auto
    have z: "wrap64 0 = 0" by (simp add: wrap64_def)
    show ?thesis
      unfolding run l1 e by (simp add: z make_list_def shown_page_def) (intro conjI fin)
  next
    case False
    have a3: "min ?L ((?P - 1) * ?N) = (?P - 1) * ?N" "(?P - 1) * ?N < ?L"
    proof -
      have "?L \<noteq> 0" using False pages_0 [OF N] by metis
      then show "(?P - 1) * ?N < ?L" using pages_bounds [OF N, of ?L] by blast
      then show "min ?L ((?P - 1) * ?N) = (?P - 1) * ?N" by (rule min_absorb2 [OF less_imp_le])
    qed
    obtain w3 b3 where p3: "getNewBookmarks fab q n (bms ! nat (int (length bms) - 2)) w2 =
        (Ret (Some \<lparr>li_pageCount = int (length (take ?N (drop ((?P - 1) * ?N) (rows w q)))), li_bookmark = b3,
            li_certs = appended (take ?N (drop ((?P - 1) * ?N) (rows w q)))\<rparr>, None, 200), w3)"
      "ok n q w3" "rows w3 q = rows w q"
    proof (rule page_at [OF p2(2), of "bms ! nat (int (length bms) - 2)" "(?P - 1) * ?N"])
      have "?P - 1 < length bms" using len by linarith
      moreover have "nat (int (length bms) - 2) = ?P - 1" using len False by simp
      ultimately show "pos (bms ! nat (int (length bms) - 2)) = Some ((?P - 1) * ?N)"
        using at [rule_format, of "?P - 1"] len a3(1) by simp
    qed (use that p2(3) in simp)
    have "?L - (?P - 1) * ?N \<le> ?N" using pages_bounds [OF N, of ?L] False by (cases ?P) auto
    then have "int (length (take ?N (drop ((?P - 1) * ?N) (rows w q)))) = int ?L - int ((?P - 1) * ?N)"
      using a3(2) by (simp add: min_def of_nat_diff)
    moreover have "n * (int (length bms) - 2) = int ((?P - 1) * ?N)"
      using len False N by (simp add: of_nat_diff)
    ultimately have count: "wrap64 (n * (int (length bms) - 2) + int (length (take ?N (drop ((?P - 1) * ?N) (rows w q))))) = int ?L"
      using small [OF assms(1)] by (simp add: wrap64_id)
    have l2: "1 < int (length bms)" using len False by simp
    have "finish_query fab q n pageIndex bms w =
        (Ret (Some (ListValue \<lparr>cl_count = int ?L, cl_pageIndex = ?i, cl_certs = appended (shown_page ?N (rows w q) ?i)\<rparr>),
          None, 200), w3)"
      unfolding run p3(1) and_then_simps prod.case option.case page_count_def list_internal.simps count same
        make_list_def shown_page_def using l2 by simp
    with p3(2,3) show ?thesis by blast
  qed
qed

lemma rich_query:
  fixes q :: string
  assumes "ok (qc_pageSize qc) q w" "1 \<le> qc_pageIndex qc" "qc_isOpen qc \<or> isLogin"
  defines "N \<equiv> nat (qc_pageSize qc)" and "R \<equiv> rows w q"
  shows "\<exists>w'. CertificateRichQuery fab qc isLogin q w =
    Some (Ret (Some (ListValue
         \<lparr>cl_count = int (length R), cl_pageIndex = shown_index N (length R) (qc_pageIndex qc),
          cl_certs = appended (shown_page N R (shown_index N (length R) (qc_pageIndex qc)))\<rparr>),
        None, 200), w')
    \<and> ok (qc_pageSize qc) q w' \<and> rows w' q = R"
proof -
  obtain extra w1 where g: "gather_bookmarks fab q (qc_pageSize qc) [[]] [] w = Some (Ret (Inr ([[]] @ extra)), w1)"
    "ok (qc_pageSize qc) q w1" "rows w1 q = R" "length extra = pages N (length R)"
    "\<forall>j < length extra. pos (extra ! j) = Some (min (length R) ((j + 1) * N))"
    using gather_pages [OF assms(1) start, of "[[]]"] unfolding N_def R_def by auto
  have "pos (([] # extra) ! j) = Some (min (length R) (j * N))" if "j < length ([] # extra)" for j
    using g(5) start that by (cases j) auto
  then have "\<exists>w'. finish_query fab q (qc_pageSize qc) (qc_pageIndex qc) ([] # extra) w1 =
    (Ret (Some (ListValue
         \<lparr>cl_count = int (length R), cl_pageIndex = shown_index N (length R) (qc_pageIndex qc),
          cl_certs = appended (shown_page N R (shown_index N (length R) (qc_pageIndex qc)))\<rparr>),
        None, 200), w')
    \<and> ok (qc_pageSize qc) q w' \<and> rows w' q = R"
    using finish_pages [OF g(2), of "qc_pageIndex qc" "[] # extra"] assms(2) g(3,4) unfolding N_def by simp
  with g(1) assms(2,3) show ?thesis by (auto simp: CertificateRichQuery_def)
qed

end

end
