(* ===== verification/Handlers.thy ===== *)
theory Handlers
  imports Session Files RichQuery
begin

text \<open>
  The request handlers of app/app.go. An \<open>exchange\<close> is what a handler sees of a request and of
  the response it writes to: the session cookie, the body, the path parameters, the multipart
  form, the headers set so far, and whether writing the response succeeds. The state of the
  server is the session manager, the disk and the outside world behind the Fabric client; the
  clock, the source of randomness, the file system's faults and the client are parameters.
\<close>

section \<open>Requests, replies and the server\<close>

record user =
  us_name :: string
  us_password :: string

definition zero_user :: user where
  "zero_user = \<lparr>us_name = '''', us_password = ''''\<rparr>"

definition user_fields :: "(string \<times> user field) list" where
  "user_fields = [(''name'', str_field ''name'' us_name_update), (''password'', str_field ''password'' us_password_update)]"

definition unmarshal_user :: "string \<Rightarrow> user \<times> error option" where
  "unmarshal_user = unmarshal (decode_struct user_fields zero_user) zero_user"

text \<open>The data of a result is an \<open>interface{}\<close>; its message is a text of the code's or an error's.\<close>

datatype message = Message string | ErrorMessage error

datatype result_data =
    NilData
  | TextData string
  | CertData certificate
  | StatusData "status list option"
  | QueryData query_value

record result =
  rs_ResultCode :: nat
  rs_Message :: message
  rs_Data :: result_data

definition zero_result :: result where
  "zero_result = \<lparr>rs_ResultCode = 0, rs_Message = Message '''', rs_Data = NilData\<rparr>"

text \<open>A multipart form: the file under its field, and the values under another.\<close>

record form =
  fm_certFile :: "error + bytes \<times> error option"
  fm_certId :: "string list"

type_synonym headers = "(string \<times> string) list"

record exchange =
  ex_cookie :: "string option"
  ex_body :: "error + bytes"
  ex_params :: "string \<rightharpoonup> string"
  ex_form :: "error + form"
  ex_headers :: headers
  ex_write :: "error option"

text \<open>
  What has been sent: the status is that of the first header written, the cookies those set
  before it. A handler may instead panic, end the process (\<open>logger.Fatalf\<close>) or never return.
\<close>

datatype body = ResultBody result | FileBody bytes | NoBody

record http_reply =
  rp_status :: nat
  rp_headers :: headers
  rp_cookies :: "cookie_header list"
  rp_body :: body

datatype served = Answer http_reply | Panics string | Exits string | Hangs

record 'w server =
  sv_manager :: manager
  sv_disk :: disk
  sv_world :: 'w
  sv_tick :: nat

record 'w app =
  ap_fabric :: "'w fabric_setup"
  ap_os :: os_env
  ap_now :: "nat \<Rightarrow> int"
  ap_random :: "nat \<Rightarrow> bytes option"

type_synonym 'w handler = "'w app \<Rightarrow> exchange \<Rightarrow> 'w server \<Rightarrow> served \<times> 'w server"

definition header_del :: "string \<Rightarrow> headers \<Rightarrow> headers" where
  "header_del k hs = filter (\<lambda>h. fst h \<noteq> k) hs"

definition header_set :: "string \<Rightarrow> string \<Rightarrow> headers \<Rightarrow> headers" where
  "header_set k v hs = header_del k hs @ [(k, v)]"

definition header_add :: "string \<Rightarrow> string \<Rightarrow> headers \<Rightarrow> headers" where
  "header_add k v hs = hs @ [(k, v)]"

section \<open>Writing a result\<close>

text \<open>A write error ends the process.\<close>

definition encode_result :: "exchange \<Rightarrow> nat \<Rightarrow> cookie_header list \<Rightarrow> result \<Rightarrow> served" where
  "encode_result ex status cs result =
     (case ex_write ex of
        None \<Rightarrow> Answer \<lparr>rp_status = status, rp_headers = ex_headers ex, rp_cookies = cs, rp_body = ResultBody result\<rparr>
      | Some e \<Rightarrow> Exits ''serializing result'')"

definition deal4xx :: "exchange \<Rightarrow> cookie_header list \<Rightarrow> result \<Rightarrow> error option \<Rightarrow> nat \<Rightarrow> served" where
  "deal4xx ex cs result err code =
     (let rc = (if code > 0 then code else 400);
          result = result\<lparr>rs_ResultCode := rc\<rparr>;
          result = (case err of Some e \<Rightarrow> result\<lparr>rs_Message := ErrorMessage e\<rparr> | None \<Rightarrow> result)
      in encode_result ex rc cs result)"

definition should_login :: result where
  "should_login = zero_result\<lparr>rs_ResultCode := 401, rs_Message := Message ''Should login''\<rparr>"

section \<open>Calls of the handlers\<close>

definition start_session :: "'w app \<Rightarrow> exchange \<Rightarrow> 'w server \<Rightarrow> nat \<times> cookie_header list \<times> 'w server" where
  "start_session ap ex s =
     (case SessionStart (ap_now ap (sv_tick s)) (ap_random ap (sv_tick s)) (ex_cookie ex) (sv_manager s) of
        (sess, cs, m) \<Rightarrow> (sess, cs, s\<lparr>sv_manager := m, sv_tick := sv_tick s + 1\<rparr>))"

definition on_provider :: "(provider \<Rightarrow> provider) \<Rightarrow> 'w server \<Rightarrow> 'w server" where
  "on_provider f s = s\<lparr>sv_manager := (sv_manager s)\<lparr>m_provider := f (m_provider (sv_manager s))\<rparr>, sv_tick := sv_tick s + 1\<rparr>"

definition isLogin :: "'w app \<Rightarrow> exchange \<Rightarrow> 'w server \<Rightarrow> bool \<times> cookie_header list \<times> 'w server" where
  "isLogin ap ex s =
     (case start_session ap ex s of
        (sess, cs, s1) \<Rightarrow>
          (case store_Get (ap_now ap (sv_tick s1)) sess ''username'' (m_provider (sv_manager s1)) of
             (currentUser, p) \<Rightarrow>
               ((case currentUser of None \<Rightarrow> False | Some u \<Rightarrow> u \<noteq> ''''), cs, on_provider (\<lambda>_. p) s1)))"

definition isRightUser :: "user \<Rightarrow> bool" where
  "isRightUser user =
     (if us_name user = ''adminuser1'' then us_password user = ''XSJXSvdHN9''
      else if us_name user = ''adminuser2'' then us_password user = ''b4Dl6XhbB''
      else False)"

text \<open>A call of the business code; a panic in it is the handler's.\<close>

definition call_world :: "('w \<Rightarrow> 'a outcome \<times> 'w) \<Rightarrow> ('a \<Rightarrow> served) \<Rightarrow> 'w server \<Rightarrow> served \<times> 'w server" where
  "call_world f k s =
     (case f (sv_world s) of
        (Ret a, w) \<Rightarrow> (k a, s\<lparr>sv_world := w\<rparr>)
      | (Panic m, w) \<Rightarrow> (Panics m, s\<lparr>sv_world := w\<rparr>))"

definition call_disk ::
    "(disk \<times> 'w \<Rightarrow> 'a outcome \<times> (disk \<times> 'w)) \<Rightarrow> ('a \<Rightarrow> 'w server \<Rightarrow> served \<times> 'w server) \<Rightarrow> 'w server \<Rightarrow> served \<times> 'w server" where
  "call_disk f k s =
     (case f (sv_disk s, sv_world s) of
        (Ret a, (d, w)) \<Rightarrow> k a (s\<lparr>sv_disk := d, sv_world := w\<rparr>)
      | (Panic m, (d, w)) \<Rightarrow> (Panics m, s\<lparr>sv_disk := d, sv_world := w\<rparr>))"

section \<open>The handlers\<close>

definition postLogin :: "'w handler" where
  "postLogin ap ex s =
     (case start_session ap ex s of
        (sess, cs, s1) \<Rightarrow>
          (case ex_body ex of
             Inl e \<Rightarrow> (deal4xx ex cs zero_result (Some e) 400, s1)
           | Inr b \<Rightarrow>
               (case unmarshal_user b of
                  (user, Some e) \<Rightarrow> (deal4xx ex cs zero_result (Some e) 400, s1)
                | (user, None) \<Rightarrow>
                    (if isRightUser user then
                       (encode_result ex 200 cs \<lparr>rs_ResultCode = 200, rs_Message = Message ''login in'', rs_Data = TextData ''''\<rparr>,
                        on_provider (store_Set (ap_now ap (sv_tick s1)) sess ''username'' (us_name user)) s1)
                     else (deal4xx ex cs zero_result None 403, s1)))))"

definition postLogout :: "'w handler" where
  "postLogout ap ex s =
     (case start_session ap ex s of
        (sess, cs1, s1) \<Rightarrow>
          (let s2 = on_provider (store_Delete (ap_now ap (sv_tick s1)) sess ''username'') s1
           in case SessionDestroy (ex_cookie ex) (sv_manager s2) of
             (cs2, m) \<Rightarrow>
               (case isLogin ap ex (s2\<lparr>sv_manager := m\<rparr>) of
                  (logged_in, cs3, s3) \<Rightarrow>
                    (encode_result ex 200 (cs1 @ cs2 @ cs3)
                       (if logged_in then zero_result\<lparr>rs_ResultCode := 400, rs_Message := Message ''logout failed''\<rparr>
                        else zero_result\<lparr>rs_ResultCode := 200, rs_Message := Message ''logout success''\<rparr>), s3))))"

definition postCertificate :: "'w handler" where
  "postCertificate ap ex s =
     (case isLogin ap ex s of
        (logged_in, cs, s1) \<Rightarrow>
          (if logged_in then
             (case ex_body ex of
                Inl e \<Rightarrow> (deal4xx ex cs zero_result (Some e) 400, s1)
              | Inr b \<Rightarrow>
                  call_world (CertificateIn (ap_fabric ap) b)
                    (\<lambda>res. case res of
                         (data, Some e, code) \<Rightarrow> deal4xx ex cs zero_result (Some e) code
                       | (data, None, code) \<Rightarrow>
                           encode_result ex code cs
                             \<lparr>rs_ResultCode = code, rs_Message = Message ''OK'',
                              rs_Data = (case data of None \<Rightarrow> NilData | Some t \<Rightarrow> TextData t)\<rparr>) s1)
           else (encode_result ex 200 cs should_login, s1)))"

definition index_panic :: string where
  "index_panic = ''index out of range''"

definition postUploadFile :: "'w handler" where
  "postUploadFile ap ex s =
     (case isLogin ap ex s of
        (logged_in, cs, s1) \<Rightarrow>
          (if logged_in then
             (case ex_form ex of
                Inl e \<Rightarrow> (deal4xx ex cs zero_result (Some e) 400, s1)
              | Inr fm \<Rightarrow>
                  (case fm_certFile fm of
                     Inl e \<Rightarrow> (deal4xx ex cs zero_result (Some e) 400, s1)
                   | Inr upload \<Rightarrow>
                       (case fm_certId fm of
                          [] \<Rightarrow> (Panics index_panic, s1)
                        | i # _ \<Rightarrow>
                            call_disk (UploadFile (ap_os ap) (ap_fabric ap) i upload)
                              (\<lambda>res s2. (case res of
                                   (data, Some e, code) \<Rightarrow> deal4xx ex cs zero_result (Some e) code
                                 | (data, None, code) \<Rightarrow>
                                     encode_result ex code cs
                                       (zero_result\<lparr>rs_ResultCode := code,
                                          rs_Data := (case data of None \<Rightarrow> NilData | Some t \<Rightarrow> TextData t)\<rparr>), s2)) s1)))
           else (encode_result ex 200 cs should_login, s1)))"

text \<open>
  \<open>io.Copy\<close> from the open file: what was copied, and whether it ended in an error. A nil file
  cannot be read.
\<close>

definition copy_file :: "os_env \<Rightarrow> string option \<Rightarrow> disk \<Rightarrow> (bytes \<times> error option) \<times> disk" where
  "copy_file os file d =
     (case file of
        None \<Rightarrow> (('''', Some bad_argument), d)
      | Some path \<Rightarrow>
          (case os_call os path d of
             (Some e, d1) \<Rightarrow>
               ((take (os_reads os (d_tick d) (length (file_content path d))) (file_content path d), Some e), d1)
           | (None, d1) \<Rightarrow> ((file_content path d, None), d1)))"

definition download_headers :: "string \<Rightarrow> string \<Rightarrow> headers \<Rightarrow> headers" where
  "download_headers fileName fileSize hs =
     header_add ''Content-Length'' fileSize
       (header_add ''Content-Disposition'' (''attachment; filename=\"'' @ fileName @ ''\"'')
         (header_add ''Content-Type'' ''application/pdf'' (header_del ''Content-Type'' hs)))"

text \<open>The first byte written sends the status 200; only an empty copy leaves it to be chosen.\<close>

definition getDownloadFile :: "'w handler" where
  "getDownloadFile ap ex s =
     call_disk (DownloadFile (ap_os ap) (ap_fabric ap) (ex_params ex))
       (\<lambda>(fileName, fileSize, f, err, code) s1.
          if err \<noteq> None then
            (Answer \<lparr>rp_status = code, rp_headers = ex_headers ex, rp_cookies = [], rp_body = NoBody\<rparr>, s1)
          else
            (case copy_file (ap_os ap) f (sv_disk s1) of
               ((b, copy_err), d) \<Rightarrow>
                 (Answer \<lparr>rp_status = (if copy_err \<noteq> None \<and> b = '''' then 400 else 200),
                          rp_headers = download_headers fileName fileSize (ex_headers ex),
                          rp_cookies = [], rp_body = FileBody b\<rparr>, s1\<lparr>sv_disk := d\<rparr>))) s"

definition getCertificate :: "'w handler" where
  "getCertificate ap ex s =
     call_world (CertificateOut (ap_fabric ap) (ex_params ex))
       (\<lambda>res. case res of
            (data, Some e, code) \<Rightarrow> deal4xx ex [] zero_result (Some e) code
          | (data, None, code) \<Rightarrow>
              encode_result ex 200 []
                \<lparr>rs_ResultCode = code, rs_Message = Message ''OK'',
                 rs_Data = (case data of None \<Rightarrow> NilData | Some c \<Rightarrow> CertData c)\<rparr>) s"

text \<open>The three lists: the body is read first, then the session, then the database.\<close>

definition query_reply :: "exchange \<Rightarrow> cookie_header list \<Rightarrow> query_value reply outcome \<Rightarrow> served" where
  "query_reply ex cs r =
     (case r of
        Panic m \<Rightarrow> Panics m
      | Ret (data, Some e, code) \<Rightarrow> deal4xx ex cs zero_result (Some e) code
      | Ret (data, None, code) \<Rightarrow>
          encode_result ex 200 cs
            \<lparr>rs_ResultCode = 200, rs_Message = Message ''OK'',
             rs_Data = (case data of None \<Rightarrow> NilData | Some v \<Rightarrow> QueryData v)\<rparr>)"

definition getOpenList :: "'w handler" where
  "getOpenList ap ex s =
     (case ex_body ex of
        Inl e \<Rightarrow> (deal4xx ex [] zero_result (Some e) 400, s)
      | Inr b \<Rightarrow>
          (case isLogin ap ex s of
             (logged_in, cs, s1) \<Rightarrow>
               (case OpenListRichQuery (ap_fabric ap) b logged_in (sv_world s1) of
                  None \<Rightarrow> (Hangs, s1)
                | Some (r, w) \<Rightarrow> (query_reply ex cs r, s1\<lparr>sv_world := w\<rparr>))))"

definition getDeletedList :: "'w handler" where
  "getDeletedList ap ex s =
     (case ex_body ex of
        Inl e \<Rightarrow> (deal4xx ex [] zero_result (Some e) 400, s)
      | Inr b \<Rightarrow>
          (case isLogin ap ex s of
             (logged_in, cs, s1) \<Rightarrow>
               (case DeletedListRichQuery (ap_fabric ap) b logged_in (sv_world s1) of
                  None \<Rightarrow> (Hangs, s1)
                | Some (r, w) \<Rightarrow> (query_reply ex cs r, s1\<lparr>sv_world := w\<rparr>))))"

definition getDraftList :: "'w handler" where
  "getDraftList ap ex s =
     (case ex_body ex of
        Inl e \<Rightarrow> (deal4xx ex [] zero_result (Some e) 400, s)
      | Inr b \<Rightarrow>
          (case isLogin ap ex s of
             (logged_in, cs, s1) \<Rightarrow>
               (case DraftListRichQuery (ap_fabric ap) b logged_in (sv_world s1) of
                  None \<Rightarrow> (Hangs, s1)
                | Some (r, w) \<Rightarrow> (query_reply ex cs r, s1\<lparr>sv_world := w\<rparr>))))"

definition postChangeStatus :: "'w handler" where
  "postChangeStatus ap ex s =
     (case isLogin ap ex s of
        (logged_in, cs, s1) \<Rightarrow>
          (if logged_in then
             (case ex_body ex of
                Inl e \<Rightarrow> (deal4xx ex cs zero_result (Some e) 400, s1)
              | Inr b \<Rightarrow>
                  call_world (ChangeStatus (ap_fabric ap) b)
                    (\<lambda>res. case res of
                         (data, Some e, code) \<Rightarrow> deal4xx ex cs zero_result (Some e) code
                       | (data, None, code) \<Rightarrow>
                           encode_result ex code cs
                             (zero_result\<lparr>rs_ResultCode := code,
                                rs_Data := (case data of None \<Rightarrow> NilData | Some sts \<Rightarrow> StatusData sts)\<rparr>)) s1)
           else (encode_result ex 200 cs should_login, s1)))"

section \<open>The router\<close>

text \<open>The middleware of every route.\<close>

definition setResponseType :: "'w handler \<Rightarrow> 'w handler" where
  "setResponseType next_handler ap ex s =
     next_handler ap
       (ex\<lparr>ex_headers :=
          header_set ''Access-Control-Allow-Headers'' ''accept, content-type''
            (header_set ''Access-Control-Allow-Origin'' ''*''
              (header_set ''Content-Type'' ''application/json'' (ex_headers ex)))\<rparr>) s"

text \<open>
  The middleware for basic authentication, which \<open>buildRouter\<close> does not register: the
  credentials of an \<open>Authorization\<close> header, split at the first colon, go to the next handler;
  without them nothing is written, which net/http sends as an empty reply with status 200.
\<close>

definition basic_credentials :: "string \<Rightarrow> (string \<times> string) option" where
  "basic_credentials auth =
     (if \<not> starts_with ''Basic '' auth then None
      else case b64_decode std_alphabet (drop 6 auth) of
        None \<Rightarrow> None
      | Some str \<Rightarrow>
          (if CHR '':'' \<in> set str then Some (takeWhile (\<lambda>c. c \<noteq> CHR '':'') str, tl (dropWhile (\<lambda>c. c \<noteq> CHR '':'') str))
           else None))"

definition basicAuthenticate :: "string \<Rightarrow> (string \<Rightarrow> string \<Rightarrow> 'w handler) \<Rightarrow> 'w handler" where
  "basicAuthenticate auth next_handler ap ex s =
     (case basic_credentials auth of
        None \<Rightarrow> (Answer \<lparr>rp_status = 200, rp_headers = ex_headers ex, rp_cookies = [], rp_body = NoBody\<rparr>, s)
      | Some (user, pass) \<Rightarrow> next_handler user pass ap ex s)"

datatype http_method = GET | POST

datatype segment = Fixed string | Param string

datatype route_target =
    Login | PostCertificate | PostUploadFile | GetDownloadFile | GetCertificate
  | OpenList | DeletedList | DraftList | PostChangeStatus | Logout

text \<open>The routes under \<open>/v1/\<close>, in the order they are registered.\<close>

definition buildRouter :: "(http_method \<times> segment list \<times> route_target) list" where
  "buildRouter =
     [(POST, [Fixed ''v1'', Fixed ''login''], Login),
      (POST, [Fixed ''v1'', Fixed ''certificate''], PostCertificate),
      (POST, [Fixed ''v1'', Fixed ''uploadFile''], PostUploadFile),
      (GET, [Fixed ''v1'', Fixed ''downloadFile'', Param ''certId''], GetDownloadFile),
      (GET, [Fixed ''v1'', Fixed ''certificate'', Param ''certId''], GetCertificate),
      (POST, [Fixed ''v1'', Fixed ''certificate'', Fixed ''openList''], OpenList),
      (POST, [Fixed ''v1'', Fixed ''certificate'', Fixed ''deletedList''], DeletedList),
      (POST, [Fixed ''v1'', Fixed ''certificate'', Fixed ''draftList''], DraftList),
      (POST, [Fixed ''v1'', Fixed ''changeStatus''], PostChangeStatus),
      (POST, [Fixed ''v1'', Fixed ''logout''], Logout)]"

fun handler_of :: "route_target \<Rightarrow> 'w handler" where
  "handler_of Login = postLogin"
| "handler_of PostCertificate = postCertificate"
| "handler_of PostUploadFile = postUploadFile"
| "handler_of GetDownloadFile = getDownloadFile"
| "handler_of GetCertificate = getCertificate"
| "handler_of OpenList = getOpenList"
| "handler_of DeletedList = getDeletedList"
| "handler_of DraftList = getDraftList"
| "handler_of PostChangeStatus = postChangeStatus"
| "handler_of Logout = postLogout"

text \<open>A path fits a route segment by segment; a parameter binds one segment.\<close>

fun match_path :: "segment list \<Rightarrow> string list \<Rightarrow> (string \<rightharpoonup> string) option" where
  "match_path [] [] = Some Map.empty"
| "match_path (Fixed x # ps) (y # ys) = (if x = y then match_path ps ys else None)"
| "match_path (Param k # ps) (y # ys) =
     (if y = '''' then None else map_option (\<lambda>m. m(k \<mapsto> y)) (match_path ps ys))"
| "match_path _ _ = None"

fun find_route ::
    "(http_method \<times> segment list \<times> route_target) list \<Rightarrow> http_method \<Rightarrow> string list
     \<Rightarrow> (route_target \<times> (string \<rightharpoonup> string)) option" where
  "find_route [] meth path = None"
| "find_route ((m, ps, t) # rs) meth path =
     (if m = meth then
        (case match_path ps path of Some params \<Rightarrow> Some (t, params) | None \<Rightarrow> find_route rs meth path)
      else find_route rs meth path)"

definition serve :: "http_method \<Rightarrow> string list \<Rightarrow> 'w handler" where
  "serve meth path ap ex s =
     (case find_route buildRouter meth path of
        None \<Rightarrow> (Answer \<lparr>rp_status = 404, rp_headers = [], rp_cookies = [], rp_body = NoBody\<rparr>, s)
      | Some (t, params) \<Rightarrow> setResponseType (handler_of t) ap (ex\<lparr>ex_params := params\<rparr>) s)"

section \<open>Credentials\<close>

lemma basic_credentials_roundtrip:
  assumes "CHR '':'' \<notin> set user"
  shows "basic_credentials (''Basic '' @ b64_encode std_alphabet (user @ CHR '':'' # pass)) = Some (user, pass)"
proof -
  have "takeWhile (\<lambda>c. c \<noteq> CHR '':'') (user @ CHR '':'' # pass) = user"
    "dropWhile (\<lambda>c. c \<noteq> CHR '':'') (user @ CHR '':'' # pass) = CHR '':'' # pass"
    using assms by (auto simp: takeWhile_append dropWhile_append)
  then show ?thesis by (simp add: basic_credentials_def)
qed

end
