(* ===== verification/Selectors.thy ===== *)
theory Selectors
  imports RichQuery
begin

text \<open>
  What the text of a list query means: the JSON object the database reads from the text that
  \<open>editQueryString\<close> of app/business/certificateIO.go puts together by concatenation. It is the
  intended conjunction as long as no value holds a quote, a backslash or a control character;
  a value that holds a quote can add clauses of its own.
\<close>

section \<open>Plain strings\<close>

definition plain_char :: "char \<Rightarrow> bool" where
  "plain_char c \<longleftrightarrow> c \<noteq> CHR 0x22 \<and> c \<noteq> CHR 0x5C \<and> 0x20 \<le> byte c"

definition plain :: "string \<Rightarrow> bool" where
  "plain s \<longleftrightarrow> utf8_valid s \<and> list_all plain_char s"

lemma string_step_plain:
  assumes "valid_rune r" "list_all plain_char (utf8_encode r)"
  shows "parse_string (utf8_encode r @ t) = prepend (utf8_encode r) (parse_string t)"
proof -
  obtain c cs where c: "utf8_encode r = c # cs"
    using utf8_encode_first [OF assms(1)] by blast
  then have "plain_char c" using assms(2) by simp
  moreover have "utf8_split (c # cs @ t) = Some (r, t)"
    using utf8_split_encode [OF assms(1), of t] c by simp
  ultimately show ?thesis
    using c by (simp add: parse_string.simps [of "c # cs @ t"] string_step_def plain_char_def)
qed

lemma parse_plain:
  assumes "plain s"
  shows "parse_string (s @ CHR 0x22 # t) = Some (s, t)"
proof -
  have "utf8_valid s \<Longrightarrow> list_all plain_char s \<longrightarrow> parse_string (s @ CHR 0x22 # t) = Some (s, t)"
    by (induction s rule: utf8_induct) (auto simp: string_step_plain prepend_def)
  with assms show ?thesis by (simp add: plain_def)
qed

lemma plain_ascii: "list_all (\<lambda>c. plain_char c \<and> byte c < 0x80) s \<Longrightarrow> plain s"
  by (auto simp: plain_def list_all_iff intro!: utf8_valid_asciis)

section \<open>Clauses\<close>

lemma skip_space: "skip (CHR '' '' # s) = skip s"
  by (simp add: skip_def is_space_def)

lemma expect_space: "expect c (CHR '' '' # s) = expect c s"
  by (simp add: expect_def skip_space)

text \<open>A clause text reads as a value whatever follows it, given a little fuel.\<close>

definition reads :: "string \<Rightarrow> json \<Rightarrow> bool" where
  "reads t j \<longleftrightarrow> (\<forall>n r. parse_val (n + 5) (t @ r) = Some (j, r))"

lemma reads_eq:
  assumes "plain k" "plain v"
  shows "reads (''{\"'' @ k @ ''\": \"'' @ v @ ''\"}'') (JObj [(k, JStr v)])"
  by (simp add: reads_def parse_unfold skip_nonspace expect_other parse_plain assms
      eval_nat_numeral skip_space expect_space)

lemma reads_co:
  assumes "plain k" "plain opr" "plain v"
  shows "reads (''{\"'' @ k @ ''\": {\"'' @ opr @ ''\":\"'' @ v @ ''\"}}'') (JObj [(k, JObj [(opr, JStr v)])])"
  by (simp add: reads_def parse_unfold skip_nonspace expect_other parse_plain assms
      eval_nat_numeral skip_space expect_space)

lemma readsD: "reads t j \<Longrightarrow> parse_val (k + m + 5) (t @ r) = Some (j, r)"
  by (simp add: reads_def)

lemma parse_clauses:
  "list_all2 reads (t # ts) (j # js) \<Longrightarrow>
     parse_elems (Suc (length ts + m + 5)) (t @ concat (map (Cons (CHR '','')) ts) @ CHR '']'' # r) = Some (j # js, r)"
proof (induction ts arbitrary: t j js)
  case Nil
  then have "parse_val (length ([] :: string list) + m + 5) (t @ s) = Some (j, s)" for s
    by (intro readsD) simp
  with Nil show ?case by (simp only: parse_elems.simps(2)) (simp add: expect_other)
next
  case (Cons u us)
  then obtain i "is" where js: "js = i # is" "reads u i" by (cases js) auto
  have "parse_elems (Suc (length us + m + 5)) (u @ concat (map (Cons (CHR '','')) us) @ CHR '']'' # r) = Some (i # is, r)"
    using Cons.IH [of u i "is"] Cons.prems js by simp
  moreover have "parse_val (length (u # us) + m + 5) (t @ s) = Some (j, s)" for s
    using Cons.prems by (intro readsD) simp
  ultimately show ?case using js parse_elems.simps(2) [of "length (u # us) + m + 5"] by simp
qed

section \<open>The whole text\<close>

definition sort_members :: "(string \<times> json) list" where
  "sort_members =
     [(''sort'', JArr [JObj [(''updateDate'', JStr ''desc'')], JObj [(''certId'', JStr ''desc'')]]),
      (''use_index'', JArr [JStr ''indexSortDoc'', JStr ''indexSort''])]"

definition conjunction :: "json list \<Rightarrow> json" where
  "conjunction js = JObj ((''selector'', JObj [(''$and'', JArr js)]) # sort_members)"

lemma members_stable: "2 * length s + 2 \<le> n \<Longrightarrow> parse_members n s = parse_members (2 * length s + 2) s"
proof (induction n rule: dec_induct)
  case (step n)
  then show ?case using parse_fuel_step(3) [of s n] by simp
qed simp

lemma parse_tail:
  assumes "500 \<le> n"
  shows "parse_members n (tl (tl (tl query_tail))) = Some (sort_members, [])"
proof -
  have "2 * length (tl (tl (tl query_tail))) + 2 \<le> n" using assms by (simp add: query_tail_def)
  then have "parse_members n (tl (tl (tl query_tail)))
      = parse_members (2 * length (tl (tl (tl query_tail))) + 2) (tl (tl (tl query_tail)))"
    by (rule members_stable)
  also have "\<dots> = Some (sort_members, [])" by code_simp
  finally show ?thesis .
qed

lemma parse_keys:
  "parse_string (''selector\"'' @ t) = Some (''selector'', t)"
  "parse_string (''$and\"'' @ t) = Some (''$and'', t)"
  using parse_plain [of "''selector''" t] parse_plain [of "''$and''" t]
  by (simp_all add: plain_ascii plain_char_def)

lemma parse_head:
  assumes "parse_elems N X = Some (js, CHR 0x7D # CHR '','' # tl (tl (tl query_tail)))"
    and "X = c # cs" "\<not> is_space c" "c \<noteq> CHR '']''" "500 \<le> N"
  shows "parse_val (Suc (Suc (Suc (Suc (Suc N))))) (''{\"selector\":{\"$and\":['' @ X) = Some (conjunction js, [])"
proof -
  have "expect (CHR '']'') X = None" using assms(2-4) by (simp add: expect_other)
  then have "parse_val (Suc N) (CHR ''['' # X) = Some (JArr js, CHR 0x7D # CHR '','' # tl (tl (tl query_tail)))"
    using assms(1) by (simp add: parse_val.simps(2) skip_nonspace)
  then have "parse_val (Suc (Suc (Suc N))) (''{\"$and\":['' @ X)
      = Some (JObj [(''$and'', JArr js)], CHR '','' # tl (tl (tl query_tail)))"
    using parse_keys(2) [of "CHR '':'' # CHR ''['' # X"]
    by (simp add: parse_val.simps(2) [of "Suc (Suc N)"] parse_members.simps(2) skip_nonspace expect_other)
  moreover have "parse_members (Suc (Suc (Suc N))) (tl (tl (tl query_tail))) = Some (sort_members, [])"
    by (rule parse_tail) (use assms(5) in simp)
  ultimately show ?thesis
    using parse_keys(1) [of "'':{\"$and\":['' @ X"]
    by (simp add: parse_val.simps(2) [of "Suc (Suc (Suc (Suc N)))"] parse_members.simps(2) [of "Suc (Suc (Suc N))"]
        skip_nonspace expect_other conjunction_def)
qed

text \<open>A conjunction whose first clause is an object.\<close>

lemma parse_conjunction:
  assumes "list_all2 reads ((CHR 0x7B # t) # ts) (j # js)"
  shows "json_parse (''{\"selector\":{\"$and\":['' @ (CHR 0x7B # t) @ concat (map (Cons (CHR '','')) ts) @ query_tail)
    = Some (conjunction (j # js))"
proof -
  define X where "X = (CHR 0x7B # t) @ concat (map (Cons (CHR '','')) ts) @ query_tail"
  define s where "s = ''{\"selector\":{\"$and\":['' @ X"
  let ?N = "Suc (length ts + (2 * length s + 500) + 5)"
  have tail: "query_tail = CHR '']'' # CHR 0x7D # CHR '','' # tl (tl (tl query_tail))"
    by (simp add: query_tail_def)
  have "parse_elems ?N X = Some (j # js, CHR 0x7D # CHR '','' # tl (tl (tl query_tail)))"
    unfolding X_def using parse_clauses [OF assms] by (subst tail)
  then have run: "parse_val (Suc (Suc (Suc (Suc (Suc ?N))))) s = Some (conjunction (j # js), [])"
    unfolding s_def by (rule parse_head [where c = "CHR 0x7B"]) (simp_all add: X_def)
  have "parse_val (2 * length s + 1) s = Some (conjunction (j # js), [])"
    unfolding run [symmetric] by (rule json_parse_enough [symmetric]) simp
  then have "json_parse s = Some (conjunction (j # js))" by (simp add: json_parse_def skip_def)
  then show ?thesis by (simp only: s_def X_def append_assoc)
qed

section \<open>The conditions of a client\<close>

definition eq_clause :: "string \<Rightarrow> string \<Rightarrow> json list" where
  "eq_clause v k = (if squeeze v = '''' then [] else [JObj [(k, JStr (squeeze v))]])"

definition co_clause :: "string \<Rightarrow> string \<Rightarrow> string \<Rightarrow> json list" where
  "co_clause v k opr = (if squeeze v = '''' then [] else [JObj [(k, JObj [(opr, JStr (squeeze v))])]])"

definition condition_clauses :: "query_conditions \<Rightarrow> json list" where
  "condition_clauses qc =
     eq_clause (qc_certType qc) ''certType''
     @ eq_clause (qc_certId qc) ''certId''
     @ eq_clause (qc_entrustOrg qc) ''entrustOrg''
     @ eq_clause (qc_instrumentName qc) ''instrumentName''
     @ co_clause (qc_startCreateDate qc) ''updateDate'' ''$gte''
     @ co_clause (qc_endCreateDate qc) ''updateDate'' ''$lte''
     @ co_clause (qc_startCalibDate qc) ''calibrateDate'' ''$gte''
     @ co_clause (qc_endCalibDate qc) ''calibrateDate'' ''$lte''"

definition plain_conditions :: "query_conditions \<Rightarrow> bool" where
  "plain_conditions qc \<longleftrightarrow>
     list_all (\<lambda>f. plain (squeeze (f qc)))
       [qc_certType, qc_certId, qc_entrustOrg, qc_instrumentName,
        qc_startCreateDate, qc_endCreateDate, qc_startCalibDate, qc_endCalibDate]"

text \<open>A part of the text is clause texts that read as the clauses, each after a comma.\<close>

definition spells :: "string \<Rightarrow> json list \<Rightarrow> bool" where
  "spells s js \<longleftrightarrow> (\<exists>ts. s = concat (map (Cons (CHR '','')) ts) \<and> list_all2 reads ts js)"

lemma spells_append: "spells s js \<Longrightarrow> spells t ks \<Longrightarrow> spells (s @ t) (js @ ks)"
  unfolding spells_def by (metis concat_append list_all2_appendI map_append)

lemma plain_keys:
  "list_all plain [''certType'', ''certId'', ''entrustOrg'', ''instrumentName'', ''updateDate'',
     ''calibrateDate'', ''$gte'', ''$lte'']"
  by (simp add: plain_ascii plain_char_def)

lemma spells_eq: "plain k \<Longrightarrow> plain (squeeze v) \<Longrightarrow> spells (editEqString v k) (eq_clause v k)"
  using reads_eq [of k "squeeze v"]
  by (auto simp: spells_def editEqString_def eq_clause_def Let_def
      intro!: exI [of _ "if squeeze v = [] then [] else [''{\"'' @ k @ ''\": \"'' @ squeeze v @ ''\"}'']"])

lemma spells_co:
  "plain k \<Longrightarrow> plain opr \<Longrightarrow> plain (squeeze v) \<Longrightarrow> spells (editCoString v k opr) (co_clause v k opr)"
  using reads_co [of k opr "squeeze v"]
  by (auto simp: spells_def editCoString_def co_clause_def Let_def
      intro!: exI [of _ "if squeeze v = [] then [] else [''{\"'' @ k @ ''\": {\"'' @ opr @ ''\":\"'' @ squeeze v @ ''\"}}'']"])

lemma spells_conditions:
  assumes "plain_conditions qc"
  obtains s where "spells s (condition_clauses qc)" "\<And>h. editQueryString h qc = h @ s @ query_tail"
proof
  show "spells
     (editEqString (qc_certType qc) ''certType''
     @ editEqString (qc_certId qc) ''certId''
     @ editEqString (qc_entrustOrg qc) ''entrustOrg''
     @ editEqString (qc_instrumentName qc) ''instrumentName''
     @ editCoString (qc_startCreateDate qc) ''updateDate'' ''$gte''
     @ editCoString (qc_endCreateDate qc) ''updateDate'' ''$lte''
     @ editCoString (qc_startCalibDate qc) ''calibrateDate'' ''$gte''
     @ editCoString (qc_endCalibDate qc) ''calibrateDate'' ''$lte'') (condition_clauses qc)"
    unfolding condition_clauses_def
    using assms plain_keys by (intro spells_append spells_eq spells_co; simp add: plain_conditions_def)
qed (simp add: editQueryString_def)

text \<open>The three heads.\<close>

definition flag_clause :: "string \<Rightarrow> bool \<Rightarrow> json" where
  "flag_clause k b = JObj [(k, JBool b)]"

lemma reads_flag:
  assumes "plain k"
  shows "reads (''{\"'' @ k @ ''\":true}'') (flag_clause k True)"
    "reads (''{\"'' @ k @ ''\":false}'') (flag_clause k False)"
    "reads (''{\"'' @ k @ ''\": true}'') (flag_clause k True)"
    "reads (''{\"'' @ k @ ''\": false}'') (flag_clause k False)"
  by (simp_all add: reads_def parse_unfold skip_nonspace expect_other parse_plain assms
      eval_nat_numeral skip_space expect_space flag_clause_def)

lemma reads_flags:
  "reads ''{\"isOpen\":true}'' (flag_clause ''isOpen'' True)"
  "reads ''{\"isOpen\":false}'' (flag_clause ''isOpen'' False)"
  "reads ''{\"isCompleted\": true}'' (flag_clause ''isCompleted'' True)"
  "reads ''{\"isCompleted\": false}'' (flag_clause ''isCompleted'' False)"
  "reads ''{\"isDeleted\": true}'' (flag_clause ''isDeleted'' True)"
  "reads ''{\"isDeleted\": false}'' (flag_clause ''isDeleted'' False)"
  using reads_flag [of "''isOpen''"] reads_flag [of "''isCompleted''"] reads_flag [of "''isDeleted''"]
  by (simp_all add: plain_ascii plain_char_def)

lemma query_means:
  assumes "plain_conditions qc" "reads (CHR 0x7B # t) j" "list_all2 reads ts js"
    and "h = ''{\"selector\":{\"$and\":['' @ (CHR 0x7B # t) @ concat (map (Cons (CHR '','')) ts)"
  shows "json_parse (editQueryString h qc) = Some (conjunction (j # js @ condition_clauses qc))"
proof -
  obtain s where s: "spells s (condition_clauses qc)" "editQueryString h qc = h @ s @ query_tail"
    using spells_conditions [OF assms(1)] by metis
  from s(1) obtain us where us: "s = concat (map (Cons (CHR '','')) us)" "list_all2 reads us (condition_clauses qc)"
    unfolding spells_def by blast
  have "list_all2 reads ((CHR 0x7B # t) # ts @ us) (j # js @ condition_clauses qc)"
    using assms(2,3) us(2) by (simp add: list_all2_appendI)
  from parse_conjunction [OF this] show ?thesis
    unfolding s(2) us(1) unfolding assms(4) by (simp only: append_assoc map_append concat_append)
qed

definition open_clauses :: "json list" where
  "open_clauses = [flag_clause ''isOpen'' True, flag_clause ''isCompleted'' True, flag_clause ''isDeleted'' False]"

definition draft_clauses :: "json list" where
  "draft_clauses = [flag_clause ''isOpen'' False, flag_clause ''isCompleted'' False, flag_clause ''isDeleted'' False]"

definition deleted_clauses :: "json list" where
  "deleted_clauses = [flag_clause ''isDeleted'' True]"

lemma open_query_means:
  "plain_conditions qc \<Longrightarrow>
     json_parse (editQueryString open_head qc) = Some (conjunction (open_clauses @ condition_clauses qc))"
  unfolding open_clauses_def append_Cons append_Nil
  by (rule query_means [of qc "''\"isOpen\":true}''" _ "[''{\"isCompleted\": true}'', ''{\"isDeleted\": false}'']"
        "[flag_clause ''isCompleted'' True, flag_clause ''isDeleted'' False]" open_head, simplified])
     (simp_all add: reads_flags open_head_def)

lemma draft_query_means:
  "plain_conditions qc \<Longrightarrow>
     json_parse (editQueryString draft_head qc) = Some (conjunction (draft_clauses @ condition_clauses qc))"
  unfolding draft_clauses_def append_Cons append_Nil
  by (rule query_means [of qc "''\"isOpen\":false}''" _ "[''{\"isCompleted\": false}'', ''{\"isDeleted\": false}'']"
        "[flag_clause ''isCompleted'' False, flag_clause ''isDeleted'' False]" draft_head, simplified])
     (simp_all add: reads_flags draft_head_def)

lemma deleted_query_means:
  "plain_conditions qc \<Longrightarrow>
     json_parse (editQueryString deleted_head qc) = Some (conjunction (deleted_clauses @ condition_clauses qc))"
  unfolding deleted_clauses_def append_Cons append_Nil
  by (rule query_means [of qc "''\"isDeleted\": true}''" _ "[]" "[]" deleted_head, simplified])
     (simp_all add: reads_flags deleted_head_def)

section \<open>Properties\<close>

text \<open>
  C21: The text of each list query, put together by concatenation, is for the database the
  intended selector: the flags of the list and one clause for each condition the client gave,
  as long as the values hold no quote, backslash or control character.
\<close>

theorem query_text_means:
  assumes "plain_conditions qc"
  shows "json_parse (editQueryString open_head qc) = Some (conjunction (open_clauses @ condition_clauses qc))
    \<and> json_parse (editQueryString draft_head qc) = Some (conjunction (draft_clauses @ condition_clauses qc))
    \<and> json_parse (editQueryString deleted_head qc) = Some (conjunction (deleted_clauses @ condition_clauses qc))"
  using open_query_means draft_query_means deleted_query_means assms by blast

definition sample_conditions :: query_conditions where
  "sample_conditions = zero_conditions\<lparr>qc_pageSize := 2, qc_pageIndex := 1, qc_certId := ''F 1'',
     qc_startCreateDate := ''2019-01-01''\<rparr>"

lemma sample_conditions_plain: "plain_conditions sample_conditions"
  by (simp add: plain_conditions_def sample_conditions_def zero_conditions_def squeeze_def remove_char_def
      plain_ascii plain_char_def)

theorem query_text_means_witness:
  "json_parse (editQueryString open_head sample_conditions) =
     Some (conjunction
       [JObj [(''isOpen'', JBool True)], JObj [(''isCompleted'', JBool True)], JObj [(''isDeleted'', JBool False)],
        JObj [(''certId'', JStr ''F1'')], JObj [(''updateDate'', JObj [(''$gte'', JStr ''2019-01-01'')])]])"
  using query_text_means [OF sample_conditions_plain]
  by (simp add: open_clauses_def flag_clause_def condition_clauses_def eq_clause_def co_clause_def
      sample_conditions_def zero_conditions_def squeeze_def remove_char_def)

text \<open>A value that holds a quote adds a clause.\<close>

lemma query_text_injection:
  "json_parse (editQueryString draft_head (zero_conditions\<lparr>qc_certType := ''x\"},{\"isOpen\":\"y''\<rparr>)) =
     Some (conjunction (draft_clauses @ [JObj [(''certType'', JStr ''x'')], JObj [(''isOpen'', JStr ''y'')]]))"
  by code_simp

end
