(* ===== verification/Couch.thy ===== *)
theory Couch
  imports Selectors "HOL-Library.Multiset"
begin

text \<open>
  A database for the list queries: the peer's rich query answers the query text as CouchDB
  documents it for the selectors and the sort the service sends. The order of strings, which
  CouchDB takes from its collation, is a parameter. On the network of theory Fabric with such
  peers the paging contract of theory RichQuery holds, and with the parsed form of the query
  text it gives the certificates a client's conditions select.
\<close>

section \<open>Selectors\<close>

definition mango_operators :: "(string \<Rightarrow> string \<Rightarrow> bool) \<Rightarrow> (string \<times> json) list \<Rightarrow> json \<Rightarrow> bool" where
  "mango_operators le ops w =
     list_all (\<lambda>(op, x).
       (case (x, w) of
          (JStr a, JStr b) \<Rightarrow> (op = ''$gte'' \<and> le a b) \<or> (op = ''$lte'' \<and> le b a)
        | _ \<Rightarrow> False)) ops"

text \<open>A field is compared with a value, or with operators.\<close>

definition mango_field :: "(string \<Rightarrow> string \<Rightarrow> bool) \<Rightarrow> json \<Rightarrow> json \<Rightarrow> bool" where
  "mango_field le v w = (case v of JObj ops \<Rightarrow> mango_operators le ops w | _ \<Rightarrow> w = v)"

definition mango_clause :: "(string \<Rightarrow> string \<Rightarrow> bool) \<Rightarrow> (string \<times> json) list \<Rightarrow> json \<Rightarrow> bool" where
  "mango_clause le doc clause =
     (case clause of
        JObj ms \<Rightarrow>
          list_all (\<lambda>(f, v). (case map_of doc f of None \<Rightarrow> False | Some w \<Rightarrow> mango_field le v w)) ms
      | _ \<Rightarrow> False)"

text \<open>The clauses of a query whose selector is a conjunction.\<close>

definition mango_clauses :: "string \<Rightarrow> json list option" where
  "mango_clauses q =
     (case json_parse q of
        Some (JObj ms) \<Rightarrow>
          (case map_of ms ''selector'' of
             Some (JObj sel) \<Rightarrow> (case map_of sel ''$and'' of Some (JArr cs) \<Rightarrow> Some cs | _ \<Rightarrow> None)
           | _ \<Rightarrow> None)
      | _ \<Rightarrow> None)"

definition mango_selects :: "(string \<Rightarrow> string \<Rightarrow> bool) \<Rightarrow> string \<Rightarrow> bytes \<Rightarrow> bool" where
  "mango_selects le q v =
     (case (mango_clauses q, json_parse v) of
        (Some cs, Some (JObj doc)) \<Rightarrow> list_all (mango_clause le doc) cs
      | _ \<Rightarrow> False)"

section \<open>Rows and pages\<close>


definition doc_field :: "string \<Rightarrow> bytes \<Rightarrow> string" where
  "doc_field f v =
     (case json_parse v of
        Some (JObj ms) \<Rightarrow> (case map_of ms f of Some (JStr s) \<Rightarrow> s | _ \<Rightarrow> '''')
      | _ \<Rightarrow> '''')"

text \<open>The sort clause of a query: the fields, in the order of their weight, and whether they descend.\<close>

fun sort_key :: "json \<Rightarrow> string \<times> bool" where
  "sort_key (JStr f) = (f, False)"
| "sort_key (JObj [(f, JStr d)]) = (f, d = ''desc'')"
| "sort_key _ = ('''', False)"

definition mango_sort :: "string \<Rightarrow> (string \<times> bool) list" where
  "mango_sort q =
     (case json_parse q of
        Some (JObj ms) \<Rightarrow> (case map_of ms ''sort'' of Some (JArr ks) \<Rightarrow> map sort_key ks | _ \<Rightarrow> [])
      | _ \<Rightarrow> [])"

fun comes_first :: "(string \<Rightarrow> string \<Rightarrow> bool) \<Rightarrow> (string \<times> bool) list \<Rightarrow> bytes \<Rightarrow> bytes \<Rightarrow> bool" where
  "comes_first le [] v w = True"
| "comes_first le ((f, desc) # ks) v w =
     (let a = doc_field f (if desc then w else v); b = doc_field f (if desc then v else w)
      in le a b \<and> (le b a \<longrightarrow> comes_first le ks v w))"

fun insert_row :: "(bytes \<Rightarrow> bytes \<Rightarrow> bool) \<Rightarrow> bytes \<Rightarrow> bytes list \<Rightarrow> bytes list" where
  "insert_row before v [] = [v]"
| "insert_row before v (w # ws) = (if before v w then v # w # ws else w # insert_row before v ws)"

definition couch_rows :: "(string \<Rightarrow> string \<Rightarrow> bool) \<Rightarrow> string \<Rightarrow> ledger \<Rightarrow> bytes list" where
  "couch_rows le q l = foldr (insert_row (comes_first le (mango_sort q))) (filter (mango_selects le q) (map snd l)) []"

text \<open>A bookmark is the number of the row the next page starts with.\<close>

definition couch_pos :: "string \<Rightarrow> nat option" where
  "couch_pos bm = (if bm = '''' then Some 0 else map_option nat (parse_int 64 bm))"

definition couch_query ::
    "(string \<Rightarrow> string \<Rightarrow> bool) \<Rightarrow> ledger \<Rightarrow> string \<Rightarrow> int \<Rightarrow> string \<Rightarrow> error + (error + bytes) list \<times> int \<times> string" where
  "couch_query le l q pagesize bm =
     (case couch_pos bm of
        None \<Rightarrow> Inl (ErrText ''invalid bookmark'')
      | Some k \<Rightarrow>
          (let pg = take (nat pagesize) (drop k (couch_rows le q l))
           in Inr (map Inr pg, int (length pg), itoa (int (k + length pg)))))"

definition couch_peer :: "(string \<Rightarrow> string \<Rightarrow> bool) \<Rightarrow> int \<Rightarrow> peer" where
  "couch_peer le now = \<lparr>refuse_get = \<lambda>_. None, refuse_put = \<lambda>_. None, rich_query = couch_query le,
     unix_now = now, knows_prc = True\<rparr>"

definition couch_env :: "(string \<Rightarrow> string \<Rightarrow> bool) \<Rightarrow> (nat \<Rightarrow> int) \<Rightarrow> environment" where
  "couch_env le clock = \<lparr>env_peer = \<lambda>t. couch_peer le (clock t), env_fate = \<lambda>_. Served,
     env_filter_ok = \<lambda>_. True, env_matches = (=)\<rparr>"

lemma couch_healthy [simp]: "healthy (couch_env le clock)"
  by (simp add: healthy_def couch_env_def couch_peer_def peer_ok_def)

lemma couch_env_peer [simp]: "env_peer (couch_env le clock) t = couch_peer le (clock t)"
  by (simp add: couch_env_def)

lemma mset_insert_row [simp]: "mset (insert_row before v ws) = add_mset v (mset ws)"
  by (induction before v ws rule: insert_row.induct) auto

lemma mset_couch_rows: "mset (couch_rows le q l) = mset (filter (mango_selects le q) (map snd l))"
proof -
  have "mset (foldr (insert_row b) vs []) = mset vs" for b vs
    by (induction vs) auto
  then show ?thesis by (simp add: couch_rows_def)
qed

lemma set_couch_rows: "set (couch_rows le q l) = {v \<in> snd ` set l. mango_selects le q v}"
  using mset_eq_setD [OF mset_couch_rows, of le q l] by auto

lemma length_couch_rows: "length (couch_rows le q l) \<le> length l"
  using mset_eq_length [OF mset_couch_rows, of le q l] length_filter_le [of _ "map snd l"] by simp

text \<open>An order of strings, as a collation gives it, sorts the rows.\<close>

definition collation :: "(string \<Rightarrow> string \<Rightarrow> bool) \<Rightarrow> bool" where
  "collation le \<longleftrightarrow> (\<forall>a b. le a b \<or> le b a) \<and> (\<forall>a b c. le a b \<longrightarrow> le b c \<longrightarrow> le a c)"

lemma comes_first_total: "collation le \<Longrightarrow> comes_first le ks v w \<or> comes_first le ks w v"
proof (induction ks)
  case (Cons k ks)
  then show ?case by (cases k) (auto simp: collation_def Let_def)
qed simp

lemma comes_first_trans:
  "collation le \<Longrightarrow> comes_first le ks u v \<Longrightarrow> comes_first le ks v w \<Longrightarrow> comes_first le ks u w"
proof (induction ks)
  case (Cons k ks)
  obtain f d where k: "k = (f, d)" by force
  have trans: "le a b \<Longrightarrow> le b c \<Longrightarrow> le a c" for a b c using Cons.prems(1) unfolding collation_def by blast
  from Cons show ?case
    unfolding k comes_first.simps Let_def by (cases d) (simp; meson trans)+
qed simp

lemma sorted_insert_row:
  assumes "\<And>x y. before x y \<or> before y x" "\<And>x y z. before x y \<Longrightarrow> before y z \<Longrightarrow> before x z"
  shows "sorted_wrt before ws \<Longrightarrow> sorted_wrt before (insert_row before v ws)"
proof (induction ws)
  case (Cons w ws)
  have "set (insert_row before v ws) = insert v (set ws)" for ws
    by (induction ws) auto
  with Cons assms show ?case by (auto; meson)
qed simp

lemma couch_rows_sorted: "collation le \<Longrightarrow> sorted_wrt (comes_first le (mango_sort q)) (couch_rows le q l)"
proof -
  assume c: "collation le"
  have "sorted_wrt (comes_first le (mango_sort q)) (foldr (insert_row (comes_first le (mango_sort q))) vs [])" for vs
  proof (induction vs)
    case (Cons v vs)
    show ?case
      unfolding foldr.simps comp_apply
      by (rule sorted_insert_row [OF comes_first_total [OF c] comes_first_trans [OF c] Cons])
  qed simp
  then show ?thesis by (simp add: couch_rows_def)
qed

section \<open>The pages the service sees\<close>

definition row_cert :: "bytes \<Rightarrow> certificate" where
  "row_cert v = (let c = fst (unmarshal_cert v) in c\<lparr>updateDate := take 10 (updateDate c)\<rparr>)"

definition row_ok :: "bytes \<Rightarrow> bool" where
  "row_ok v \<longleftrightarrow> snd (unmarshal_cert v) = None \<and> 10 \<le> length (updateDate (fst (unmarshal_cert v)))"

lemma digits_ascii: "list_all (\<lambda>c. byte c < 0x80) (decimal n)"
proof (induction n rule: decimal.induct)
  case (1 n)
  have "byte (digit_char (n mod 10)) < 0x80"
  proof -
    have "n mod 10 < 10" by simp
    then have "48 + n mod 10 < 0x80" by linarith
    then show ?thesis by (simp add: digit_char_def)
  qed
  with 1 show ?case by (subst decimal.simps) (simp add: digit_char_def)
qed

lemma itoa_utf8: "utf8_valid (itoa i)"
  using digits_ascii by (simp add: itoa_def utf8_valid_asciis)

lemma collect_rows: "\<forall>v \<in> set vs. row_ok v \<Longrightarrow> collect_certs (map Inr vs) = Inr (map (\<lambda>v. fst (unmarshal_cert v)) vs)"
  by (induction vs) (auto simp: row_ok_def split: prod.splits option.splits)

lemma shorten_rows:
  "\<forall>v \<in> set vs. row_ok v \<Longrightarrow> shorten_dates (map (\<lambda>v. fst (unmarshal_cert v)) vs) = Some (map row_cert vs)"
  by (induction vs) (auto simp: row_ok_def row_cert_def Let_def)

lemma marshal_list_nonempty: "list_internal_ok l \<Longrightarrow> marshal_list_internal l \<noteq> []"
  by (simp add: marshal_list_internal_def list_internal_json_ok)

text \<open>The contract's answer to one page request.\<close>

lemma couch_transact:
  assumes "fits 32 n" "couch_pos b = Some k" "\<forall>v \<in> set (couch_rows le q l). row_ok v"
  defines "pg \<equiv> take (nat n) (drop k (couch_rows le q l))"
  shows "fst (transact (couch_peer le now) [''queryList'', q, itoa n, b] l) =
    Ret (Success (marshal_list_internal
      \<lparr>li_pageCount = int (length pg), li_bookmark = itoa (int (k + length pg)),
       li_certs = appended (map (\<lambda>v. fst (unmarshal_cert v)) pg)\<rparr>))"
proof -
  have "\<forall>v \<in> set pg. row_ok v"
    using assms(3) by (auto simp: pg_def dest: in_set_takeD in_set_dropD)
  then have c: "collect_certs (map Inr pg) = Inr (map (\<lambda>v. fst (unmarshal_cert v)) pg)" by (rule collect_rows)
  have r: "rich_query (couch_peer le now) l q n b = Inr (map Inr pg, int (length pg), itoa (int (k + length pg)))"
    using assms(2) by (simp add: couch_peer_def couch_query_def pg_def Let_def)
  have "queryList (couch_peer le now) [q, itoa n, b] (new_stub l) =
    (Ret (Success (marshal_list_internal
      \<lparr>li_pageCount = int (length pg), li_bookmark = itoa (int (k + length pg)),
       li_certs = appended (map (\<lambda>v. fst (unmarshal_cert v)) pg)\<rparr>)), new_stub l)"
    using parse_int_itoa [OF assms(1)] c r
    by (simp add: queryList_def getQueryResultForQueryStringWithPagination_def new_stub_def)
  then show ?thesis by (simp add: transact_def)
qed

lemma couch_page:
  assumes "fits 32 n" "couch_pos b = Some k" "\<forall>v \<in> set (couch_rows le q (net_ledger w)). row_ok v"
  defines "pg \<equiv> take (nat n) (drop k (couch_rows le q (net_ledger w)))"
  shows "getNewBookmarks (connected (couch_env le clock)) q n b w =
    (Ret (Some \<lparr>li_pageCount = int (length pg), li_bookmark = itoa (int (k + length pg)),
                li_certs = appended (map row_cert pg)\<rparr>, None, 200), w\<lparr>net_tick := net_tick w + 1\<rparr>)"
proof -
  let ?l = "\<lparr>li_pageCount = int (length pg), li_bookmark = itoa (int (k + length pg)),
     li_certs = appended (map (\<lambda>v. fst (unmarshal_cert v)) pg)\<rparr>"
  have rows: "\<forall>v \<in> set pg. row_ok v"
    using assms(3) by (auto simp: pg_def dest: in_set_takeD in_set_dropD)
  have "length pg \<le> nat n" by (simp add: pg_def)
  then have "fits 64 (int (length pg))" using assms(1) by (auto simp: fits_def)
  then have ok: "list_internal_ok ?l"
    using itoa_utf8 unmarshal_cert_ok by (auto simp: list_internal_ok_def appended_def)
  have "Query (connected (couch_env le clock)) ''queryList'' [q, itoa n, b] w =
      (Ret (Inr (marshal_list_internal ?l)), w\<lparr>net_tick := net_tick w + 1\<rparr>)"
    using couch_transact [OF assms(1-3), of "clock (net_tick w)"]
    by (subst healthy_query) (simp_all add: pg_def)
  with ok list_internal_roundtrip [OF ok] marshal_list_nonempty [OF ok] shorten_rows [OF rows] show ?thesis
    by (simp add: getNewBookmarks_def appended_def)
qed

text \<open>Whatever the size and the bookmark, a page shows rows that the query selects.\<close>

lemma couch_page_rows:
  assumes "\<forall>v \<in> set (couch_rows le q (net_ledger w)). row_ok v"
    and page: "getNewBookmarks (connected (couch_env le clock)) q n b w = (Ret (Some li, None, code), w')" "li_certs li = Some cs"
  shows "set cs \<subseteq> row_cert ` set (couch_rows le q (net_ledger w))"
proof -
  let ?p = "couch_peer le (clock (net_tick w))"
  have answer: "fst (transact ?p [''queryList'', q, itoa n, b] (net_ledger w)) = fst (queryList ?p [q, itoa n, b] (new_stub (net_ledger w)))"
    by (simp add: transact_def split: prod.split outcome.split response.split)
  show ?thesis
  proof (cases "parse_int 32 (itoa n)")
    case None
    then have "\<exists>e. fst (transact ?p [''queryList'', q, itoa n, b] (net_ledger w)) = Ret (Failure e)"
      unfolding answer by (simp add: queryList_def)
    with page show ?thesis by (auto simp: getNewBookmarks_def healthy_query)
  next
    case (Some v)
    then have v: "fits 32 v" by (rule parse_int_fits)
    show ?thesis
    proof (cases "couch_pos b")
      case None
      then have "\<exists>e. fst (transact ?p [''queryList'', q, itoa n, b] (net_ledger w)) = Ret (Failure e)"
        unfolding answer using Some
        by (simp add: queryList_def getQueryResultForQueryStringWithPagination_def couch_peer_def couch_query_def)
      with page show ?thesis by (auto simp: getNewBookmarks_def healthy_query)
    next
      case pos: (Some k)
      have "getNewBookmarks (connected (couch_env le clock)) q n b w = getNewBookmarks (connected (couch_env le clock)) q v b w"
        using Some parse_int_itoa [OF v] by (simp add: getNewBookmarks_def healthy_query transact_def queryList_def)
      then have "cs = map row_cert (take (nat v) (drop k (couch_rows le q (net_ledger w))))"
        using page couch_page [OF v pos assms(1), of clock] by (auto simp: appended_def split: if_splits)
      then show ?thesis
        by (simp add: image_mono subset_trans [OF set_take_subset set_drop_subset])
    qed
  qed
qed

text \<open>The pages the contract of theory RichQuery speaks of.\<close>

definition couch_certs :: "(string \<Rightarrow> string \<Rightarrow> bool) \<Rightarrow> network \<Rightarrow> string \<Rightarrow> certificate list" where
  "couch_certs le w q = map (\<lambda>v. fst (unmarshal_cert v)) (couch_rows le q (net_ledger w))"

definition couch_list :: "(string \<Rightarrow> string \<Rightarrow> bool) \<Rightarrow> network \<Rightarrow> string \<Rightarrow> certificate list" where
  "couch_list le w q = map row_cert (couch_rows le q (net_ledger w))"

definition couch_ok :: "(string \<Rightarrow> string \<Rightarrow> bool) \<Rightarrow> ledger \<Rightarrow> int \<Rightarrow> string \<Rightarrow> network \<Rightarrow> bool" where
  "couch_ok le l n q w \<longleftrightarrow> net_ledger w = l \<and> 0 < n \<and> fits 32 n \<and> (\<forall>v \<in> set (couch_rows le q l). row_ok v)
     \<and> fits 64 (int (length (couch_rows le q l)))"

lemma couch_pos_next: "fits 64 (int m) \<Longrightarrow> couch_pos (itoa (int m)) = Some m"
proof -
  assume m: "fits 64 (int m)"
  have "decimal m \<noteq> []" by (subst decimal.simps) simp
  then have "itoa (int m) \<noteq> []" by (simp add: itoa_def)
  with parse_int_itoa [OF m] show ?thesis by (simp add: couch_pos_def)
qed

lemma couch_pos_fits: "couch_pos b = Some k \<Longrightarrow> fits 64 (int k)"
  by (auto simp: couch_pos_def fits_def split: if_splits dest!: parse_int_fits)

interpretation couch: paged_list "connected (couch_env le clock)" "couch_list le" couch_pos "couch_ok le l"
  for le clock l
proof
  show "0 < n" if "couch_ok le l n q w" for n q and w :: network
    using that by (simp add: couch_ok_def)
  show "couch_pos [] = Some 0" by (simp add: couch_pos_def)
  show "fits 64 (int (length (couch_list le w q)))" if "couch_ok le l n q w" for n q and w :: network
    using that by (auto simp: couch_ok_def couch_list_def)
  show "\<exists>w' b'. getNewBookmarks (connected (couch_env le clock)) q n b w =
          (Ret (Some \<lparr>li_pageCount = int (length (take (nat n) (drop k (couch_list le w q)))), li_bookmark = b',
                      li_certs = appended (take (nat n) (drop k (couch_list le w q)))\<rparr>, None, 200), w')
        \<and> couch_ok le l n q w' \<and> couch_list le w' q = couch_list le w q
        \<and> couch_pos b' = Some (k + length (take (nat n) (drop k (couch_list le w q))))"
    if ok: "couch_ok le l n q w" and b: "couch_pos b = Some k" for n q b k and w :: network
  proof -
    let ?m = "length (take (nat n) (drop k (couch_rows le q (net_ledger w))))"
    have p: "getNewBookmarks (connected (couch_env le clock)) q n b w =
      (Ret (Some \<lparr>li_pageCount = int ?m, li_bookmark = itoa (int (k + ?m)),
        li_certs = appended (map row_cert (take (nat n) (drop k (couch_rows le q (net_ledger w)))))\<rparr>, None, 200),
       w\<lparr>net_tick := net_tick w + 1\<rparr>)"
      by (rule couch_page) (use ok b in \<open>simp_all add: couch_ok_def\<close>)
    have "fits 64 (int (k + ?m))"
    proof (cases "k \<le> length (couch_rows le q (net_ledger w))")
      case True
      then have "k + ?m \<le> length (couch_rows le q (net_ledger w))" by simp
      with ok show ?thesis by (auto simp: couch_ok_def fits_def)
    next
      case False
      with couch_pos_fits [OF b] show ?thesis by simp
    qed
    then have "couch_pos (itoa (int (k + ?m))) = Some (k + ?m)" by (rule couch_pos_next)
    with p ok show ?thesis
      by (simp add: couch_list_def couch_ok_def take_map drop_map)
  qed
qed

section \<open>What the conditions select\<close>

definition eq_holds :: "string \<Rightarrow> string \<Rightarrow> bool" where
  "eq_holds cond v \<longleftrightarrow> squeeze cond = '''' \<or> v = squeeze cond"

definition ge_holds :: "(string \<Rightarrow> string \<Rightarrow> bool) \<Rightarrow> string \<Rightarrow> string \<Rightarrow> bool" where
  "ge_holds le cond v \<longleftrightarrow> squeeze cond = '''' \<or> le (squeeze cond) v"

definition le_holds :: "(string \<Rightarrow> string \<Rightarrow> bool) \<Rightarrow> string \<Rightarrow> string \<Rightarrow> bool" where
  "le_holds le cond v \<longleftrightarrow> squeeze cond = '''' \<or> le v (squeeze cond)"

definition fulfils :: "(string \<Rightarrow> string \<Rightarrow> bool) \<Rightarrow> query_conditions \<Rightarrow> certificate \<Rightarrow> bool" where
  "fulfils le qc c \<longleftrightarrow>
     eq_holds (qc_certType qc) (certType c) \<and> eq_holds (qc_certId qc) (certId c)
     \<and> eq_holds (qc_entrustOrg qc) (entrustOrg c) \<and> eq_holds (qc_instrumentName qc) (instrumentName c)
     \<and> ge_holds le (qc_startCreateDate qc) (updateDate c) \<and> le_holds le (qc_endCreateDate qc) (updateDate c)
     \<and> ge_holds le (qc_startCalibDate qc) (calibrateDate c) \<and> le_holds le (qc_endCalibDate qc) (calibrateDate c)"

lemma mango_selects_conjunction:
  assumes "json_parse q = Some (conjunction cs)" "json_parse v = Some (JObj doc)"
  shows "mango_selects le q v \<longleftrightarrow> list_all (mango_clause le doc) cs"
  using assms by (simp add: mango_selects_def mango_clauses_def conjunction_def)

definition cert_members :: "certificate \<Rightarrow> (string \<times> json) list" where
  "cert_members c = (case cert_json c of JObj ms \<Rightarrow> ms | _ \<Rightarrow> [])"

lemma cert_members: "cert_json c = JObj (cert_members c)"
  by (simp add: cert_members_def cert_json_def)

lemma cert_lookup [simp]:
  "map_of (cert_members c) ''certType'' = Some (JStr (certType c))"
  "map_of (cert_members c) ''certId'' = Some (JStr (certId c))"
  "map_of (cert_members c) ''entrustOrg'' = Some (JStr (entrustOrg c))"
  "map_of (cert_members c) ''instrumentName'' = Some (JStr (instrumentName c))"
  "map_of (cert_members c) ''updateDate'' = Some (JStr (updateDate c))"
  "map_of (cert_members c) ''calibrateDate'' = Some (JStr (calibrateDate c))"
  "map_of (cert_members c) ''isOpen'' = Some (JBool (isOpen c))"
  "map_of (cert_members c) ''isCompleted'' = Some (JBool (isCompleted c))"
  "map_of (cert_members c) ''isDeleted'' = Some (JBool (isDeleted c))"
  by (simp_all add: cert_members_def cert_json_def)

lemma eq_clause_holds:
  "map_of doc k = Some (JStr v) \<Longrightarrow> list_all (mango_clause le doc) (eq_clause cond k) \<longleftrightarrow> eq_holds cond v"
  by (simp add: eq_clause_def mango_clause_def mango_field_def eq_holds_def)

lemma co_clause_holds:
  assumes "map_of doc k = Some (JStr v)"
  shows "list_all (mango_clause le doc) (co_clause cond k ''$gte'') \<longleftrightarrow> ge_holds le cond v"
    "list_all (mango_clause le doc) (co_clause cond k ''$lte'') \<longleftrightarrow> le_holds le cond v"
  using assms by (simp_all add: co_clause_def mango_clause_def mango_field_def mango_operators_def
      ge_holds_def le_holds_def)

lemma flag_clause_holds:
  "map_of doc k = Some (JBool v) \<Longrightarrow> mango_clause le doc (flag_clause k b) \<longleftrightarrow> v = b"
  by (simp add: flag_clause_def mango_clause_def mango_field_def)

lemma conditions_hold:
  "list_all (mango_clause le (cert_members c)) (condition_clauses qc) \<longleftrightarrow> fulfils le qc c"
  by (simp add: condition_clauses_def eq_clause_holds co_clause_holds fulfils_def)

section \<open>The lists on the ledger of the service\<close>

text \<open>The certificates of a ledger are the entries that lie under their own identifier.\<close>

definition stored_certs :: "ledger \<Rightarrow> certificate list" where
  "stored_certs l = map (\<lambda>(k, v). fst (unmarshal_cert v))
     (filter (\<lambda>(k, v). k = cert_key (certId (fst (unmarshal_cert v)))) l)"

text \<open>The entries the service writes: stamped certificates and marshalled files.\<close>

definition service_file :: "string \<Rightarrow> bytes \<Rightarrow> bool" where
  "service_file k v \<longleftrightarrow> (\<exists>f i. v = marshal_file f \<and> k = file_key i)"

definition service_ledger :: "ledger \<Rightarrow> bool" where
  "service_ledger l \<longleftrightarrow> (\<forall>(k, v) \<in> set l. cert_entry k v \<or> service_file k v)"

definition shorten :: "certificate \<Rightarrow> certificate" where
  "shorten c = c\<lparr>updateDate := take 10 (updateDate c)\<rparr>"

text \<open>An encoded string reads as some string even when it is not valid UTF-8.\<close>

lemma esc_string_step:
  obtains "s = []" "esc_string s = []"
  | r t where "valid_rune r" "esc_string s = esc_rune r @ esc_string t" "length t < length s"
  | t where "esc_string s = CHR 0x5C # ''ufffd'' @ esc_string t" "length t < length s"
proof (cases s)
  case (Cons c cs)
  show thesis
  proof (cases "utf8_split s")
    case None
    then show thesis using Cons by (intro that(3) [of cs]) (simp_all add: esc_string.simps [of "c # cs"])
  next
    case (Some rt)
    obtain r t where rt: "rt = (r, t)" by force
    then have "valid_rune r" "length t < length s"
      using Some utf8_split_inv utf8_split_shorter by blast+
    with Cons Some rt show thesis by (intro that(2) [of r t]) (simp_all add: esc_string.simps [of "c # cs"])
  qed
qed (use that(1) in simp)

lemma parse_string_any: "\<exists>x. parse_string (esc_string s @ CHR 0x22 # t) = Some (x, t)"
proof (induction "length s" arbitrary: s rule: less_induct)
  case less
  show ?case
  proof (cases rule: esc_string_step [of s])
    case 1
    then show ?thesis by simp
  next
    case (2 r u)
    then show ?thesis using less [OF 2(3)] by (auto simp: parse_string_prepend prepend_def)
  next
    case (3 u)
    have "hex_digit (CHR ''f'') = Some 15" "hex_digit (CHR ''d'') = Some 13" by code_simp+
    then have "string_step (CHR 0x5C # ''ufffd'' @ x) = Some (utf8_encode 0xFFFD, x)" for x
      by (simp add: string_step_def unescape_u_def hex4_def is_surrogate_def)
    then show ?thesis
      using less [OF 3(2)] 3(1) by (auto simp: parse_string.simps [of "CHR 0x5C # x" for x] prepend_def)
  qed
qed

lemma parse_marshalled_file:
  obtains ms where "json_parse (marshal_file f) = Some (JObj ms)" "map_of ms ''isDeleted'' = None"
proof -
  let ?b = "bytes_json (fs_certFile f)"
  define k where "k = 2 * length (marshal_file f) + 100"
  define m where "m = Suc k"
  define C where "C = quote ''fileName'' @ CHR '':'' # quote (fs_fileName f) @ [CHR 0x7D]"
  define B where "B = quote ''certFile'' @ CHR '':'' # print_json ?b @ CHR '','' # C"
  define A where "A = quote ''certId'' @ CHR '':'' # quote (fs_certId f) @ CHR '','' # B"
  have print: "marshal_file f = CHR 0x7B # A"
    by (simp add: marshal_file_def file_json_def A_def B_def C_def)
  have key: 
    "parse_string (esc_string ''certId'' @ CHR 0x22 # t) = Some (''certId'', t)"
    "parse_string (esc_string ''certFile'' @ CHR 0x22 # t) = Some (''certFile'', t)"
    "parse_string (esc_string ''fileName'' @ CHR 0x22 # t) = Some (''fileName'', t)" for t
    by (intro parse_string_esc utf8_valid_asciis; simp)+
  obtain x where x: "parse_string (esc_string (fs_certId f) @ CHR 0x22 # CHR '','' # B) = Some (x, CHR '','' # B)"
    using parse_string_any by blast
  obtain z where z: "parse_string (esc_string (fs_fileName f) @ CHR 0x22 # [CHR 0x7D]) = Some (z, [CHR 0x7D])"
    using parse_string_any by blast
  have b: "parse_val (Suc m) (print_json ?b @ CHR '','' # C) = Some (?b, CHR '','' # C)"
    by (rule json_roundtrip_rest(1)) (use print in \<open>auto simp: m_def k_def A_def B_def bytes_json_def b64_ascii split: option.splits\<close>)
  have "parse_members (Suc m) C = Some ([(''fileName'', JStr z)], [])"
    using key z by (simp add: C_def quote_def parse_members.simps(2) parse_val.simps(2) m_def skip_nonspace expect_other)
  then have "parse_members (Suc (Suc m)) B = Some ([(''certFile'', ?b), (''fileName'', JStr z)], [])"
    using key b by (simp add: B_def quote_def parse_members.simps(2) expect_other)
  then have "parse_members (Suc (Suc (Suc m))) A
      = Some ([(''certId'', JStr x), (''certFile'', ?b), (''fileName'', JStr z)], [])"
    using key x by (simp add: A_def quote_def parse_members.simps(2) parse_val.simps(2) skip_nonspace expect_other)
  then have "parse_val (Suc (Suc (Suc (Suc m)))) (marshal_file f)
      = Some (JObj [(''certId'', JStr x), (''certFile'', ?b), (''fileName'', JStr z)], [])"
    by (simp add: print parse_val.simps(2) A_def quote_def skip_nonspace expect_other)
  moreover have "parse_val (Suc (Suc (Suc (Suc m)))) (marshal_file f)
      = parse_val (2 * length (marshal_file f) + 1) (marshal_file f)"
    by (rule json_parse_enough) (simp add: m_def k_def)
  ultimately have "json_parse (marshal_file f)
      = Some (JObj [(''certId'', JStr x), (''certFile'', ?b), (''fileName'', JStr z)])"
    by (simp add: json_parse_def skip_def)
  then show thesis by (rule that) simp
qed

lemma mango_flag_needed:
  assumes "map_of doc k = None" "flag_clause k b \<in> set cs"
  shows "\<not> list_all (mango_clause le doc) cs"
proof -
  have "\<not> mango_clause le doc (flag_clause k b)"
    using assms(1) by (simp add: mango_clause_def flag_clause_def)
  with assms(2) show ?thesis by (auto simp: list_all_iff)
qed

lemma parse_marshalled: "cert_ok c \<Longrightarrow> json_parse (marshal_cert c) = Some (JObj (cert_members c))"
  by (simp add: marshal_cert_def json_roundtrip cert_json_ok flip: cert_members)

lemma selects_cert:
  assumes "json_parse q = Some (conjunction cs)" "cert_ok c"
  shows "mango_selects le q (marshal_cert c) \<longleftrightarrow> list_all (mango_clause le (cert_members c)) cs"
  using mango_selects_conjunction [OF assms(1) parse_marshalled [OF assms(2)]] .

lemma selects_no_file:
  assumes "json_parse q = Some (conjunction cs)" "flag_clause ''isDeleted'' b \<in> set cs"
  shows "\<not> mango_selects le q (marshal_file f)"
proof -
  obtain ms where "json_parse (marshal_file f) = Some (JObj ms)" "map_of ms ''isDeleted'' = None"
    by (rule parse_marshalled_file)
  then show ?thesis using mango_selects_conjunction [OF assms(1)] mango_flag_needed [OF _ assms(2)] by blast
qed

lemma cert_entry_stored:
  assumes "cert_entry k v"
  obtains c t where "cert_ok c" "k = cert_key (certId c)" "v = marshal_cert c" "updateDate c = format_prc t"
proof -
  from assms obtain c t where "cert_ok c" "k = cert_key (certId c)" "v = marshal_cert (c\<lparr>updateDate := format_prc t\<rparr>)"
    unfolding cert_entry_def by blast
  then show thesis by (intro that [of "c\<lparr>updateDate := format_prc t\<rparr>" t]) simp_all
qed

text \<open>What a query selects from such a ledger, and as the service shows it.\<close>

lemma selected_certs:
  assumes "json_parse q = Some (conjunction cs)" "flag_clause ''isDeleted'' b \<in> set cs"
  shows "service_ledger l \<Longrightarrow>
     map (\<lambda>v. fst (unmarshal_cert v)) (filter (mango_selects le q) (map snd l))
     = filter (\<lambda>c. list_all (mango_clause le (cert_members c)) cs) (stored_certs l)"
proof (induction l)
  case Nil
  then show ?case by (simp add: stored_certs_def)
next
  case (Cons e l)
  obtain k v where e: "e = (k, v)" by force
  have IH: "map (\<lambda>v. fst (unmarshal_cert v)) (filter (mango_selects le q) (map snd l))
     = filter (\<lambda>c. list_all (mango_clause le (cert_members c)) cs) (stored_certs l)"
    using Cons by (simp add: service_ledger_def)
  from Cons.prems e consider "cert_entry k v" | "service_file k v" by (auto simp: service_ledger_def)
  then show ?case
  proof cases
    case 1
    then obtain c t where c: "cert_ok c" "k = cert_key (certId c)" "v = marshal_cert c"
      by (rule cert_entry_stored)
    then have "stored_certs (e # l) = c # stored_certs l"
      by (simp add: stored_certs_def e cert_roundtrip)
    then show ?thesis using IH e selects_cert [OF assms(1) c(1)] c by (simp add: cert_roundtrip)
  next
    case 2
    then obtain f i where f: "v = marshal_file f" "k = file_key i"
      by (auto simp: service_file_def)
    then have "stored_certs (e # l) = stored_certs l"
      by (simp add: stored_certs_def e)
    with IH e f selects_no_file [OF assms] show ?thesis by simp
  qed
qed

lemma row_cert_shorten: "row_cert v = shorten (fst (unmarshal_cert v))"
  by (simp add: row_cert_def shorten_def Let_def)

lemma selected_rows:
  assumes "json_parse q = Some (conjunction cs)" "flag_clause ''isDeleted'' b \<in> set cs" "service_ledger l"
  shows "map row_cert (filter (mango_selects le q) (map snd l))
     = map shorten (filter (\<lambda>c. list_all (mango_clause le (cert_members c)) cs) (stored_certs l))"
  unfolding selected_certs [OF assms, symmetric] by (simp add: row_cert_shorten)

lemma selected_rows_certs:
  assumes "json_parse q = Some (conjunction cs)" "flag_clause ''isDeleted'' b \<in> set cs" "service_ledger l"
    and "v \<in> set (couch_rows le q l)"
  obtains c t where "cert_ok c" "v = marshal_cert c" "updateDate c = format_prc t"
proof -
  from assms(4) obtain k where v: "(k, v) \<in> set l" "mango_selects le q v" by (auto simp: set_couch_rows)
  with assms(3) have "cert_entry k v \<or> service_file k v" by (auto simp: service_ledger_def)
  moreover have "\<not> service_file k v"
    using v(2) selects_no_file [OF assms(1,2)] by (auto simp: service_file_def)
  ultimately show thesis using cert_entry_stored that by metis
qed

lemma selected_rows_ok:
  assumes "json_parse q = Some (conjunction cs)" "flag_clause ''isDeleted'' b \<in> set cs" "service_ledger l"
    and "v \<in> set (couch_rows le q l)"
  shows "row_ok v"
proof -
  obtain c t where "cert_ok c" "v = marshal_cert c" "updateDate c = format_prc t"
    using selected_rows_certs [OF assms] .
  then show ?thesis by (simp add: row_ok_def cert_roundtrip)
qed

text \<open>The order the lists ask for: by update date, then by certificate identifier, the last first.\<close>

definition listed_before :: "(string \<Rightarrow> string \<Rightarrow> bool) \<Rightarrow> certificate \<Rightarrow> certificate \<Rightarrow> bool" where
  "listed_before le c d \<longleftrightarrow>
     le (updateDate d) (updateDate c) \<and> (le (updateDate c) (updateDate d) \<longrightarrow> le (certId d) (certId c))"

lemma conjunction_sort: "json_parse q = Some (conjunction cs) \<Longrightarrow> mango_sort q = [(''updateDate'', True), (''certId'', True)]"
  by (simp add: mango_sort_def conjunction_def sort_members_def)

lemma doc_field_cert: "cert_ok c \<Longrightarrow> doc_field ''updateDate'' (marshal_cert c) = updateDate c"
  "cert_ok c \<Longrightarrow> doc_field ''certId'' (marshal_cert c) = certId c"
  by (simp_all add: doc_field_def parse_marshalled)

lemma couch_certs_sorted:
  assumes "json_parse q = Some (conjunction cs)" "flag_clause ''isDeleted'' b \<in> set cs" "service_ledger (net_ledger w)"
    and "collation le"
  shows "sorted_wrt (listed_before le) (couch_certs le w q)"
  unfolding couch_certs_def sorted_wrt_map
proof (rule sorted_wrt_mono_rel [OF _ couch_rows_sorted [OF assms(4)]])
  fix v v' assume "v \<in> set (couch_rows le q (net_ledger w))" "v' \<in> set (couch_rows le q (net_ledger w))"
    and before: "comes_first le (mango_sort q) v v'"
  then obtain c c' where c: "cert_ok c" "v = marshal_cert c" "cert_ok c'" "v' = marshal_cert c'"
    using selected_rows_certs [OF assms(1-3)] by metis
  with before show "listed_before le (fst (unmarshal_cert v)) (fst (unmarshal_cert v'))"
    by (simp add: conjunction_sort [OF assms(1)] doc_field_cert cert_roundtrip listed_before_def Let_def)
qed

text \<open>The answer of a list query whose result is \<open>R\<close>.\<close>

definition list_answer :: "certificate list \<Rightarrow> query_conditions \<Rightarrow> query_value reply outcome" where
  "list_answer R qc =
     (let i = shown_index (nat (qc_pageSize qc)) (length R) (qc_pageIndex qc)
      in Ret (Some (ListValue \<lparr>cl_count = int (length R), cl_pageIndex = i,
                              cl_certs = appended (shown_page (nat (qc_pageSize qc)) R i)\<rparr>), None, 200))"

text \<open>The paging a client may ask for.\<close>

definition paging_ok :: "query_conditions \<Rightarrow> ledger \<Rightarrow> bool" where
  "paging_ok qc l \<longleftrightarrow> 0 < qc_pageSize qc \<and> fits 32 (qc_pageSize qc) \<and> 1 \<le> qc_pageIndex qc \<and> fits 64 (int (length l))"

lemma rich_query_answer:
  assumes "json_parse q = Some (conjunction cs)" "flag_clause ''isDeleted'' b \<in> set cs"
    and "service_ledger (net_ledger w)" "paging_ok qc (net_ledger w)" "qc_isOpen qc \<or> isLogin"
  shows "\<exists>w'. CertificateRichQuery (connected (couch_env le clock)) qc isLogin q w
      = Some (list_answer (couch_list le w q) qc, w') \<and> net_ledger w' = net_ledger w"
proof -
  have "couch_ok le (net_ledger w) (qc_pageSize qc) q w"
    using assms(4) selected_rows_ok [OF assms(1-3)] length_couch_rows [of le q "net_ledger w"]
    by (auto simp: couch_ok_def paging_ok_def fits_def)
  from couch.rich_query [OF this _ assms(5), where clock = clock] assms(4) show ?thesis
    by (auto simp: list_answer_def Let_def paging_ok_def couch_ok_def)
qed

text \<open>
  A list of the certificates of a ledger that are wanted: each of them as often as the ledger has
  it, and, if the database has an order of strings, in the order the lists ask for.
\<close>

definition right_list :: "(string \<Rightarrow> string \<Rightarrow> bool) \<Rightarrow> (certificate \<Rightarrow> bool) \<Rightarrow> ledger \<Rightarrow> certificate list \<Rightarrow> bool" where
  "right_list le wanted l cs \<longleftrightarrow>
     mset cs = mset (filter wanted (stored_certs l)) \<and> (collation le \<longrightarrow> sorted_wrt (listed_before le) cs)"

lemma right_list_set: "right_list le wanted l cs \<Longrightarrow> set cs = {c \<in> set (stored_certs l). wanted c}"
  using mset_eq_setD [of cs "filter wanted (stored_certs l)"] by (simp add: right_list_def)

lemma right_list_length: "right_list le wanted l cs \<Longrightarrow> length cs \<le> length (stored_certs l)"
  using mset_eq_length [of cs "filter wanted (stored_certs l)"] length_filter_le [of wanted "stored_certs l"]
  by (simp add: right_list_def)

lemma couch_certs_right:
  assumes "json_parse q = Some (conjunction cs)" "flag_clause ''isDeleted'' b \<in> set cs" "service_ledger (net_ledger w)"
  shows "right_list le (\<lambda>c. list_all (mango_clause le (cert_members c)) cs) (net_ledger w) (couch_certs le w q)"
    "couch_list le w q = map shorten (couch_certs le w q)"
proof -
  have "mset (couch_certs le w q)
      = mset (map (\<lambda>v. fst (unmarshal_cert v)) (filter (mango_selects le q) (map snd (net_ledger w))))"
    unfolding couch_certs_def mset_map mset_couch_rows ..
  then show "right_list le (\<lambda>c. list_all (mango_clause le (cert_members c)) cs) (net_ledger w) (couch_certs le w q)"
    unfolding right_list_def selected_certs [OF assms] using couch_certs_sorted [OF assms] by blast
  show "couch_list le w q = map shorten (couch_certs le w q)"
    by (simp add: couch_list_def couch_certs_def row_cert_shorten)
qed

lemma rich_query_answers:
  assumes "json_parse q = Some (conjunction cs)" "flag_clause ''isDeleted'' b \<in> set cs"
    and "service_ledger (net_ledger w)" "paging_ok qc (net_ledger w)" "qc_isOpen qc \<or> isLogin"
  shows "\<exists>L w'. CertificateRichQuery (connected (couch_env le clock)) qc isLogin q w = Some (list_answer (map shorten L) qc, w')
    \<and> net_ledger w' = net_ledger w
    \<and> right_list le (\<lambda>c. list_all (mango_clause le (cert_members c)) cs) (net_ledger w) L"
  using rich_query_answer [OF assms, of le clock] couch_certs_right(1) [OF assms(1-3), of le]
  unfolding couch_certs_right(2) [OF assms(1-3)] by blast

lemma clauses_hold:
  "list_all (mango_clause le (cert_members c)) (open_clauses @ condition_clauses qc)
     \<longleftrightarrow> isOpen c \<and> isCompleted c \<and> \<not> isDeleted c \<and> fulfils le qc c"
  "list_all (mango_clause le (cert_members c)) (draft_clauses @ condition_clauses qc)
     \<longleftrightarrow> \<not> isOpen c \<and> \<not> isCompleted c \<and> \<not> isDeleted c \<and> fulfils le qc c"
  "list_all (mango_clause le (cert_members c)) (deleted_clauses @ condition_clauses qc)
     \<longleftrightarrow> isDeleted c \<and> fulfils le qc c"
  by (auto simp: open_clauses_def draft_clauses_def deleted_clauses_def conditions_hold flag_clause_holds)

lemma flags_there:
  "flag_clause ''isDeleted'' False \<in> set (open_clauses @ cs)"
  "flag_clause ''isDeleted'' False \<in> set (draft_clauses @ cs)"
  "flag_clause ''isDeleted'' True \<in> set (deleted_clauses @ cs)"
  by (simp_all add: open_clauses_def draft_clauses_def deleted_clauses_def)

lemma list_answer_open [simp]: "list_answer R (qc\<lparr>qc_isOpen := b\<rparr>) = list_answer R qc"
  by (simp add: list_answer_def)

lemma open_flag_ignored [simp]:
  "plain_conditions (qc\<lparr>qc_isOpen := b\<rparr>) \<longleftrightarrow> plain_conditions qc"
  "paging_ok (qc\<lparr>qc_isOpen := b\<rparr>) l \<longleftrightarrow> paging_ok qc l"
  "fulfils le (qc\<lparr>qc_isOpen := b\<rparr>) c \<longleftrightarrow> fulfils le qc c"
  by (simp_all add: plain_conditions_def paging_ok_def fulfils_def)

section \<open>A sample\<close>

definition open_cert :: certificate where
  "open_cert = sample_cert\<lparr>isOpen := True, isCompleted := True, hasUpload := True, updateDate := format_prc 0\<rparr>"

definition open_ledger :: ledger where
  "open_ledger = [(cert_key ''C1'', marshal_cert open_cert)]"

definition list_conditions :: query_conditions where
  "list_conditions = zero_conditions\<lparr>qc_pageSize := 2, qc_pageIndex := 1, qc_isOpen := True, qc_certId := ''C 1''\<rparr>"

definition list_body :: string where
  "list_body = ''{\"pageSize\":2,\"pageIndex\":1,\"isOpen\":true,\"certId\":\"C 1\"}''"

lemma list_body: "unmarshal_conditions list_body = (list_conditions, None)"
  by code_simp

lemma list_conditions_ok:
  "plain_conditions list_conditions" "paging_ok list_conditions open_ledger" "qc_isOpen list_conditions"
  by (simp_all add: list_conditions_def plain_conditions_def zero_conditions_def squeeze_def remove_char_def
      plain_ascii plain_char_def paging_ok_def fits_def open_ledger_def)

lemma open_cert_ok: "cert_ok open_cert"
  using cert_ok_date [of "sample_cert\<lparr>isOpen := True, isCompleted := True, hasUpload := True\<rparr>" 0]
  by (simp add: open_cert_def cert_ok_def sample_cert_def zero_cert_def)

lemma sample_net_ledger [simp]: "net_ledger (sample_net l) = l"
  by (simp add: sample_net_def)

lemma open_ledger_service: "service_ledger (net_ledger (sample_net open_ledger))"
proof -
  have i: "certId sample_cert = ''C1''" by (simp add: sample_cert_def)
  have "cert_ok (sample_cert\<lparr>isOpen := True, isCompleted := True, hasUpload := True\<rparr>)"
    using sample_cert_ok by (simp add: cert_ok_def)
  moreover have "id_ok ''C1''" using plain_id_ok [OF sample_plain] by (simp add: i)
  ultimately have "cert_entry (cert_key ''C1'') (marshal_cert open_cert)"
    unfolding cert_entry_def open_cert_def
    by (intro exI [of _ "sample_cert\<lparr>isOpen := True, isCompleted := True, hasUpload := True\<rparr>"] exI [of _ 0])
       (simp add: i)
  then show ?thesis by (simp add: service_ledger_def open_ledger_def sample_net_def)
qed

lemma open_ledger_certs: "stored_certs (net_ledger (sample_net open_ledger)) = [open_cert]"
proof -
  have "certId open_cert = ''C1''" by (simp add: open_cert_def sample_cert_def)
  then show ?thesis
    by (simp add: stored_certs_def sample_net_def open_ledger_def cert_roundtrip open_cert_ok)
qed

lemma open_cert_listed:
  "isOpen open_cert" "isCompleted open_cert" "\<not> isDeleted open_cert" "fulfils le list_conditions open_cert"
  by (simp_all add: open_cert_def sample_cert_def zero_cert_def fulfils_def list_conditions_def zero_conditions_def
      eq_holds_def ge_holds_def le_holds_def squeeze_def remove_char_def)

text \<open>An order of strings by their codes, and two certificates of different dates.\<close>

fun text_le :: "string \<Rightarrow> string \<Rightarrow> bool" where
  "text_le [] ys = True"
| "text_le (x # xs) [] = False"
| "text_le (x # xs) (y # ys) = (of_char x < (of_char y :: nat) \<or> x = y \<and> text_le xs ys)"

lemma text_le_collation: "collation text_le"
proof -
  have "text_le a b \<or> text_le b a" for a b
  proof (induction a b rule: text_le.induct)
    case (3 x xs y ys)
    then show ?case using linorder_less_linear [of "of_char x :: nat" "of_char y"] of_char_eq_iff [of x y, where 'a = nat] by auto
  qed simp_all
  moreover have "text_le a b \<Longrightarrow> text_le b c \<Longrightarrow> text_le a c" for a b c
  proof (induction a b arbitrary: c rule: text_le.induct)
    case (3 x xs y ys)
    then show ?case by (cases c) auto
  qed simp_all
  ultimately show ?thesis unfolding collation_def by blast
qed

definition late_cert :: certificate where
  "late_cert = open_cert\<lparr>certId := ''C2'', updateDate := format_prc 86400\<rparr>"

definition two_ledger :: ledger where
  "two_ledger = [(cert_key ''C1'', marshal_cert open_cert), (cert_key ''C2'', marshal_cert late_cert)]"

definition all_conditions :: query_conditions where
  "all_conditions = zero_conditions\<lparr>qc_pageSize := 2, qc_pageIndex := 1\<rparr>"

definition all_body :: string where
  "all_body = ''{\"pageSize\":2,\"pageIndex\":1}''"

lemma all_body: "unmarshal_conditions all_body = (all_conditions, None)"
  by code_simp

lemma all_conditions_ok: "plain_conditions all_conditions" "paging_ok all_conditions (net_ledger (sample_net two_ledger))"
  by (simp_all add: all_conditions_def plain_conditions_def zero_conditions_def squeeze_def remove_char_def
      plain_ascii plain_char_def paging_ok_def fits_def two_ledger_def)

lemma late_cert_ok: "cert_ok late_cert"
  using cert_ok_date [OF open_cert_ok, of 86400] utf8_valid_asciis [of "''C2''"]
  by (simp add: late_cert_def cert_ok_def)

lemma two_ledger_service: "service_ledger (net_ledger (sample_net two_ledger))"
proof -
  have "id_ok ''C2''" by (rule plain_id_ok) (simp add: plain_text_def unreserved_def is_digit_def in_range_def)
  then have "cert_entry (cert_key ''C2'') (marshal_cert late_cert)"
    unfolding cert_entry_def using late_cert_ok
    by (intro exI [of _ late_cert] exI [of _ 86400]) (simp add: late_cert_def)
  then show ?thesis using open_ledger_service by (simp add: service_ledger_def open_ledger_def two_ledger_def)
qed

lemma two_ledger_certs: "stored_certs two_ledger = [open_cert, late_cert]"
proof -
  have "certId open_cert = ''C1''" "certId late_cert = ''C2''" by (simp_all add: open_cert_def late_cert_def sample_cert_def)
  then show ?thesis
    by (simp add: stored_certs_def two_ledger_def cert_roundtrip open_cert_ok late_cert_ok)
qed

lemma two_listed:
  "isOpen open_cert" "isCompleted open_cert" "\<not> isDeleted open_cert" "fulfils le all_conditions open_cert"
  "isOpen late_cert" "isCompleted late_cert" "\<not> isDeleted late_cert" "fulfils le all_conditions late_cert"
  by (simp_all add: late_cert_def open_cert_def sample_cert_def zero_cert_def fulfils_def all_conditions_def zero_conditions_def
      eq_holds_def ge_holds_def le_holds_def squeeze_def remove_char_def)

lemma late_first: "\<not> listed_before text_le open_cert late_cert"
proof -
  have "\<not> text_le (format_prc 86400) (format_prc 0)" by code_simp
  then show ?thesis by (simp add: listed_before_def late_cert_def open_cert_def)
qed

lemma two_orders: "mset L = {# a, b #} \<longleftrightarrow> L = [a, b] \<or> L = [b, a]"
proof
  assume m: "mset L = {# a, b #}"
  then have "length L = 2" by (metis size_mset size_add_mset size_empty One_nat_def Suc_1)
  then obtain x y where "L = [x, y]" by (auto simp: numeral_2_eq_2 length_Suc_conv)
  with m show "L = [a, b] \<or> L = [b, a]" by (auto simp: add_eq_conv_ex)
qed (auto simp: add_mset_commute)

lemma open_query_same [simp]: "editQueryString open_head (qc\<lparr>qc_isOpen := b, qc_pageIndex := i\<rparr>) = editQueryString open_head qc"
  "editQueryString open_head (qc\<lparr>qc_isOpen := b\<rparr>) = editQueryString open_head qc"
  "editQueryString open_head (qc\<lparr>qc_pageIndex := i\<rparr>) = editQueryString open_head qc"
  by (simp_all add: editQueryString_def)

lemma open_list_rows:
  assumes "unmarshal_conditions body = (qc, None)" "plain_conditions qc"
    and "service_ledger (net_ledger w)" "paging_ok qc (net_ledger w)"
  shows "\<exists>w'. OpenListRichQuery (connected (couch_env le clock)) body l w
     = Some (list_answer (couch_list le w (editQueryString open_head qc)) qc, w') \<and> net_ledger w' = net_ledger w"
proof -
  let ?qc = "qc\<lparr>qc_isOpen := True\<rparr>"
  have "plain_conditions ?qc" "paging_ok ?qc (net_ledger w)" "qc_isOpen ?qc \<or> l"
    using assms(2,4) by simp_all
  from rich_query_answer [OF open_query_means [OF this(1)] flags_there(1) assms(3) this(2,3), of le clock] assms(1)
  show ?thesis unfolding OpenListRichQuery_def by (auto simp: Let_def)
qed

lemma open_list_result:
  assumes "unmarshal_conditions body = (qc, None)" "plain_conditions qc"
    and "service_ledger (net_ledger w)" "paging_ok qc (net_ledger w)"
  shows "\<exists>L w'. OpenListRichQuery (connected (couch_env le clock)) body isLogin w = Some (list_answer (map shorten L) qc, w')
    \<and> net_ledger w' = net_ledger w
    \<and> right_list le (\<lambda>c. isOpen c \<and> isCompleted c \<and> \<not> isDeleted c \<and> fulfils le qc c) (net_ledger w) L"
proof -
  note q = open_query_means [OF assms(2)] flags_there(1) assms(3)
  have L: "right_list le (\<lambda>c. isOpen c \<and> isCompleted c \<and> \<not> isDeleted c \<and> fulfils le qc c) (net_ledger w)
      (couch_certs le w (editQueryString open_head qc))"
    "couch_list le w (editQueryString open_head qc) = map shorten (couch_certs le w (editQueryString open_head qc))"
    using couch_certs_right [OF q, of le] unfolding clauses_hold by simp_all
  show ?thesis
    using open_list_rows [OF assms, of le clock isLogin] L(1) unfolding L(2) by blast
qed

section \<open>Properties\<close>

text \<open>
  C8: The public list shows exactly the certificates that are open, completed, not deleted and
  fulfil the client's conditions, the latest first: whoever asks, the query ends, the count is the
  number of those certificates in the ledger, the page holds the slice of them the page index names
  (the one after the last page when the index is too large), in descending order of update date
  and certificate identifier if the database orders strings, and the ledger stays as it was.
\<close>

theorem open_list_answer:
  assumes "unmarshal_conditions body = (qc, None)" "plain_conditions qc"
    and "service_ledger (net_ledger w)" "paging_ok qc (net_ledger w)"
  shows "\<exists>L w'. OpenListRichQuery (connected (couch_env le clock)) body isLogin w = Some (list_answer (map shorten L) qc, w')
    \<and> net_ledger w' = net_ledger w
    \<and> mset L = mset (filter (\<lambda>c. isOpen c \<and> isCompleted c \<and> \<not> isDeleted c \<and> fulfils le qc c) (stored_certs (net_ledger w)))
    \<and> (collation le \<longrightarrow> sorted_wrt (listed_before le) L)"
  using open_list_result [OF assms] unfolding right_list_def .

text \<open>Two open certificates: the later one is shown first.\<close>

lemma open_list_answer_witness:
  "\<exists>w'. OpenListRichQuery (connected (couch_env text_le (\<lambda>_. 0))) all_body False (sample_net two_ledger)
      = Some (list_answer [shorten late_cert, shorten open_cert] all_conditions, w')
    \<and> net_ledger w' = two_ledger"
proof -
  obtain L w' where L: "OpenListRichQuery (connected (couch_env text_le (\<lambda>_. 0))) all_body False (sample_net two_ledger)
      = Some (list_answer (map shorten L) all_conditions, w')" "net_ledger w' = two_ledger"
    "mset L = {# open_cert, late_cert #}" "sorted_wrt (listed_before text_le) L"
    using open_list_answer [OF all_body all_conditions_ok(1) two_ledger_service all_conditions_ok(2), of text_le "\<lambda>_. 0" False]
    by (auto simp: two_ledger_certs two_listed text_le_collation)
  then have "L = [open_cert, late_cert] \<or> L = [late_cert, open_cert]" by (simp add: two_orders)
  with L(4) have "L = [late_cert, open_cert]" using late_first by auto
  with L show ?thesis by auto
qed

text \<open>
  C25: The draft list and the deleted list show a client who is logged in exactly the drafts
  (not open, not completed, not deleted) and the deleted certificates that fulfil the
  conditions, with the count, the page and the order as in the public list, and change nothing.
\<close>

theorem private_list_answers:
  assumes "unmarshal_conditions body = (qc, None)" "plain_conditions qc"
    and "service_ledger (net_ledger w)" "paging_ok qc (net_ledger w)"
  shows "(\<exists>L w'. DraftListRichQuery (connected (couch_env le clock)) body True w = Some (list_answer (map shorten L) qc, w')
      \<and> net_ledger w' = net_ledger w
      \<and> right_list le (\<lambda>c. \<not> isOpen c \<and> \<not> isCompleted c \<and> \<not> isDeleted c \<and> fulfils le qc c) (net_ledger w) L)
    \<and> (\<exists>L w'. DeletedListRichQuery (connected (couch_env le clock)) body True w = Some (list_answer (map shorten L) qc, w')
      \<and> net_ledger w' = net_ledger w
      \<and> right_list le (\<lambda>c. isDeleted c \<and> fulfils le qc c) (net_ledger w) L)"
  using rich_query_answers [OF draft_query_means [OF assms(2)] flags_there(2) assms(3,4), of True le clock]
    rich_query_answers [OF deleted_query_means [OF assms(2)] flags_there(3) assms(3,4), of True le clock] assms(1)
  unfolding DraftListRichQuery_def DeletedListRichQuery_def clauses_hold by simp

lemma private_list_answers_witness:
  "\<exists>w'. DraftListRichQuery (connected (couch_env (=) (\<lambda>_. 0))) list_body True (sample_net open_ledger)
      = Some (list_answer [] list_conditions, w') \<and> net_ledger w' = open_ledger"
  using private_list_answers [OF list_body list_conditions_ok(1) open_ledger_service, of "(=)" "\<lambda>_. 0"]
    list_conditions_ok(2)
  by (simp add: open_ledger_certs [simplified] open_cert_listed right_list_def)

text \<open>
  C31: Only the query's own isOpen flag guards the draft and the deleted list: a client who is
  not logged in is refused with 401 when the body leaves it false, and is answered like one who
  is logged in when the body sets it, whatever the setup.
\<close>

theorem private_lists_guard:
  assumes "unmarshal_conditions body = (qc, None)"
  shows "DraftListRichQuery fab body False w =
      (if qc_isOpen qc then DraftListRichQuery fab body True w
       else Some (Ret (None, Some (ErrText ''Should login''), 401), w))
    \<and> DeletedListRichQuery fab body False w =
      (if qc_isOpen qc then DeletedListRichQuery fab body True w
       else Some (Ret (None, Some (ErrText ''Should login''), 401), w))"
  using assms by (simp add: DraftListRichQuery_def DeletedListRichQuery_def CertificateRichQuery_def)

lemma private_lists_guard_witness:
  "DraftListRichQuery (connected sample_env) list_body False (sample_net [])
     = DraftListRichQuery (connected sample_env) list_body True (sample_net [])"
  using private_lists_guard [OF list_body, of "connected sample_env" "sample_net []"] list_conditions_ok(3) by simp

text \<open>The certificates in an answer.\<close>

definition answered :: "(query_value reply outcome \<times> 'w) option \<Rightarrow> certificate list" where
  "answered r =
     (case r of
        Some (Ret (Some (ListValue l), _), _) \<Rightarrow> (case cl_certs l of None \<Rightarrow> [] | Some cs \<Rightarrow> cs)
      | _ \<Rightarrow> [])"

lemma answered_list_answer:
  "answered (Some (list_answer R qc, w))
     = shown_page (nat (qc_pageSize qc)) R (shown_index (nat (qc_pageSize qc)) (length R) (qc_pageIndex qc))"
  by (simp add: answered_def list_answer_def Let_def appended_def)

lemma pages_concat:
  assumes "0 < N"
  shows "concat (map (\<lambda>i. shown_page N R (int i)) [1..<Suc (pages N (length R))]) = R"
proof -
  have "concat (map (\<lambda>j. take N (drop (j * N) R)) [0..<m]) = take (m * N) R" for m
    by (induction m) (simp_all add: add.commute flip: take_add)
  from this [of "pages N (length R)"] show ?thesis
    using pages_bounds [OF assms, of "length R"]
    by (simp add: shown_page_def comp_def flip: map_Suc_upt del: upt_Suc)
qed

lemma page_past_end:
  assumes "0 < N" "int (pages N (length R)) < i"
  shows "shown_page N R (shown_index N (length R) i) = []"
proof -
  have "nat (int (pages N (length R)) + 1) = Suc (pages N (length R))" by simp
  then show ?thesis
    using assms pages_bounds [OF assms(1), of "length R"] by (simp add: shown_page_def shown_index_def)
qed

lemma some_page_shows:
  assumes "c \<in> set R" "0 < N"
  shows "\<exists>i \<ge> 1. (nat i - 1) * N < length R \<and> c \<in> set (shown_page N R (shown_index N (length R) i))"
proof -
  from assms(1) obtain k where k: "k < length R" "R ! k = c" by (auto simp: in_set_conv_nth)
  define j where "j = k div N"
  have j: "j * N \<le> k" "k < j * N + N" unfolding j_def using dividend_less_div_times [OF assms(2), of k] by (simp_all add: add.commute)
  then have "k - j * N < length (take N (drop (j * N) R))" using k(1) by auto
  moreover have "take N (drop (j * N) R) ! (k - j * N) = c" using j k by simp
  ultimately have c: "c \<in> set (take N (drop (j * N) R))" by (metis nth_mem)
  have "j < pages N (length R)"
  proof (rule ccontr)
    assume "\<not> j < pages N (length R)"
    then have "pages N (length R) * N \<le> j * N" by simp
    with pages_bounds [OF assms(2), of "length R"] j(1) k(1) show False by linarith
  qed
  moreover have "nat (int j + 1) = Suc j" by simp
  ultimately show ?thesis using c j k(1)
    by (intro exI [of _ "int j + 1"]) (simp add: shown_page_def shown_index_def)
qed


text \<open>
  C22: The pages one to the last of the public list hold together every selected certificate as
  often as the ledger has it, in the order of the list, and any page after the last is empty.
\<close>

theorem open_pages_cover:
  fixes le :: "string \<Rightarrow> string \<Rightarrow> bool" and clock :: "nat \<Rightarrow> int" and isLogin :: bool and k :: nat and w :: network
  assumes "plain_conditions qc" "qc_isOpen qc" "service_ledger (net_ledger w)" "paging_ok qc (net_ledger w)"
  defines "chosen \<equiv> filter (\<lambda>c. isOpen c \<and> isCompleted c \<and> \<not> isDeleted c \<and> fulfils le qc c) (stored_certs (net_ledger w))"
    and "page_at \<equiv> \<lambda>i. answered (CertificateRichQuery (connected (couch_env le clock)) (qc\<lparr>qc_pageIndex := i\<rparr>) isLogin
           (editQueryString open_head qc) w)"
  defines "last_page \<equiv> pages (nat (qc_pageSize qc)) (length chosen)"
  shows "(\<exists>L. concat (map (\<lambda>i. page_at (int i)) [1..<Suc last_page]) = map shorten L
       \<and> mset L = mset chosen \<and> (collation le \<longrightarrow> sorted_wrt (listed_before le) L))
    \<and> page_at (int last_page + 1 + int k) = []"
proof -
  let ?q = "editQueryString open_head qc" and ?N = "nat (qc_pageSize qc)"
  let ?R = "couch_list le w ?q" and ?L = "couch_certs le w ?q"
  note q = open_query_means [OF assms(1)] flags_there(1) assms(3)
  have R: "?R = map shorten ?L" "mset ?L = mset chosen" "collation le \<longrightarrow> sorted_wrt (listed_before le) ?L"
    using couch_certs_right [OF q, of le] unfolding clauses_hold chosen_def right_list_def by simp_all
  have len: "length ?R = length chosen" using R(1) mset_eq_length [OF R(2)] by simp
  have N: "0 < ?N" using assms(4) by (simp add: paging_ok_def)
  have at: "page_at i = shown_page ?N ?R (shown_index ?N (length ?R) i)" if "1 \<le> i" for i
  proof -
    have "paging_ok (qc\<lparr>qc_pageIndex := i\<rparr>) (net_ledger w)" "qc_isOpen (qc\<lparr>qc_pageIndex := i\<rparr>) \<or> isLogin"
      using assms(2,4) that by (simp_all add: paging_ok_def)
    from rich_query_answer [OF q this, of le clock] show ?thesis
      by (auto simp: page_at_def answered_list_answer)
  qed
  have "map (\<lambda>i. page_at (int i)) [1..<Suc last_page] = map (\<lambda>i. shown_page ?N ?R (int i)) [1..<Suc last_page]"
    by (rule map_cong) (auto simp: at last_page_def len shown_index_def)
  then have "concat (map (\<lambda>i. page_at (int i)) [1..<Suc last_page]) = ?R"
    using pages_concat [OF N, of ?R] by (simp only: last_page_def len)
  moreover have "page_at (int last_page + 1 + int k) = []"
    using page_past_end [OF N, of ?R "int last_page + 1 + int k"] by (simp add: at last_page_def len)
  ultimately show ?thesis using R by (intro conjI exI [of _ ?L]) simp_all
qed

lemma open_pages_cover_witness:
  "answered (CertificateRichQuery (connected (couch_env (=) (\<lambda>_. 0))) (list_conditions\<lparr>qc_pageIndex := 1\<rparr>) False
       (editQueryString open_head list_conditions) (sample_net open_ledger)) = [shorten open_cert]"
proof -
  have "pages (nat (qc_pageSize list_conditions)) 1 = 1"
    by (simp add: list_conditions_def zero_conditions_def pages_def)
  then show ?thesis
    using open_pages_cover [OF list_conditions_ok(1,3) open_ledger_service, of "(=)" "\<lambda>_. 0" False]
      list_conditions_ok(2)
    by (simp add: open_ledger_certs [simplified] open_cert_listed)
qed






end
