(* ===== verification/Writes.thy ===== *)
theory Writes
  imports Files Couch
begin

text \<open>
  Which business operations can change the ledger, and how: a query never does, and what an
  operation that changes it writes is a certificate or a file of the service, so that the
  invariant of the service holds after any of them.
\<close>

section \<open>Operations that only read\<close>

context ledger_client
begin

lemma page_keeps: "ledger_of (snd (getNewBookmarks fab q n b w)) = ledger_of w"
proof (cases rule: query_cases [of "''queryList''" "[q, itoa n, b]" w])
  case (ok payload w')
  then show ?thesis
    by (auto simp: getNewBookmarks_def split: prod.splits option.splits if_splits)
qed (simp add: getNewBookmarks_def)

lemma gather_keeps:
  assumes "gather_bookmarks fab q n bms b w = Some (r, w')"
  shows "ledger_of w' = ledger_of w"
proof -
  have "fab = fab \<longrightarrow> ledger_of (snd (r, w')) = ledger_of w"
  proof (rule gather_bookmarks.raw_induct [OF _ assms,
      where P = "\<lambda>fb q n bms b w rw. fb = fab \<longrightarrow> ledger_of (snd rw) = ledger_of w"], rule impI)
    fix g fb q n bms b w rw
    assume step: "\<And>fb q n bms b w rw. g fb q n bms b w = Some rw \<Longrightarrow> fb = fab \<longrightarrow> ledger_of (snd rw) = ledger_of w"
      and run: "(case getNewBookmarks fb q n b w of
        (Panic m, w1) \<Rightarrow> Some (Panic m, w1)
      | (Ret (newList, err, code), w1) \<Rightarrow>
          (case err of
             Some e \<Rightarrow> Some (Ret (Inl (e, code)), w1)
           | None \<Rightarrow>
               (case newList of
                  None \<Rightarrow> Some (Panic nil_dereference, w1)
                | Some l \<Rightarrow>
                    (if last bms \<noteq> li_bookmark l \<and> li_pageCount l \<noteq> 0
                     then g fb q n (bms @ [li_bookmark l]) (li_bookmark l) w1
                     else Some (Ret (Inr bms), w1))))) = Some rw"
      and fb: "fb = fab"
    obtain res w1 where g1: "getNewBookmarks fab q n b w = (res, w1)" by (cases "getNewBookmarks fab q n b w") auto
    then have w1: "ledger_of w1 = ledger_of w" using page_keeps [of q n b w] by simp
    from run g1 w1 show "ledger_of (snd rw) = ledger_of w"
      unfolding fb by (cases rw) (fastforce split: outcome.splits option.splits if_splits dest: step)
  qed
  then show ?thesis by simp
qed

lemma and_then_keeps:
  "(\<And>a w. fst r = Ret a \<Longrightarrow> ledger_of (snd (f a w)) = ledger_of w) \<Longrightarrow> ledger_of (snd (and_then r f)) = ledger_of (snd r)"
  by (cases r; cases "fst r") auto

lemma finish_keeps: "ledger_of (snd (finish_query fab q n i bms w)) = ledger_of w"
proof -
  have tail: "ledger_of (snd (and_then (r, w) (\<lambda>c w. (k c, w)))) = ledger_of w" for r k w
    by (simp add: and_then_def split: outcome.split)
  show ?thesis
    unfolding finish_query_def Let_def
    by (subst and_then_keeps; (simp add: page_keeps and_then_keeps tail split: prod.split option.split))
qed

lemma rich_query_keeps:
  "CertificateRichQuery fab qc isLogin q w = Some (r, w') \<Longrightarrow> ledger_of w' = ledger_of w"
  using finish_keeps [of q "qc_pageSize qc" "qc_pageIndex qc"]
  by (auto simp: CertificateRichQuery_def split: if_splits option.splits outcome.splits sum.splits dest!: gather_keeps)
     (metis snd_conv)+

lemma OpenList_keeps: "OpenListRichQuery fab body b w = Some (r, w') \<Longrightarrow> ledger_of w' = ledger_of w"
  by (auto simp: OpenListRichQuery_def Let_def split: prod.splits option.splits dest: rich_query_keeps)

lemma DeletedList_keeps: "DeletedListRichQuery fab body b w = Some (r, w') \<Longrightarrow> ledger_of w' = ledger_of w"
  by (auto simp: DeletedListRichQuery_def split: prod.splits option.splits dest: rich_query_keeps)

lemma DraftList_keeps: "DraftListRichQuery fab body b w = Some (r, w') \<Longrightarrow> ledger_of w' = ledger_of w"
  by (auto simp: DraftListRichQuery_def split: prod.splits option.splits dest: rich_query_keeps)

lemmas lists_keep = OpenList_keeps DeletedList_keeps DraftList_keeps

lemma CertificateOut_keeps: "ledger_of (snd (CertificateOut fab param w)) = ledger_of w"
  unfolding CertificateOut_def Let_def
  by (subst and_then_keeps; (simp add: query_keeps split: sum.split prod.split option.split))

lemma DownloadFile_keeps: "ledger_of (snd (snd (DownloadFile os fab param (d, w)))) = ledger_of w"
proof (cases rule: query_cases [of "''getDownloadFile''" "[lookup_param param ''certId'']" w])
  case (ok payload w')
  then show ?thesis
    by (auto simp: DownloadFile_def on_world_def split: prod.splits option.splits)
qed (simp add: DownloadFile_def on_world_def)

end

section \<open>Operations that write\<close>

text \<open>The invocations the service makes: certificates that may be open, and files that are PDF.\<close>

definition service_call :: "ledger \<Rightarrow> string list \<Rightarrow> bool" where
  "service_call l args \<longleftrightarrow>
     (\<exists>c. args = [''postCertificate'', marshal_cert c] \<and> cert_ok c
        \<and> (isOpen c \<longrightarrow> hasUpload c \<and> abs_files l (certId c) \<noteq> None))
     \<or> (\<exists>i buf. args = [''postUploadFile'', marshal_file (file_record i buf)] \<and> is_pdf buf)"

text \<open>The invariant: open certificates have their file, and every entry is one of the service's.\<close>

definition ledger_inv :: "ledger \<Rightarrow> bool" where
  "ledger_inv l \<longleftrightarrow> app_ok l \<and> service_ledger l"

lemma ledger_inv_Nil [simp]: "ledger_inv []"
  by (simp add: ledger_inv_def app_ok_def open_ok_def abs_certs_def service_ledger_def)

lemma service_ledger_put:
  "service_ledger l \<Longrightarrow> cert_entry k v \<or> service_file k v \<Longrightarrow> service_ledger (put k v l)"
  using put_all [of l "\<lambda>(k, v). cert_entry k v \<or> service_file k v" k v] by (auto simp: service_ledger_def)

lemma service_call_keeps:
  assumes "ledger_inv l" "service_call l args"
  shows "ledger_inv (snd (transact p args l))"
  using assms(2) unfolding service_call_def
proof (elim disjE exE conjE)
  fix c assume c: "args = [''postCertificate'', marshal_cert c]" "cert_ok c"
    "isOpen c \<longrightarrow> hasUpload c \<and> abs_files l (certId c) \<noteq> None"
  have "service_ledger (snd (transact p args l))"
  proof (cases rule: post_marshalled [OF c(2), of p l])
    case 1
    then show ?thesis using assms(1) c(1) by (simp add: ledger_inv_def)
  next
    case (2 t)
    have "cert_entry (cert_key (certId c)) (marshal_cert (c\<lparr>updateDate := format_prc t\<rparr>))"
      using 2(1) c(2) by (auto simp: cert_entry_def)
    with 2 assms(1) c(1) show ?thesis by (simp add: ledger_inv_def service_ledger_put)
  qed
  with app_ok_post_cert [of l c p] assms(1) c show ?thesis by (simp add: ledger_inv_def)
next
  fix cid buf assume f: "args = [''postUploadFile'', marshal_file (file_record cid buf)]"
  let ?f = "file_record cid buf"
  have "snd (transact p args l) = l \<or> (\<exists>i. snd (transact p args l) = put (file_key i) (marshal_file ?f) l
      \<and> file_entry (file_key i) (marshal_file ?f))"
    by (auto simp: f transact_post_file file_entry_def id_ok_def split: prod.splits option.splits)
  moreover have "service_file (file_key i) (marshal_file ?f)" for i
    by (auto simp: service_file_def)
  ultimately show ?thesis
    using assms(1) app_ok_put_file [of l] service_ledger_put [of l] unfolding ledger_inv_def by metis
qed

context ledger_client
begin

lemma CertificateIn_inv:
  assumes "ledger_inv (ledger_of w)"
  shows "ledger_inv (ledger_of (snd (CertificateIn fab body w)))"
proof -
  have post: "ledger_inv (snd (transact p [''postCertificate'', marshal_cert (c\<lparr>hasUpload := upload\<rparr>)] (ledger_of w)))"
    if "unmarshal_cert body = (c, None)" "isOpen c \<longrightarrow> upload"
      "upload \<longrightarrow> abs_files (ledger_of w) (certId c) \<noteq> None" for c upload p
    using unmarshal_cert_ok [of body] that
    by (intro service_call_keeps [OF assms]) (auto simp: service_call_def cert_ok_def)
  show ?thesis
    by (cases rule: CertificateIn_cases [of body w]) (use assms post in auto)
qed

lemma and_then_inv:
  assumes "\<And>a w. ledger_inv (ledger_of w) \<Longrightarrow> ledger_inv (ledger_of (snd (f a w)))"
    and "ledger_inv (ledger_of (snd r))"
  shows "ledger_inv (ledger_of (snd (and_then r f)))"
  using assms by (cases r; cases "fst r") auto

lemma CertificateIn_then:
  assumes "\<And>a w. snd (k a w) = w" "ledger_inv (ledger_of w)"
  shows "ledger_inv (ledger_of (snd (and_then (CertificateIn fab b w) k)))"
  by (rule and_then_inv) (simp_all add: assms CertificateIn_inv)

lemma CertificateOut_then:
  assumes "\<And>a w. ledger_inv (ledger_of w) \<Longrightarrow> ledger_inv (ledger_of (snd (k a w)))" "ledger_inv (ledger_of w)"
  shows "ledger_inv (ledger_of (snd (and_then (CertificateOut fab param w) k)))"
  by (rule and_then_inv) (simp_all add: assms CertificateOut_keeps)

lemma change_one_inv: "ledger_inv (ledger_of w) \<Longrightarrow> ledger_inv (ledger_of (snd (change_one fab st w)))"
  unfolding change_one_def Let_def
  by (rule CertificateOut_then; simp add: CertificateIn_then split: prod.split option.split)

lemma change_all_inv: "ledger_inv (ledger_of w) \<Longrightarrow> ledger_inv (ledger_of (snd (change_all fab sts w)))"
proof (induction sts arbitrary: w)
  case (Cons st sts)
  have "ledger_inv (ledger_of (snd (and_then (change_all fab sts w1) k)))"
    if "ledger_inv (ledger_of w1)" "\<And>a w. snd (k a w) = w" for w1 and k :: "status list \<Rightarrow> 'w \<Rightarrow> status list outcome \<times> 'w"
    by (rule and_then_inv) (simp_all add: that Cons.IH)
  then show ?case
    unfolding change_all.simps by (intro and_then_inv) (simp_all add: change_one_inv Cons.IH Cons.prems)
qed simp

lemma ChangeStatus_inv: "ledger_inv (ledger_of w) \<Longrightarrow> ledger_inv (ledger_of (snd (ChangeStatus fab body w)))"
proof -
  assume w: "ledger_inv (ledger_of w)"
  have "ledger_inv (ledger_of (snd (and_then (change_all fab sts w) k)))"
    if "\<And>a w. snd (k a w) = w" for sts and k :: "status list \<Rightarrow> 'w \<Rightarrow> status list option reply outcome \<times> 'w"
    by (rule and_then_inv) (simp_all add: that w change_all_inv)
  with w show ?thesis by (simp add: ChangeStatus_def split: prod.split option.split)
qed

lemma refresh_inv: "ledger_inv (ledger_of w) \<Longrightarrow> ledger_inv (ledger_of (snd (refresh_certificate fab i txid w)))"
  unfolding refresh_certificate_def
  by (rule CertificateOut_then; simp add: CertificateIn_then split: prod.split option.split)

lemma post_file_inv:
  assumes "ledger_inv l" "is_pdf buf"
  shows "ledger_inv (snd (transact p [''postUploadFile'', marshal_file (file_record i buf)] l))"
  by (rule service_call_keeps [OF assms(1)]) (use assms(2) in \<open>auto simp: service_call_def\<close>)

lemma upload_bytes_inv:
  assumes "ledger_inv (ledger_of w)"
  shows "ledger_inv (ledger_of (snd (upload_bytes fab i buf w)))"
proof (cases "is_pdf buf")
  case True
  let ?x = "Execute fab (''postUploadFileEvent'' @ i) ''postUploadFile'' [marshal_file (file_record i buf)] w"
  have "ledger_inv (ledger_of (snd ?x))"
    by (cases rule: execute_cases [of "''postUploadFileEvent'' @ i" "''postUploadFile''" "[marshal_file (file_record i buf)]" w])
       (use assms post_file_inv [OF assms True] in \<open>auto, metis snd_conv\<close>)
  then show ?thesis
    using True by (auto simp: upload_bytes_def file_record_def refresh_inv split: sum.split intro!: and_then_inv)
qed (simp add: upload_bytes_def assms)

lemma UploadFile_inv:
  "ledger_inv (ledger_of w) \<Longrightarrow> ledger_inv (ledger_of (snd (snd (UploadFile os fab i upload (d, w)))))"
  using upload_bytes_inv [of w i]
  by (auto simp: UploadFile_def Let_def on_world_def split: prod.split option.split sum.split)
     (metis snd_conv)

text \<open>On a ledger with the invariant none of them panics.\<close>

lemma CertificateOut_returns: "ledger_inv (ledger_of w) \<Longrightarrow> \<not> is_panic (fst (CertificateOut fab param w))"
  using app_ok_ledger [of "ledger_of w"]
  by (cases rule: CertificateOut_cases [of w param]) (auto simp: ledger_inv_def)

lemma ChangeStatus_returns:
  assumes "ledger_inv (ledger_of w)"
  shows "\<not> is_panic (fst (ChangeStatus fab body w))"
proof -
  have app: "app_ok (ledger_of w)" using assms by (simp add: ledger_inv_def)
  have "\<not> is_panic (fst (and_then (change_all fab sts w) (\<lambda>a w. (Ret (g a), w))))"
    for sts and g :: "status list \<Rightarrow> status list option reply"
    using change_all_returns [OF app, of sts] by auto
  then show ?thesis by (simp add: ChangeStatus_def split: prod.split option.split)
qed

lemma refresh_no_panic: "ledger_inv (ledger_of w) \<Longrightarrow> \<not> is_panic (fst (refresh_certificate fab i txid w))"
  by (rule refresh_returns [of w i txid]) (simp_all add: ledger_inv_def)

lemma upload_bytes_returns:
  assumes "ledger_inv (ledger_of w)"
  shows "\<not> is_panic (fst (upload_bytes fab i buf w))"
proof (cases "is_pdf buf")
  case True
  show ?thesis
  proof (cases rule: execute_cases [of "''postUploadFileEvent'' @ i" "''postUploadFile''" "[marshal_file (file_record i buf)]" w])
    case (ok txid w' p r)
    then have "ledger_inv (ledger_of w')" using post_file_inv [OF assms True, of p i] by simp
    with ok refresh_no_panic [of w' i txid] show ?thesis by (simp add: upload_bytes_def file_record_def)
  qed (simp add: upload_bytes_def file_record_def)
qed (simp add: upload_bytes_def)

lemma UploadFile_returns:
  "ledger_inv (ledger_of w) \<Longrightarrow> \<not> is_panic (fst (UploadFile os fab i upload (d, w)))"
  using upload_bytes_returns [of w i]
  by (simp add: UploadFile_def Let_def on_world_def split: prod.split option.split sum.split) (metis fst_conv)

lemma DownloadFile_returns: "\<not> is_panic (fst (DownloadFile os fab param (d, w)))"
proof (cases rule: query_cases [of "''getDownloadFile''" "[lookup_param param ''certId'']" w])
  case (ok payload w')
  then show ?thesis
    by (auto simp: DownloadFile_def on_world_def split: prod.splits option.splits)
qed (simp add: DownloadFile_def on_world_def)

end

text \<open>What the ledger holds of an open certificate.\<close>

lemma stored_certs_abs:
  assumes "ledger_ok l" "c \<in> set (stored_certs l)"
  shows "abs_certs l (certId c) = Some c"
proof -
  obtain k v where v: "(k, v) \<in> set l" "k = cert_key (certId c)" "c = fst (unmarshal_cert v)"
    using assms(2) by (auto simp: stored_certs_def)
  then have "map_of l (cert_key (certId c)) = Some v"
    using assms(1) by (auto simp: ledger_ok_def)
  with v(3) show ?thesis by (simp add: abs_certs_def)
qed

lemma abs_certs_stored:
  assumes "ledger_ok l" "abs_certs l i = Some c"
  shows "c \<in> set (stored_certs l)"
proof -
  obtain v where v: "map_of l (cert_key i) = Some v" using assms(2) by (auto simp: abs_certs_def)
  obtain c' t where "certId c' = i" "unmarshal_cert v = (c', None)" "abs_certs l i = Some c'"
    using stored_cert [OF assms(1) v] .
  with assms(2) have "unmarshal_cert v = (c, None)" "certId c = i" by simp_all
  then show ?thesis using map_of_SomeD [OF v] by (force simp: stored_certs_def)
qed

lemma open_stored_covered:
  assumes "ledger_inv l" "c \<in> set (stored_certs l)" "isOpen c"
  shows "hasUpload c \<and> abs_files l (certId c) \<noteq> None"
proof -
  have inv: "ledger_ok l" "open_ok l" using assms(1) by (simp_all add: ledger_inv_def app_ok_def)
  have "abs_certs l (certId c) = Some c" by (rule stored_certs_abs [OF inv(1) assms(2)])
  with inv(2) assms(3) show ?thesis unfolding open_ok_def by blast
qed

end
