(* ===== verification/Service.thy ===== *)
theory Service
  imports Handlers Writes
begin

text \<open>
  The server as a state machine: requests in any order, interleaved with runs of the session
  collector. The lemmas: who counts as logged in after any history, that only a logged-in
  client's request changes the ledger, and that the ledger keeps its invariant; then single
  handlers: logging in and out, and the statuses of their replies.
\<close>

section \<open>Sessions as the handlers see them\<close>

abbreviation prov :: "'w server \<Rightarrow> provider" where
  "prov s \<equiv> m_provider (sv_manager s)"

definition has_cookie :: "exchange \<Rightarrow> bool" where
  "has_cookie ex \<longleftrightarrow> ex_cookie ex \<noteq> None \<and> ex_cookie ex \<noteq> Some ''''"

text \<open>The session a request runs under: the cookie's, or a new one.\<close>

definition session_of :: "'w app \<Rightarrow> exchange \<Rightarrow> 'w server \<Rightarrow> string" where
  "session_of ap ex s =
     (if has_cookie ex then unescaped (the (ex_cookie ex)) else sessionId (ap_random ap (sv_tick s)))"

definition logged_in :: "'w server \<Rightarrow> string \<Rightarrow> bool" where
  "logged_in s sid =
     (case view_of (prov s) sid of
        None \<Rightarrow> False
      | Some m \<Rightarrow> (case m ''username'' of None \<Rightarrow> False | Some u \<Rightarrow> u \<noteq> ''''))"

text \<open>The request comes with the cookie of a session that is logged in.\<close>

definition admitted :: "exchange \<Rightarrow> 'w server \<Rightarrow> bool" where
  "admitted ex s \<longleftrightarrow> has_cookie ex \<and> logged_in s (unescaped (the (ex_cookie ex)))"

lemma start_session_law:
  assumes "session_ok (prov s)" "start_session ap ex s = (h, cs, s1)"
  shows "session_ok (prov s1)" "handle_of (prov s1) h (session_of ap ex s)"
    "view_of (prov s1) = (view_of (prov s))(session_of ap ex s \<mapsto>
       (if has_cookie ex then (case view_of (prov s) (session_of ap ex s) of None \<Rightarrow> Map.empty | Some m \<Rightarrow> m)
        else Map.empty))"
    "sv_world s1 = sv_world s" "sv_disk s1 = sv_disk s"
proof -
  obtain m where st: "SessionStart (ap_now ap (sv_tick s)) (ap_random ap (sv_tick s)) (ex_cookie ex) (sv_manager s) = (h, cs, m)"
    and s1: "s1 = s\<lparr>sv_manager := m, sv_tick := sv_tick s + 1\<rparr>"
    using assms(2) by (auto simp: start_session_def split: prod.splits)
  have "session_ok (m_provider m) \<and> handle_of (m_provider m) h (session_of ap ex s)
    \<and> view_of (m_provider m) = (view_of (prov s))(session_of ap ex s \<mapsto>
       (if has_cookie ex then (case view_of (prov s) (session_of ap ex s) of None \<Rightarrow> Map.empty | Some m \<Rightarrow> m)
        else Map.empty))"
  proof (cases "has_cookie ex")
    case True
    then obtain p where p: "SessionRead (ap_now ap (sv_tick s)) (session_of ap ex s) (prov s) = (h, p)" "m_provider m = p"
      using st by (auto simp: SessionStart_def has_cookie_def session_of_def split: prod.splits)
    with memory.read_law [OF assms(1) p(1)] True show ?thesis by simp
  next
    case False
    then obtain p where p: "SessionInit (ap_now ap (sv_tick s)) (session_of ap ex s) (prov s) = (h, p)" "m_provider m = p"
      using st by (auto simp: SessionStart_def has_cookie_def session_of_def Let_def split: prod.splits)
    with memory.init_law [OF assms(1) p(1)] False show ?thesis by simp
  qed
  then show "session_ok (prov s1)" "handle_of (prov s1) h (session_of ap ex s)"
    "view_of (prov s1) = (view_of (prov s))(session_of ap ex s \<mapsto>
       (if has_cookie ex then (case view_of (prov s) (session_of ap ex s) of None \<Rightarrow> Map.empty | Some m \<Rightarrow> m)
        else Map.empty))"
    by (simp_all add: s1)
qed (use assms(2) in \<open>auto simp: start_session_def split: prod.splits\<close>)

lemma logged_in_view:
  "view_of (prov s') = (view_of (prov s))(x \<mapsto> m) \<Longrightarrow>
     logged_in s' sid =
       (if sid = x then (case m ''username'' of None \<Rightarrow> False | Some u \<Rightarrow> u \<noteq> '''') else logged_in s sid)"
  by (simp add: logged_in_def)

lemma logged_in_cong: "view_of (prov s') = view_of (prov s) \<Longrightarrow> logged_in s' = logged_in s"
  by (simp add: logged_in_def fun_eq_iff)

lemma start_session_logged:
  assumes "session_ok (prov s)" "start_session ap ex s = (h, cs, s1)"
  shows "logged_in s1 sid \<longleftrightarrow> logged_in s sid \<and> (has_cookie ex \<or> sid \<noteq> session_of ap ex s)"
  using logged_in_view [OF start_session_law(3) [OF assms], of sid]
  by (auto simp: logged_in_def split: option.splits)

lemma on_provider_simps [simp]:
  "prov (on_provider f s) = f (prov s)" "sv_world (on_provider f s) = sv_world s"
  "sv_disk (on_provider f s) = sv_disk s"
  by (simp_all add: on_provider_def)

lemma isLogin_law:
  assumes "session_ok (prov s)" "isLogin ap ex s = (b, cs, s2)"
  shows "session_ok (prov s2)" "sv_world s2 = sv_world s" "sv_disk s2 = sv_disk s"
    "logged_in s2 sid \<longleftrightarrow> logged_in s sid \<and> (has_cookie ex \<or> sid \<noteq> session_of ap ex s)"
    "b \<longleftrightarrow> admitted ex s"
proof -
  obtain h cs' s1 where st: "start_session ap ex s = (h, cs', s1)" by (cases "start_session ap ex s") auto
  obtain u p where g: "store_Get (ap_now ap (sv_tick s1)) h ''username'' (prov s1) = (u, p)" by force
  note law = start_session_law [OF assms(1) st]
  have p: "session_ok p" "view_of p = view_of (prov s1)" "u = the (view_of (prov s1) (session_of ap ex s)) ''username''"
    using memory.get_law [OF law(1,2) g] by simp_all
  have s2: "s2 = on_provider (\<lambda>_. p) s1" and b: "b = (case u of None \<Rightarrow> False | Some u \<Rightarrow> u \<noteq> '''')"
    using assms(2) st g by (auto simp: isLogin_def)
  show "session_ok (prov s2)" "sv_world s2 = sv_world s" "sv_disk s2 = sv_disk s"
    using p law(4,5) by (simp_all add: s2)
  have "logged_in s2 = logged_in s1" by (rule logged_in_cong) (simp add: s2 p)
  then show "logged_in s2 sid \<longleftrightarrow> logged_in s sid \<and> (has_cookie ex \<or> sid \<noteq> session_of ap ex s)"
    using start_session_logged [OF assms(1) st] by simp
  show "b \<longleftrightarrow> admitted ex s"
    unfolding b p(3) law(3) admitted_def logged_in_def
    by (auto simp: session_of_def split: option.splits)
qed

section \<open>What each handler does to the sessions\<close>

definition right_login :: "exchange \<Rightarrow> bool" where
  "right_login ex =
     (case ex_body ex of
        Inl _ \<Rightarrow> False
      | Inr b \<Rightarrow> (case unmarshal_user b of (u, None) \<Rightarrow> isRightUser u | _ \<Rightarrow> False))"

lemma call_world_manager: "sv_manager (snd (call_world f k s)) = sv_manager s"
  by (auto simp: call_world_def split: outcome.splits prod.splits)

lemma call_disk_manager:
  "(\<And>a s'. sv_manager (snd (k a s')) = sv_manager s') \<Longrightarrow> sv_manager (snd (call_disk f k s)) = sv_manager s"
  by (auto simp: call_disk_def split: outcome.splits prod.splits)

text \<open>The handlers that do not log in or out leave the sessions as the check leaves them.\<close>

lemma plain_handler_sessions:
  assumes "t \<noteq> Login" "t \<noteq> Logout"
  shows "sv_manager (snd (handler_of t ap ex s)) = sv_manager s
    \<or> sv_manager (snd (handler_of t ap ex s)) = sv_manager (snd (snd (isLogin ap ex s)))"
  using assms
  by (cases t)
     (auto simp: postCertificate_def postUploadFile_def getDownloadFile_def getCertificate_def getOpenList_def
        getDeletedList_def getDraftList_def postChangeStatus_def call_world_manager call_disk_manager
        split: prod.splits sum.splits option.splits list.splits)

lemma postLogin_sessions:
  assumes "session_ok (prov s)"
  shows "session_ok (prov (snd (postLogin ap ex s)))"
    and "logged_in (snd (postLogin ap ex s)) sid \<longleftrightarrow>
      (if right_login ex \<and> sid = session_of ap ex s then True
       else logged_in s sid \<and> (has_cookie ex \<or> sid \<noteq> session_of ap ex s))"
proof -
  obtain h cs s1 where st: "start_session ap ex s = (h, cs, s1)" by (cases "start_session ap ex s") auto
  note law = start_session_law [OF assms st]
  have "session_ok (prov (snd (postLogin ap ex s))) \<and> (logged_in (snd (postLogin ap ex s)) sid \<longleftrightarrow>
      (if right_login ex \<and> sid = session_of ap ex s then True
       else logged_in s sid \<and> (has_cookie ex \<or> sid \<noteq> session_of ap ex s)))"
  proof (cases "right_login ex")
    case True
    then obtain b u where b: "ex_body ex = Inr b" "unmarshal_user b = (u, None)" "isRightUser u"
      by (auto simp: right_login_def split: sum.splits prod.splits option.splits)
    define s2 where "s2 = on_provider (store_Set (ap_now ap (sv_tick s1)) h ''username'' (us_name u)) s1"
    have run: "snd (postLogin ap ex s) = s2" using st b by (simp add: postLogin_def s2_def)
    have set_law: "session_ok (prov s2)" "view_of (prov s2) =
        (view_of (prov s1))(session_of ap ex s \<mapsto> (the (view_of (prov s1) (session_of ap ex s)))(''username'' \<mapsto> us_name u))"
      using memory.put_law [OF law(1,2)] by (simp_all add: s2_def)
    have "us_name u \<noteq> ''''" using b(3) by (auto simp: isRightUser_def split: if_splits)
    then show ?thesis
      using True set_law(1) logged_in_view [OF set_law(2), of sid] start_session_logged [OF assms st, of sid]
      by (simp add: run)
  next
    case False
    then have "snd (postLogin ap ex s) = s1"
      using st by (auto simp: postLogin_def right_login_def split: sum.splits prod.splits option.splits)
    with False law(1) start_session_logged [OF assms st, of sid] show ?thesis by simp
  qed
  then show "session_ok (prov (snd (postLogin ap ex s)))"
    "logged_in (snd (postLogin ap ex s)) sid \<longleftrightarrow>
      (if right_login ex \<and> sid = session_of ap ex s then True
       else logged_in s sid \<and> (has_cookie ex \<or> sid \<noteq> session_of ap ex s))" by blast+
qed

text \<open>Logging out clears the user name before it tries, in vain or not, to destroy the session.\<close>

lemma postLogout_run:
  assumes "session_ok (prov s)"
  obtains s2 cs where "session_ok (prov s2)"
    "\<And>sid. logged_in s2 sid \<longleftrightarrow> logged_in s sid \<and> sid \<noteq> session_of ap ex s
        \<and> \<not> (has_cookie ex \<and> sid = the (ex_cookie ex))"
    "sv_world s2 = sv_world s" "sv_disk s2 = sv_disk s"
    "postLogout ap ex s =
       (case isLogin ap ex s2 of
          (b, cs3, s3) \<Rightarrow>
            (encode_result ex 200 (cs @ cs3)
               (if b then zero_result\<lparr>rs_ResultCode := 400, rs_Message := Message ''logout failed''\<rparr>
                else zero_result\<lparr>rs_ResultCode := 200, rs_Message := Message ''logout success''\<rparr>), s3))"
proof -
  obtain h cs1 s1 where st: "start_session ap ex s = (h, cs1, s1)" by (cases "start_session ap ex s") auto
  note law = start_session_law [OF assms st]
  define s2 where "s2 = on_provider (store_Delete (ap_now ap (sv_tick s1)) h ''username'') s1"
  have del: "session_ok (prov s2)" "view_of (prov s2) =
      (view_of (prov s1))(session_of ap ex s \<mapsto> (the (view_of (prov s1) (session_of ap ex s)))(''username'' := None))"
    using memory.delete_law [OF law(1,2)] by (simp_all add: s2_def)
  obtain cs2 m where d: "SessionDestroy (ex_cookie ex) (sv_manager s2) = (cs2, m)" by force
  have m: "session_ok (m_provider m) \<and> view_of (m_provider m) =
      (if has_cookie ex then (view_of (prov s2))(the (ex_cookie ex) := None) else view_of (prov s2))"
    using d memory.destroy_law [OF del(1)] del(1)
    by (auto simp: SessionDestroy_def has_cookie_def split: option.splits if_splits)
  show thesis
  proof (rule that [of "s2\<lparr>sv_manager := m\<rparr>" "cs1 @ cs2"])
    show "session_ok (prov (s2\<lparr>sv_manager := m\<rparr>))" using m by simp
    show "logged_in (s2\<lparr>sv_manager := m\<rparr>) sid \<longleftrightarrow> logged_in s sid \<and> sid \<noteq> session_of ap ex s
        \<and> \<not> (has_cookie ex \<and> sid = the (ex_cookie ex))" for sid
    proof -
      have "logged_in s2 sid \<longleftrightarrow> logged_in s sid \<and> sid \<noteq> session_of ap ex s"
        using logged_in_view [OF del(2), of sid] start_session_logged [OF assms st, of sid] by auto
      then show ?thesis using m by (auto simp: logged_in_def split: option.splits if_splits)
    qed
    show "sv_world (s2\<lparr>sv_manager := m\<rparr>) = sv_world s" "sv_disk (s2\<lparr>sv_manager := m\<rparr>) = sv_disk s"
      using law(4,5) by (simp_all add: s2_def)
  qed (use st d in \<open>simp add: postLogout_def s2_def Let_def split: prod.splits\<close>)
qed

lemma postLogout_sessions:
  assumes "session_ok (prov s)"
  shows "session_ok (prov (snd (postLogout ap ex s)))"
    and "logged_in (snd (postLogout ap ex s)) sid \<Longrightarrow> logged_in s sid \<and> sid \<noteq> session_of ap ex s"
    and "sv_world (snd (postLogout ap ex s)) = sv_world s" "sv_disk (snd (postLogout ap ex s)) = sv_disk s"
    and "ex_write ex = None \<Longrightarrow> has_cookie ex \<Longrightarrow>
      \<exists>cs. fst (postLogout ap ex s) = Answer \<lparr>rp_status = 200, rp_headers = ex_headers ex, rp_cookies = cs,
        rp_body = ResultBody (zero_result\<lparr>rs_ResultCode := 200, rs_Message := Message ''logout success''\<rparr>)\<rparr>"
proof -
  obtain s2 cs where s2: "session_ok (prov s2)"
    "\<And>sid. logged_in s2 sid \<longleftrightarrow> logged_in s sid \<and> sid \<noteq> session_of ap ex s
        \<and> \<not> (has_cookie ex \<and> sid = the (ex_cookie ex))"
    "sv_world s2 = sv_world s" "sv_disk s2 = sv_disk s"
    and run: "postLogout ap ex s =
       (case isLogin ap ex s2 of
          (b, cs3, s3) \<Rightarrow>
            (encode_result ex 200 (cs @ cs3)
               (if b then zero_result\<lparr>rs_ResultCode := 400, rs_Message := Message ''logout failed''\<rparr>
                else zero_result\<lparr>rs_ResultCode := 200, rs_Message := Message ''logout success''\<rparr>), s3))"
    using postLogout_run [OF assms, of ap ex] by blast
  obtain b cs3 s3 where l: "isLogin ap ex s2 = (b, cs3, s3)" by (cases "isLogin ap ex s2") auto
  note law = isLogin_law [OF s2(1) l]
  show "session_ok (prov (snd (postLogout ap ex s)))" "sv_world (snd (postLogout ap ex s)) = sv_world s"
    "sv_disk (snd (postLogout ap ex s)) = sv_disk s"
    using law(1-3) s2(3,4) by (simp_all add: run l)
  show "logged_in s sid \<and> sid \<noteq> session_of ap ex s" if "logged_in (snd (postLogout ap ex s)) sid"
    using that law(4) s2(2) by (simp add: run l)
  show "\<exists>cs. fst (postLogout ap ex s) = Answer \<lparr>rp_status = 200, rp_headers = ex_headers ex, rp_cookies = cs,
      rp_body = ResultBody (zero_result\<lparr>rs_ResultCode := 200, rs_Message := Message ''logout success''\<rparr>)\<rparr>"
    if "ex_write ex = None" "has_cookie ex"
  proof -
    have "\<not> b" using law(5) s2(2) that(2) by (auto simp: admitted_def session_of_def)
    with that(1) show ?thesis by (simp add: run l encode_result_def)
  qed
qed

lemma plain_handler_logged:
  assumes "session_ok (prov s)" "t \<noteq> Login" "t \<noteq> Logout"
  shows "session_ok (prov (snd (handler_of t ap ex s)))"
    and "logged_in (snd (handler_of t ap ex s)) sid \<Longrightarrow> logged_in s sid"
proof -
  obtain b cs s2 where l: "isLogin ap ex s = (b, cs, s2)" by (cases "isLogin ap ex s") auto
  note law = isLogin_law [OF assms(1) l]
  have "session_ok (prov (snd (handler_of t ap ex s))) \<and>
      (logged_in (snd (handler_of t ap ex s)) sid \<longrightarrow> logged_in s sid)"
    using plain_handler_sessions [OF assms(2,3), of ap ex s]
  proof
    assume "sv_manager (snd (handler_of t ap ex s)) = sv_manager s"
    then show ?thesis using assms(1) by (simp add: logged_in_def)
  next
    assume "sv_manager (snd (handler_of t ap ex s)) = sv_manager (snd (snd (isLogin ap ex s)))"
    then show ?thesis using law(1,4) l by (simp add: logged_in_def)
  qed
  then show "session_ok (prov (snd (handler_of t ap ex s)))"
    "logged_in (snd (handler_of t ap ex s)) sid \<Longrightarrow> logged_in s sid" by blast+
qed

section \<open>Histories of requests\<close>

datatype event = Request http_method "string list" exchange | Collect

fun run_event :: "'w app \<Rightarrow> event \<Rightarrow> 'w server \<Rightarrow> 'w server" where
  "run_event ap (Request meth path ex) s = snd (serve meth path ap ex s)"
| "run_event ap Collect s =
     s\<lparr>sv_manager := fst (GC (\<lambda>i. ap_now ap (sv_tick s + i)) (sv_manager s)), sv_tick := sv_tick s + 1\<rparr>"

definition run_events :: "'w app \<Rightarrow> event list \<Rightarrow> 'w server \<Rightarrow> 'w server" where
  "run_events ap evs s = fold (run_event ap) evs s"

lemma run_events_simps [simp]:
  "run_events ap [] s = s"
  "run_events ap (e # evs) s = run_events ap evs (run_event ap e s)"
  "run_events ap (evs @ [e]) s = run_event ap e (run_events ap evs s)"
  by (simp_all add: run_events_def)

text \<open>The exchange the handler sees has the headers and the parameters filled in.\<close>

definition routed :: "(string \<rightharpoonup> string) \<Rightarrow> exchange \<Rightarrow> exchange" where
  "routed params ex = ex\<lparr>ex_params := params, ex_headers :=
     header_set ''Access-Control-Allow-Headers'' ''accept, content-type''
       (header_set ''Access-Control-Allow-Origin'' ''*''
         (header_set ''Content-Type'' ''application/json'' (ex_headers ex)))\<rparr>"

lemma serve_routed:
  "serve meth path ap ex s =
     (case find_route buildRouter meth path of
        None \<Rightarrow> (Answer \<lparr>rp_status = 404, rp_headers = [], rp_cookies = [], rp_body = NoBody\<rparr>, s)
      | Some (t, params) \<Rightarrow> handler_of t ap (routed params ex) s)"
  by (simp add: serve_def setResponseType_def routed_def split: option.splits prod.splits)

lemma routed_simps [simp]:
  "has_cookie (routed params ex) = has_cookie ex" "session_of ap (routed params ex) s = session_of ap ex s"
  "right_login (routed params ex) = right_login ex" "admitted (routed params ex) s = admitted ex s"
  "ex_cookie (routed params ex) = ex_cookie ex" "ex_body (routed params ex) = ex_body ex"
  "ex_form (routed params ex) = ex_form ex" "ex_write (routed params ex) = ex_write ex"
  "ex_params (routed params ex) = params"
  by (simp_all add: routed_def has_cookie_def session_of_def right_login_def admitted_def)

definition login_event :: "'w app \<Rightarrow> event \<Rightarrow> 'w server \<Rightarrow> string \<Rightarrow> bool" where
  "login_event ap e s sid =
     (case e of
        Request meth path ex \<Rightarrow>
          meth = POST \<and> path = [''v1'', ''login''] \<and> right_login ex \<and> session_of ap ex s = sid
      | Collect \<Rightarrow> False)"

definition logout_event :: "'w app \<Rightarrow> event \<Rightarrow> 'w server \<Rightarrow> string \<Rightarrow> bool" where
  "logout_event ap e s sid =
     (case e of
        Request meth path ex \<Rightarrow> meth = POST \<and> path = [''v1'', ''logout''] \<and> session_of ap ex s = sid
      | Collect \<Rightarrow> False)"

lemma match_cons:
  "match_path (Fixed x # ps) path = Some m \<longleftrightarrow> (\<exists>ys. path = x # ys \<and> match_path ps ys = Some m)"
  "match_path [] path = Some m \<longleftrightarrow> path = [] \<and> m = Map.empty"
  by (cases path; auto)+

lemma match_fixed:
  "match_path [Fixed x, Fixed y] path = Some m \<longleftrightarrow> path = [x, y] \<and> m = Map.empty"
  "match_path [Fixed x, Fixed y, Fixed z] path = Some m \<longleftrightarrow> path = [x, y, z] \<and> m = Map.empty"
  by (auto simp: match_cons)

lemma find_login: "find_route buildRouter meth path = Some (Login, params) \<longleftrightarrow>
    meth = POST \<and> path = [''v1'', ''login''] \<and> params = Map.empty"
  by (auto simp: buildRouter_def match_fixed split: if_splits option.splits)

lemma find_logout: "find_route buildRouter meth path = Some (Logout, params) \<longleftrightarrow>
    meth = POST \<and> path = [''v1'', ''logout''] \<and> params = Map.empty"
  by (auto simp: buildRouter_def match_fixed split: if_splits option.splits)

lemma find_route_cases:
  assumes "find_route buildRouter meth path = Some (t, params)"
  obtains "t = Login" "meth = POST" "path = [''v1'', ''login'']"
  | "t = Logout" "meth = POST" "path = [''v1'', ''logout'']"
  | "t \<noteq> Login" "t \<noteq> Logout"
  using assms find_login find_logout by (cases t) auto

lemma run_event_sessions:
  assumes "session_ok (prov s)"
  shows "session_ok (prov (run_event ap e s))"
    and "logged_in (run_event ap e s) sid \<Longrightarrow> \<not> logout_event ap e s sid \<and> (logged_in s sid \<or> login_event ap e s sid)"
proof -
  have "session_ok (prov (run_event ap e s)) \<and> (logged_in (run_event ap e s) sid \<longrightarrow>
      \<not> logout_event ap e s sid \<and> (logged_in s sid \<or> login_event ap e s sid))"
  proof (cases e)
    case Collect
    have gc: "session_ok (prov (run_event ap e s))" "view_of (prov (run_event ap e s)) \<subseteq>\<^sub>m view_of (prov s)"
      using memory.gc_law [OF assms] by (simp_all add: Collect GC_def)
    have "logged_in s sid" if "logged_in (run_event ap e s) sid"
      using that gc(2) by (auto simp: logged_in_def map_le_def split: option.splits dest!: bspec)
    with gc(1) Collect show ?thesis by (simp add: login_event_def logout_event_def)
  next
    case (Request meth path ex)
    show ?thesis
    proof (cases "find_route buildRouter meth path")
      case None
      then have "\<not> logout_event ap e s sid"
        using find_logout [of meth path Map.empty] by (auto simp: logout_event_def Request)
      with None assms show ?thesis by (simp add: Request serve_routed)
    next
      case (Some tp)
      obtain t params where tp: "tp = (t, params)" by force
      with Some have f: "find_route buildRouter meth path = Some (t, params)" by simp
      have run: "run_event ap e s = snd (handler_of t ap (routed params ex) s)"
        by (simp add: Request serve_routed f)
      from f show ?thesis
      proof (cases rule: find_route_cases)
        case 1
        then show ?thesis
          using postLogin_sessions [OF assms, of ap "routed params ex"]
          unfolding run by (auto simp: login_event_def logout_event_def Request split: if_splits)
      next
        case 2
        then show ?thesis
          using postLogout_sessions(1,2) [OF assms, of ap "routed params ex"]
          unfolding run by (auto simp: login_event_def logout_event_def Request)
      next
        case 3
        have "\<not> logout_event ap e s sid"
          using f 3 find_logout [of meth path Map.empty] by (auto simp: logout_event_def Request)
        with 3 show ?thesis
          using plain_handler_logged [OF assms, of t ap "routed params ex"] by (auto simp: run)
      qed
    qed
  qed
  then show "session_ok (prov (run_event ap e s))"
    "logged_in (run_event ap e s) sid \<Longrightarrow> \<not> logout_event ap e s sid \<and> (logged_in s sid \<or> login_event ap e s sid)"
    by blast+
qed

lemma run_events_ok:
  "session_ok (prov s) \<Longrightarrow> session_ok (prov (run_events ap evs s))"
  by (induction evs arbitrary: s) (simp_all add: run_event_sessions(1))

text \<open>Whoever is logged in logged in, with a right password, after any logout of that session.\<close>

lemma logged_in_since:
  assumes "session_ok (prov s)" "\<not> logged_in s sid"
  shows "logged_in (run_events ap evs s) sid \<Longrightarrow>
    \<exists>k < length evs. login_event ap (evs ! k) (run_events ap (take k evs) s) sid
      \<and> (\<forall>j. k < j \<longrightarrow> j < length evs \<longrightarrow> \<not> logout_event ap (evs ! j) (run_events ap (take j evs) s) sid)"
proof (induction evs rule: rev_induct)
  case Nil
  with assms(2) show ?case by simp
next
  case (snoc e evs)
  let ?s = "run_events ap evs s"
  have here: "\<not> logout_event ap e ?s sid" "logged_in ?s sid \<or> login_event ap e ?s sid"
    using run_event_sessions(2) [OF run_events_ok [OF assms(1)]] snoc.prems by auto
  show ?case
  proof (cases "login_event ap e ?s sid")
    case True
    then show ?thesis by (intro exI [of _ "length evs"]) simp
  next
    case False
    with here snoc.IH obtain k where k: "k < length evs"
      "login_event ap (evs ! k) (run_events ap (take k evs) s) sid"
      "\<forall>j. k < j \<longrightarrow> j < length evs \<longrightarrow> \<not> logout_event ap (evs ! j) (run_events ap (take j evs) s) sid"
      by blast
    have "\<not> logout_event ap ((evs @ [e]) ! j) (run_events ap (take j (evs @ [e])) s) sid"
      if "k < j" "j < length (evs @ [e])" for j
      using that k(3) here(1) by (cases "j < length evs") (auto simp: nth_append less_Suc_eq)
    with k(1,2) show ?thesis by (intro exI [of _ k]) (simp add: nth_append)
  qed
qed

section \<open>What each handler does to the ledger\<close>

context ledger_client
begin

lemma call_world_world: "sv_world (snd (call_world f k s)) = snd (f (sv_world s))"
  by (auto simp: call_world_def split: outcome.splits prod.splits)

lemma call_disk_world:
  "(\<And>a s'. sv_world (snd (k a s')) = sv_world s') \<Longrightarrow>
     sv_world (snd (call_disk f k s)) = snd (snd (f (sv_disk s, sv_world s)))"
  by (auto simp: call_disk_def split: outcome.splits prod.splits)

lemma postLogin_world: "session_ok (prov s) \<Longrightarrow> sv_world (snd (postLogin ap ex s)) = sv_world s"
  using start_session_law(4) [of s ap ex]
  by (auto simp: postLogin_def split: prod.splits sum.splits option.splits)

lemma download_world:
  "ap_fabric ap = fab \<Longrightarrow> ledger_of (sv_world (snd (getDownloadFile ap ex s))) = ledger_of (sv_world s)"
  unfolding getDownloadFile_def
  by (subst call_disk_world) (auto simp: DownloadFile_keeps split: prod.splits)

lemma lists_world:
  assumes "ap_fabric ap = fab" "session_ok (prov s)" "t \<in> {OpenList, DeletedList, DraftList}"
  shows "ledger_of (sv_world (snd (handler_of t ap ex s))) = ledger_of (sv_world s)"
proof -
  obtain b cs s2 where l: "isLogin ap ex s = (b, cs, s2)" by (cases "isLogin ap ex s") auto
  show ?thesis
    using assms(3) isLogin_law(2) [OF assms(2) l] l
    by (auto simp: getOpenList_def getDeletedList_def getDraftList_def assms(1) split: sum.split option.split
        dest: lists_keep)
qed

lemma handler_keeps:
  assumes "ap_fabric ap = fab" "session_ok (prov s)"
    and "\<not> admitted ex s \<or> t \<notin> {PostCertificate, PostUploadFile, PostChangeStatus}"
  shows "ledger_of (sv_world (snd (handler_of t ap ex s))) = ledger_of (sv_world s)"
proof -
  obtain b cs s2 where l: "isLogin ap ex s = (b, cs, s2)" by (cases "isLogin ap ex s") auto
  note law = isLogin_law [OF assms(2) l]
  show ?thesis
  proof (cases t)
    case Login
    then show ?thesis using postLogin_world [OF assms(2)] by simp
  next
    case Logout
    then show ?thesis using postLogout_sessions(3) [OF assms(2)] by simp
  next
    case GetDownloadFile
    then show ?thesis using download_world [OF assms(1)] by simp
  next
    case GetCertificate
    then show ?thesis by (simp add: getCertificate_def call_world_world assms(1) CertificateOut_keeps)
  qed (use law(2,5) assms(3) l lists_world [OF assms(1,2), of t ex] in
      \<open>simp_all add: postCertificate_def postUploadFile_def postChangeStatus_def\<close>)
qed

lemma handler_inv:
  assumes "ap_fabric ap = fab" "session_ok (prov s)" "ledger_inv (ledger_of (sv_world s))"
  shows "ledger_inv (ledger_of (sv_world (snd (handler_of t ap ex s))))"
proof -
  obtain b cs s2 where l: "isLogin ap ex s = (b, cs, s2)" by (cases "isLogin ap ex s") auto
  note law = isLogin_law [OF assms(2) l]
  show ?thesis
  proof (cases t)
    case Login
    then show ?thesis using postLogin_world [OF assms(2)] assms(3) by simp
  next
    case Logout
    then show ?thesis using postLogout_sessions(3) [OF assms(2)] assms(3) by simp
  next
    case GetDownloadFile
    then show ?thesis using download_world [OF assms(1)] assms(3) by simp
  next
    case GetCertificate
    then show ?thesis using assms(3) by (simp add: getCertificate_def call_world_world assms(1) CertificateOut_keeps)
  next
    case PostCertificate
    then show ?thesis
      using law(2) l assms(1,3) by (auto simp: postCertificate_def call_world_world CertificateIn_inv split: sum.split)
  next
    case PostChangeStatus
    then show ?thesis
      using law(2) l assms(1,3) by (auto simp: postChangeStatus_def call_world_world ChangeStatus_inv split: sum.split)
  next
    case PostUploadFile
    then show ?thesis
      using law(2) l assms(1,3)
      by (auto simp: postUploadFile_def call_disk_world UploadFile_inv split: sum.split list.split)
  qed (use assms(3) lists_world [OF assms(1,2), of t ex] in simp_all)
qed

end

text \<open>On the network, over whole histories.\<close>

lemma run_event_inv:
  assumes "ap_fabric ap = connected env" "session_ok (prov s)" "ledger_inv (net_ledger (sv_world s))"
  shows "ledger_inv (net_ledger (sv_world (run_event ap e s)))"
proof (cases e)
  case (Request meth path ex)
  then show ?thesis
    using net.handler_inv [OF assms] assms(3) by (simp add: serve_routed split: option.split prod.split)
qed (use assms in simp)

lemma run_events_inv:
  assumes "ap_fabric ap = connected env"
  shows "session_ok (prov s) \<Longrightarrow> ledger_inv (net_ledger (sv_world s)) \<Longrightarrow>
    ledger_inv (net_ledger (sv_world (run_events ap evs s)))"
  by (induction evs arbitrary: s) (simp_all add: run_event_inv [OF assms] run_event_sessions(1))

text \<open>An event that posts no certificate, no file and no statuses leaves the ledger alone.\<close>

definition reading_event :: "event \<Rightarrow> bool" where
  "reading_event e =
     (case e of
        Request meth path ex \<Rightarrow>
          (case find_route buildRouter meth path of
             None \<Rightarrow> True
           | Some (t, params) \<Rightarrow> t \<notin> {PostCertificate, PostUploadFile, PostChangeStatus})
      | Collect \<Rightarrow> True)"

lemma reading_event_keeps:
  assumes "ap_fabric ap = connected env" "session_ok (prov s)" "reading_event e"
  shows "net_ledger (sv_world (run_event ap e s)) = net_ledger (sv_world s)"
  using assms(3) net.handler_keeps [OF assms(1,2)]
  by (auto simp: reading_event_def serve_routed split: event.splits option.split prod.split)

lemma reading_events_keep:
  assumes "ap_fabric ap = connected env"
  shows "session_ok (prov s) \<Longrightarrow> list_all reading_event evs \<Longrightarrow>
    net_ledger (sv_world (run_events ap evs s)) = net_ledger (sv_world s)"
  by (induction evs arbitrary: s) (simp_all add: reading_event_keeps [OF assms] run_event_sessions(1))

text \<open>The server as \<open>main\<close> starts it: the manager of the package's initialisation, and any disk.\<close>

definition started :: "disk \<Rightarrow> 'w \<Rightarrow> 'w server" where
  "started d w = \<lparr>sv_manager = initial_manager, sv_disk = d, sv_world = w, sv_tick = 0\<rparr>"

lemma started_sessions [simp]: "session_ok (prov (started d w))" "\<not> logged_in (started d w) sid"
  "sv_world (started d w) = w"
  by (simp_all add: started_def initial_manager_def logged_in_def view_of_def empty_provider_def
      session_ok_def)

section \<open>Replies\<close>

text \<open>A request whose response cannot be written gets no answer: it ends the process or worse.\<close>

lemma encode_fails: "ex_write ex = Some e \<Longrightarrow> encode_result ex st cs res = Exits ''serializing result''"
  by (simp add: encode_result_def)

lemma deal4xx_fails: "ex_write ex = Some e \<Longrightarrow> deal4xx ex cs res err code = Exits ''serializing result''"
  by (simp add: deal4xx_def Let_def encode_fails)

lemma encode_answers: "ex_write ex = None \<Longrightarrow> \<exists>r. encode_result ex st cs res = Answer r"
  by (simp add: encode_result_def)

lemma deal4xx_answers: "ex_write ex = None \<Longrightarrow> \<exists>r. deal4xx ex cs res err code = Answer r"
  by (simp add: deal4xx_def Let_def encode_answers)

lemma call_world_answers:
  assumes "\<not> is_panic (fst (f (sv_world s)))" "\<And>a. \<exists>r. k a = Answer r"
  shows "\<exists>r. fst (call_world f k s) = Answer r"
  using assms by (auto simp: call_world_def split: prod.splits outcome.splits)

lemma call_disk_answers:
  assumes "\<not> is_panic (fst (f (sv_disk s, sv_world s)))" "\<And>a s'. \<exists>r. fst (k a s') = Answer r"
  shows "\<exists>r. fst (call_disk f k s) = Answer r"
  using assms by (auto simp: call_disk_def split: prod.splits outcome.splits)

lemma reply_answers:
  "ex_write ex = None \<Longrightarrow>
     \<exists>r. (case res of
            (d, Some e, code) \<Rightarrow> deal4xx ex cs zero_result (Some e) code
          | (d, None, code) \<Rightarrow> encode_result ex (st code) cs (k d code)) = Answer r"
  by (auto simp: encode_answers deal4xx_answers split: prod.split option.split)

lemmas answers = encode_answers deal4xx_answers reply_answers

context ledger_client
begin

lemma handler_answers:
  assumes "ap_fabric ap = fab" "session_ok (prov s)" "ledger_inv (ledger_of (sv_world s))" "ex_write ex = None"
    and "t \<notin> {OpenList, DeletedList, DraftList}"
    and "t = PostUploadFile \<Longrightarrow> (\<forall>fm. ex_form ex = Inr fm \<longrightarrow> fm_certId fm \<noteq> [])"
  shows "\<exists>r. fst (handler_of t ap ex s) = Answer r"
proof -
  obtain b cs s2 where l: "isLogin ap ex s = (b, cs, s2)" by (cases "isLogin ap ex s") auto
  have inv: "ledger_inv (ledger_of (sv_world s2))" using isLogin_law(2) [OF assms(2) l] assms(3) by simp
  show ?thesis
  proof (cases t)
    case Login
    then show ?thesis
      using answers [OF assms(4)] by (auto simp: postLogin_def split: prod.split sum.split option.split)
  next
    case Logout
    obtain s2 cs where "postLogout ap ex s =
       (case isLogin ap ex s2 of
          (b, cs3, s3) \<Rightarrow>
            (encode_result ex 200 (cs @ cs3)
               (if b then zero_result\<lparr>rs_ResultCode := 400, rs_Message := Message ''logout failed''\<rparr>
                else zero_result\<lparr>rs_ResultCode := 200, rs_Message := Message ''logout success''\<rparr>), s3))"
      using postLogout_run [OF assms(2), of ap ex] by metis
    then show ?thesis using Logout answers [OF assms(4)] by (simp split: prod.split)
  next
    case PostCertificate
    then show ?thesis
      using l answers [OF assms(4)] by (auto simp: postCertificate_def assms(1) CertificateIn_returns
          intro!: call_world_answers split: sum.split)
  next
    case PostChangeStatus
    then show ?thesis
      using l answers [OF assms(4)] by (auto simp: postChangeStatus_def assms(1) ChangeStatus_returns [OF inv]
          intro!: call_world_answers split: sum.split)
  next
    case GetCertificate
    then show ?thesis
      using answers [OF assms(4)] by (auto simp: getCertificate_def assms(1) CertificateOut_returns [OF assms(3)]
          intro!: call_world_answers)
  next
    case GetDownloadFile
    show ?thesis
      unfolding GetDownloadFile handler_of.simps getDownloadFile_def
      by (rule call_disk_answers) (auto simp: assms(1) DownloadFile_returns split: prod.split)
  next
    case PostUploadFile
    then show ?thesis
      using l answers [OF assms(4)] assms(6) by (auto simp: postUploadFile_def assms(1) UploadFile_returns [OF inv]
          intro!: call_disk_answers split: sum.split list.split)
  qed (use assms(5) in simp_all)
qed

end

end
