(* ===== verification/Programs.thy ===== *)
theory Programs
  imports Service
begin

text \<open>
  Requests as programs of atomic steps. net/http serves every request in its own goroutine, so
  requests interleave. A request is given here as the sequence of its calls on what it shares with
  the others: the session manager, one store of a session, the disk, and the Fabric client
  (\<open>Query\<close>, \<open>Execute\<close>); everything between two calls is local. A program that may run for ever,
  like the paging loop of the lists, is an infinite tree, so the type is a codatatype.

  The lemmas: a program that runs without interruption does what the handler of theory Handlers
  does, whose definitions are the ones translated from the code. Theory Interleaving lets the
  programs of many requests run at once.
\<close>

section \<open>Programs\<close>

text \<open>A step changes the shared state and goes on with what it has seen of it.\<close>

codatatype ('s, 'a) steps = Finish 'a | Step "'s \<Rightarrow> 's" "'s \<Rightarrow> ('s, 'a) steps"

definition atomically :: "('s \<Rightarrow> 'r \<times> 's) \<Rightarrow> ('r \<Rightarrow> ('s, 'a) steps) \<Rightarrow> ('s, 'a) steps" where
  "atomically f k = Step (\<lambda>s. snd (f s)) (\<lambda>s. k (fst (f s)))"

partial_function (option) run_steps :: "('s, 'a) steps \<Rightarrow> 's \<Rightarrow> ('a \<times> 's) option" where
  "run_steps p s = (case p of Finish a \<Rightarrow> Some (a, s) | Step u c \<Rightarrow> run_steps (c s) (u s))"

lemma run_steps_simps [simp]:
  "run_steps (Finish a) s = Some (a, s)"
  "run_steps (Step u c) s = run_steps (c s) (u s)"
  by (subst run_steps.simps, simp)+

lemma run_atomically: "run_steps (atomically f k) s = run_steps (k (fst (f s))) (snd (f s))"
  by (simp add: atomically_def)

definition world_step :: "('w \<Rightarrow> 'r \<times> 'w) \<Rightarrow> 'w server \<Rightarrow> 'r \<times> 'w server" where
  "world_step f s = (case f (sv_world s) of (r, w) \<Rightarrow> (r, s\<lparr>sv_world := w\<rparr>))"

definition disk_step :: "(disk \<Rightarrow> 'r \<times> disk) \<Rightarrow> 'w server \<Rightarrow> 'r \<times> 'w server" where
  "disk_step f s = (case f (sv_disk s) of (r, d) \<Rightarrow> (r, s\<lparr>sv_disk := d\<rparr>))"

text \<open>A call on the outside world that may panic, which ends the operation.\<close>

definition call_steps ::
    "('w \<Rightarrow> 'r outcome \<times> 'w) \<Rightarrow> ('b outcome \<Rightarrow> ('w server, 'a) steps) \<Rightarrow> ('r \<Rightarrow> ('w server, 'a) steps)
     \<Rightarrow> ('w server, 'a) steps" where
  "call_steps f k g = atomically (world_step f) (\<lambda>r. case r of Panic m \<Rightarrow> k (Panic m) | Ret a \<Rightarrow> g a)"

section \<open>The business operations as programs\<close>

definition CertificateIn_steps ::
    "'w fabric_setup \<Rightarrow> string \<Rightarrow> (string reply outcome \<Rightarrow> ('w server, 'a) steps) \<Rightarrow> ('w server, 'a) steps" where
  "CertificateIn_steps setup body k =
     (case unmarshal_cert body of
        (certificate, Some e) \<Rightarrow> k (Ret (None, Some e, 400))
      | (certificate, None) \<Rightarrow>
          call_steps (Query setup ''getDownloadFile'' [certId certificate]) k (\<lambda>response.
            (case upload_check response of
               (upload, err) \<Rightarrow>
                 (let certificate = certificate\<lparr>hasUpload := upload\<rparr>
                  in if isOpen certificate \<and> \<not> hasUpload certificate then k (Ret (None, err, 400))
                     else call_steps
                       (Execute setup (''postCertificateEvent'' @ certId certificate) ''postCertificate''
                          [marshal_cert certificate]) k
                       (\<lambda>data. k (Ret (case data of Inl e \<Rightarrow> (None, Some e, 501) | Inr txid \<Rightarrow> (Some txid, None, 200))))))))"

text \<open>\<open>CertificateOut\<close> makes one call, so it is one step.\<close>

definition change_one_steps ::
    "'w fabric_setup \<Rightarrow> status \<Rightarrow> (status outcome \<Rightarrow> ('w server, 'a) steps) \<Rightarrow> ('w server, 'a) steps" where
  "change_one_steps setup st k =
     call_steps (CertificateOut setup [''certId'' \<mapsto> st_certId st]) k (\<lambda>out.
       (case out of
          (cert, Some e, _) \<Rightarrow> k (Ret st)
        | (None, None, _) \<Rightarrow> k (Ret st)
        | (Some certificate, None, _) \<Rightarrow>
            (let certificate = certificate\<lparr>isDeleted := st_isDeleted st, isOpen := st_isOpen st,
                                            isCompleted := st_isCompleted st\<rparr>
             in CertificateIn_steps setup (marshal_cert certificate) (\<lambda>res.
                  (case res of
                     Panic m \<Rightarrow> k (Panic m)
                   | Ret (_, Some e, _) \<Rightarrow> k (Ret st)
                   | Ret (_, None, _) \<Rightarrow> k (Ret (st\<lparr>st_isChangedOnChain := True\<rparr>)))))))"

fun change_all_steps ::
    "'w fabric_setup \<Rightarrow> status list \<Rightarrow> (status list outcome \<Rightarrow> ('w server, 'a) steps) \<Rightarrow> ('w server, 'a) steps" where
  "change_all_steps setup [] k = k (Ret [])"
| "change_all_steps setup (st # sts) k =
     change_one_steps setup st (\<lambda>r.
       (case r of
          Panic m \<Rightarrow> k (Panic m)
        | Ret st' \<Rightarrow>
            change_all_steps setup sts (\<lambda>r'.
              (case r' of Panic m \<Rightarrow> k (Panic m) | Ret sts' \<Rightarrow> k (Ret (st' # sts'))))))"

definition ChangeStatus_steps ::
    "'w fabric_setup \<Rightarrow> string \<Rightarrow> (status list option reply outcome \<Rightarrow> ('w server, 'a) steps) \<Rightarrow> ('w server, 'a) steps" where
  "ChangeStatus_steps setup body k =
     (case unmarshal_statuses body of
        (statuses, Some e) \<Rightarrow> k (Ret (None, Some e, 400))
      | (None, None) \<Rightarrow> k (Ret (Some None, None, 200))
      | (Some statuses, None) \<Rightarrow>
          change_all_steps setup statuses (\<lambda>r.
            (case r of Panic m \<Rightarrow> k (Panic m) | Ret statuses' \<Rightarrow> k (Ret (Some (Some statuses'), None, 200)))))"

definition refresh_steps ::
    "'w fabric_setup \<Rightarrow> string \<Rightarrow> string \<Rightarrow> (string reply outcome \<Rightarrow> ('w server, 'a) steps) \<Rightarrow> ('w server, 'a) steps" where
  "refresh_steps setup i txid k =
     call_steps (CertificateOut setup [''certId'' \<mapsto> i]) k (\<lambda>out.
       (case out of
          (Some certificate, None, _) \<Rightarrow>
            CertificateIn_steps setup (marshal_cert (certificate\<lparr>hasUpload := True\<rparr>)) (\<lambda>res.
              (case res of
                 Panic m \<Rightarrow> k (Panic m)
               | Ret (_, Some e, _) \<Rightarrow> k (Ret (None, Some e, 501))
               | Ret (_, None, _) \<Rightarrow> k (Ret (Some txid, None, 200))))
        | _ \<Rightarrow> k (Ret (Some txid, None, 200))))"

definition upload_bytes_steps ::
    "'w fabric_setup \<Rightarrow> string \<Rightarrow> bytes \<Rightarrow> (string reply outcome \<Rightarrow> ('w server, 'a) steps) \<Rightarrow> ('w server, 'a) steps" where
  "upload_bytes_steps setup i buf k =
     (if \<not> is_pdf buf then k (Ret (None, None, 400))
      else call_steps
        (Execute setup (''postUploadFileEvent'' @ i) ''postUploadFile''
           [marshal_file \<lparr>fs_certId = i, fs_certFile = Some buf, fs_fileName = ''''\<rparr>]) k
        (\<lambda>res.
          (case res of
             Inl e \<Rightarrow> k (Ret (None, Some e, 501))
           | Inr txid \<Rightarrow> refresh_steps setup i txid k)))"

text \<open>Reading the new file back and sending it to the ledger.\<close>

definition read_back_steps ::
    "os_env \<Rightarrow> 'w fabric_setup \<Rightarrow> string \<Rightarrow> (string reply outcome \<Rightarrow> ('w server, 'a) steps) \<Rightarrow> ('w server, 'a) steps" where
  "read_back_steps os setup i k =
     atomically (disk_step (os_Open os (upload_path i))) (\<lambda>r3.
       (case r3 of
          Some e \<Rightarrow> k (Ret (None, Some e, 501))
        | None \<Rightarrow>
            atomically (disk_step (os_Stat os (upload_path i))) (\<lambda>r4.
              (case r4 of
                 Inl e \<Rightarrow> k (Ret (None, Some e, 501))
               | Inr fileSize \<Rightarrow>
                   atomically (disk_step (os_Read os (upload_path i) fileSize)) (\<lambda>r5.
                     (case r5 of
                        Inl e \<Rightarrow> k (Ret (None, Some e, 501))
                      | Inr b \<Rightarrow>
                          (if length b = fileSize then upload_bytes_steps setup i b k
                           else k (Ret (None, None, 501)))))))))"

text \<open>
  The steps of an upload on the disk: the old file is deleted, the new one opened and written,
  then opened again and asked for its size and its bytes. An open file is named by its path.
\<close>

definition write_steps ::
    "os_env \<Rightarrow> 'w fabric_setup \<Rightarrow> string \<Rightarrow> bytes \<times> error option
     \<Rightarrow> (string reply outcome \<Rightarrow> ('w server, 'a) steps) \<Rightarrow> ('w server, 'a) steps" where
  "write_steps os setup i upload k =
     atomically (disk_step (os_Write os (upload_path i) (fst upload))) (\<lambda>r2.
       (case r2 of
          Some e \<Rightarrow> k (Ret (None, Some e, 500))
        | None \<Rightarrow>
            (if snd upload \<noteq> None then k (Ret (None, snd upload, 500))
             else read_back_steps os setup i k)))"

definition open_steps ::
    "os_env \<Rightarrow> 'w fabric_setup \<Rightarrow> string \<Rightarrow> bytes \<times> error option
     \<Rightarrow> (string reply outcome \<Rightarrow> ('w server, 'a) steps) \<Rightarrow> ('w server, 'a) steps" where
  "open_steps os setup i upload k =
     atomically (disk_step (os_OpenFile os False (upload_path i))) (\<lambda>r1.
       (case r1 of
          Some e \<Rightarrow> k (Ret (None, Some e, 500))
        | None \<Rightarrow> write_steps os setup i upload k))"

definition UploadFile_steps ::
    "os_env \<Rightarrow> 'w fabric_setup \<Rightarrow> string \<Rightarrow> bytes \<times> error option
     \<Rightarrow> (string reply outcome \<Rightarrow> ('w server, 'a) steps) \<Rightarrow> ('w server, 'a) steps" where
  "UploadFile_steps os setup i upload k =
     atomically (disk_step (\<lambda>d. ((), deleteFileOnDisk os (upload_path i) d))) (\<lambda>_. open_steps os setup i upload k)"

lemmas upload_steps_defs = UploadFile_steps_def open_steps_def write_steps_def read_back_steps_def

definition DownloadFile_steps ::
    "os_env \<Rightarrow> 'w fabric_setup \<Rightarrow> (string \<rightharpoonup> string) \<Rightarrow> (download outcome \<Rightarrow> ('w server, 'a) steps)
     \<Rightarrow> ('w server, 'a) steps" where
  "DownloadFile_steps os setup param k =
     call_steps (Query setup ''getDownloadFile'' [lookup_param param ''certId'']) k (\<lambda>response.
       (case response of
          Inl e \<Rightarrow> k (Ret ('''', '''', None, Some e, 400))
        | Inr r \<Rightarrow>
            (if r = '''' then k (Ret ('''', '''', None, None, 404))
             else (case unmarshal_file r of
                 (fs, Some e) \<Rightarrow> k (Ret ('''', '''', None, Some e, 501))
               | (fs, None) \<Rightarrow>
                   atomically (disk_step (write_download os (download_path (lookup_param param ''certId'')) (fs_certFile fs)))
                     (\<lambda>res. k (Ret res))))))"

section \<open>The list queries as programs\<close>

text \<open>One round of the loop: the result it stops with, or the bookmark it goes on from.\<close>

definition after_bookmarks ::
    "string list \<Rightarrow> list_internal reply outcome \<Rightarrow> ((error \<times> nat) + string list) outcome + string" where
  "after_bookmarks bookmarks r =
     (case r of
        Panic m \<Rightarrow> Inl (Panic m)
      | Ret (newList, err, code) \<Rightarrow>
          (case err of
             Some e \<Rightarrow> Inl (Ret (Inl (e, code)))
           | None \<Rightarrow>
               (case newList of
                  None \<Rightarrow> Inl (Panic nil_dereference)
                | Some l \<Rightarrow>
                    (if last bookmarks \<noteq> li_bookmark l \<and> li_pageCount l \<noteq> 0 then Inr (li_bookmark l)
                     else Inl (Ret (Inr bookmarks))))))"

primcorec gather_steps ::
    "'w fabric_setup \<Rightarrow> string \<Rightarrow> int \<Rightarrow> string list \<Rightarrow> string
     \<Rightarrow> (((error \<times> nat) + string list) outcome \<Rightarrow> ('w server, 'a) steps) \<Rightarrow> ('w server, 'a) steps" where
  "gather_steps setup queryString pageSize bookmarks bookmark k =
     Step (\<lambda>s. snd (world_step (getNewBookmarks setup queryString pageSize bookmark) s))
       (\<lambda>s. case after_bookmarks bookmarks (fst (world_step (getNewBookmarks setup queryString pageSize bookmark) s)) of
          Inl r \<Rightarrow> k r
        | Inr b \<Rightarrow> gather_steps setup queryString pageSize (bookmarks @ [b]) b k)"

definition finish_steps ::
    "'w fabric_setup \<Rightarrow> string \<Rightarrow> int \<Rightarrow> int \<Rightarrow> string list
     \<Rightarrow> (query_value reply outcome \<Rightarrow> ('w server, 'a) steps) \<Rightarrow> ('w server, 'a) steps" where
  "finish_steps setup queryString pageSize pageIndex0 bookmarks k =
     (let n = int (length bookmarks);
          pageIndex = (if n < pageIndex0 then n else pageIndex0)
      in call_steps (getNewBookmarks setup queryString pageSize (bookmarks ! nat (pageIndex - 1))) k (\<lambda>r1.
           (case r1 of
              (listInter, Some e, code) \<Rightarrow> k (Ret (Some (ErrorValue e), Some e, code))
            | (listInter, None, _) \<Rightarrow>
                call_steps (getNewBookmarks setup queryString pageSize (last bookmarks)) k (\<lambda>r2.
                  (case r2 of
                     (lastInter, Some e, code) \<Rightarrow> k (Ret (Some (ErrorValue e), Some e, code))
                   | (lastInter, None, _) \<Rightarrow>
                       (case page_count lastInter of
                          Panic m \<Rightarrow> k (Panic m)
                        | Ret lastPageCount \<Rightarrow>
                            (if lastPageCount = 0 \<and> n > 1 then
                               call_steps (getNewBookmarks setup queryString pageSize (bookmarks ! nat (n - 2))) k (\<lambda>r3.
                                 (case r3 of
                                    (lastInter, Some e, code) \<Rightarrow> k (Ret (Some (ErrorValue e), Some e, code))
                                  | (lastInter, None, _) \<Rightarrow>
                                      (case page_count lastInter of
                                         Panic m \<Rightarrow> k (Panic m)
                                       | Ret lastPageCount \<Rightarrow>
                                           k (make_list (wrap64 (pageSize * (n - 2) + lastPageCount)) pageIndex listInter))))
                             else k (make_list (wrap64 (pageSize * (n - 1) + lastPageCount)) pageIndex listInter))))))))"

definition rich_query_steps ::
    "'w fabric_setup \<Rightarrow> query_conditions \<Rightarrow> bool \<Rightarrow> string
     \<Rightarrow> (query_value reply outcome \<Rightarrow> ('w server, 'a) steps) \<Rightarrow> ('w server, 'a) steps" where
  "rich_query_steps setup qc login queryString k =
     (if \<not> qc_isOpen qc \<and> \<not> login then k (Ret (None, Some (ErrText ''Should login''), 401))
      else if qc_pageIndex qc < 1 then
        k (Ret (None, Some (ErrText ''PageIndex value should >=1''), 400))
      else gather_steps setup queryString (qc_pageSize qc) [''''] '''' (\<lambda>r.
        (case r of
           Panic m \<Rightarrow> k (Panic m)
         | Ret (Inl (e, code)) \<Rightarrow> k (Ret (Some (ErrorValue e), Some e, code))
         | Ret (Inr bookmarks) \<Rightarrow>
             finish_steps setup queryString (qc_pageSize qc) (qc_pageIndex qc) bookmarks k)))"

text \<open>The three lists differ in the flag they set and in the head of the query.\<close>

definition list_steps ::
    "(query_conditions \<Rightarrow> query_conditions) \<Rightarrow> string \<Rightarrow> 'w fabric_setup \<Rightarrow> string \<Rightarrow> bool
     \<Rightarrow> (query_value reply outcome \<Rightarrow> ('w server, 'a) steps) \<Rightarrow> ('w server, 'a) steps" where
  "list_steps adjust head setup body login k =
     (case unmarshal_conditions body of
        (qc, Some e) \<Rightarrow> k (Ret (Some (ErrorValue e), Some e, 400))
      | (qc, None) \<Rightarrow> rich_query_steps setup (adjust qc) login (editQueryString head (adjust qc)) k)"

section \<open>The handlers as programs\<close>

text \<open>The session calls: each is serialised with the others by the locks of the session package.\<close>

definition start_steps :: "'w app \<Rightarrow> exchange \<Rightarrow> (nat \<Rightarrow> cookie_header list \<Rightarrow> ('w server, 'a) steps) \<Rightarrow> ('w server, 'a) steps" where
  "start_steps ap ex k =
     atomically (\<lambda>s. case start_session ap ex s of (sess, cs, s') \<Rightarrow> ((sess, cs), s')) (\<lambda>(sess, cs). k sess cs)"

definition get_steps :: "'w app \<Rightarrow> nat \<Rightarrow> (string option \<Rightarrow> ('w server, 'a) steps) \<Rightarrow> ('w server, 'a) steps" where
  "get_steps ap sess k =
     atomically (\<lambda>s. case store_Get (ap_now ap (sv_tick s)) sess ''username'' (m_provider (sv_manager s)) of
                       (u, p) \<Rightarrow> (u, on_provider (\<lambda>_. p) s)) k"

definition set_steps :: "'w app \<Rightarrow> nat \<Rightarrow> string \<Rightarrow> ('w server, 'a) steps \<Rightarrow> ('w server, 'a) steps" where
  "set_steps ap sess v p =
     atomically (\<lambda>s. ((), on_provider (store_Set (ap_now ap (sv_tick s)) sess ''username'' v) s)) (\<lambda>_. p)"

definition delete_steps :: "'w app \<Rightarrow> nat \<Rightarrow> ('w server, 'a) steps \<Rightarrow> ('w server, 'a) steps" where
  "delete_steps ap sess p =
     atomically (\<lambda>s. ((), on_provider (store_Delete (ap_now ap (sv_tick s)) sess ''username'') s)) (\<lambda>_. p)"

definition destroy_steps :: "exchange \<Rightarrow> (cookie_header list \<Rightarrow> ('w server, 'a) steps) \<Rightarrow> ('w server, 'a) steps" where
  "destroy_steps ex k =
     atomically (\<lambda>s. case SessionDestroy (ex_cookie ex) (sv_manager s) of (cs, m) \<Rightarrow> (cs, s\<lparr>sv_manager := m\<rparr>)) k"

definition isLogin_steps :: "'w app \<Rightarrow> exchange \<Rightarrow> (bool \<Rightarrow> cookie_header list \<Rightarrow> ('w server, 'a) steps) \<Rightarrow> ('w server, 'a) steps" where
  "isLogin_steps ap ex k =
     start_steps ap ex (\<lambda>sess cs. get_steps ap sess (\<lambda>currentUser.
       k (case currentUser of None \<Rightarrow> False | Some u \<Rightarrow> u \<noteq> '''') cs))"

definition postLogin_steps :: "'w app \<Rightarrow> exchange \<Rightarrow> (served \<Rightarrow> ('w server, 'a) steps) \<Rightarrow> ('w server, 'a) steps" where
  "postLogin_steps ap ex k =
     start_steps ap ex (\<lambda>sess cs.
       (case ex_body ex of
          Inl e \<Rightarrow> k (deal4xx ex cs zero_result (Some e) 400)
        | Inr b \<Rightarrow>
            (case unmarshal_user b of
               (user, Some e) \<Rightarrow> k (deal4xx ex cs zero_result (Some e) 400)
             | (user, None) \<Rightarrow>
                 (if isRightUser user then
                    set_steps ap sess (us_name user)
                      (k (encode_result ex 200 cs \<lparr>rs_ResultCode = 200, rs_Message = Message ''login in'', rs_Data = TextData ''''\<rparr>))
                  else k (deal4xx ex cs zero_result None 403)))))"

definition postLogout_steps :: "'w app \<Rightarrow> exchange \<Rightarrow> (served \<Rightarrow> ('w server, 'a) steps) \<Rightarrow> ('w server, 'a) steps" where
  "postLogout_steps ap ex k =
     start_steps ap ex (\<lambda>sess cs1.
       delete_steps ap sess
         (destroy_steps ex (\<lambda>cs2.
           isLogin_steps ap ex (\<lambda>logged_in cs3.
             k (encode_result ex 200 (cs1 @ cs2 @ cs3)
                  (if logged_in then zero_result\<lparr>rs_ResultCode := 400, rs_Message := Message ''logout failed''\<rparr>
                   else zero_result\<lparr>rs_ResultCode := 200, rs_Message := Message ''logout success''\<rparr>))))))"

text \<open>The reply to a call of the business code; a panic in it is the handler's.\<close>

definition replying :: "('r \<Rightarrow> served) \<Rightarrow> (served \<Rightarrow> ('w server, 'a) steps) \<Rightarrow> 'r outcome \<Rightarrow> ('w server, 'a) steps" where
  "replying reply k r = (case r of Panic m \<Rightarrow> k (Panics m) | Ret a \<Rightarrow> k (reply a))"

definition postCertificate_steps :: "'w app \<Rightarrow> exchange \<Rightarrow> (served \<Rightarrow> ('w server, 'a) steps) \<Rightarrow> ('w server, 'a) steps" where
  "postCertificate_steps ap ex k =
     isLogin_steps ap ex (\<lambda>logged_in cs.
       (if logged_in then
          (case ex_body ex of
             Inl e \<Rightarrow> k (deal4xx ex cs zero_result (Some e) 400)
           | Inr b \<Rightarrow>
               CertificateIn_steps (ap_fabric ap) b (replying (\<lambda>res. case res of
                   (data, Some e, code) \<Rightarrow> deal4xx ex cs zero_result (Some e) code
                 | (data, None, code) \<Rightarrow>
                     encode_result ex code cs
                       \<lparr>rs_ResultCode = code, rs_Message = Message ''OK'',
                        rs_Data = (case data of None \<Rightarrow> NilData | Some t \<Rightarrow> TextData t)\<rparr>) k))
        else k (encode_result ex 200 cs should_login)))"

definition postUploadFile_steps :: "'w app \<Rightarrow> exchange \<Rightarrow> (served \<Rightarrow> ('w server, 'a) steps) \<Rightarrow> ('w server, 'a) steps" where
  "postUploadFile_steps ap ex k =
     isLogin_steps ap ex (\<lambda>logged_in cs.
       (if logged_in then
          (case ex_form ex of
             Inl e \<Rightarrow> k (deal4xx ex cs zero_result (Some e) 400)
           | Inr fm \<Rightarrow>
               (case fm_certFile fm of
                  Inl e \<Rightarrow> k (deal4xx ex cs zero_result (Some e) 400)
                | Inr upload \<Rightarrow>
                    (case fm_certId fm of
                       [] \<Rightarrow> k (Panics index_panic)
                     | i # _ \<Rightarrow>
                         UploadFile_steps (ap_os ap) (ap_fabric ap) i upload (replying (\<lambda>res. case res of
                             (data, Some e, code) \<Rightarrow> deal4xx ex cs zero_result (Some e) code
                           | (data, None, code) \<Rightarrow>
                               encode_result ex code cs
                                 (zero_result\<lparr>rs_ResultCode := code,
                                    rs_Data := (case data of None \<Rightarrow> NilData | Some t \<Rightarrow> TextData t)\<rparr>)) k))))
        else k (encode_result ex 200 cs should_login)))"

definition postChangeStatus_steps :: "'w app \<Rightarrow> exchange \<Rightarrow> (served \<Rightarrow> ('w server, 'a) steps) \<Rightarrow> ('w server, 'a) steps" where
  "postChangeStatus_steps ap ex k =
     isLogin_steps ap ex (\<lambda>logged_in cs.
       (if logged_in then
          (case ex_body ex of
             Inl e \<Rightarrow> k (deal4xx ex cs zero_result (Some e) 400)
           | Inr b \<Rightarrow>
               ChangeStatus_steps (ap_fabric ap) b (replying (\<lambda>res. case res of
                   (data, Some e, code) \<Rightarrow> deal4xx ex cs zero_result (Some e) code
                 | (data, None, code) \<Rightarrow>
                     encode_result ex code cs
                       (zero_result\<lparr>rs_ResultCode := code,
                          rs_Data := (case data of None \<Rightarrow> NilData | Some sts \<Rightarrow> StatusData sts)\<rparr>)) k))
        else k (encode_result ex 200 cs should_login)))"

definition getCertificate_steps :: "'w app \<Rightarrow> exchange \<Rightarrow> (served \<Rightarrow> ('w server, 'a) steps) \<Rightarrow> ('w server, 'a) steps" where
  "getCertificate_steps ap ex k =
     atomically (world_step (CertificateOut (ap_fabric ap) (ex_params ex))) (replying (\<lambda>res. case res of
         (data, Some e, code) \<Rightarrow> deal4xx ex [] zero_result (Some e) code
       | (data, None, code) \<Rightarrow>
           encode_result ex 200 []
             \<lparr>rs_ResultCode = code, rs_Message = Message ''OK'',
              rs_Data = (case data of None \<Rightarrow> NilData | Some c \<Rightarrow> CertData c)\<rparr>) k)"

definition getDownloadFile_steps :: "'w app \<Rightarrow> exchange \<Rightarrow> (served \<Rightarrow> ('w server, 'a) steps) \<Rightarrow> ('w server, 'a) steps" where
  "getDownloadFile_steps ap ex k =
     DownloadFile_steps (ap_os ap) (ap_fabric ap) (ex_params ex) (\<lambda>r.
       (case r of
          Panic m \<Rightarrow> k (Panics m)
        | Ret (fileName, fileSize, f, err, code) \<Rightarrow>
            (if err \<noteq> None then
               k (Answer \<lparr>rp_status = code, rp_headers = ex_headers ex, rp_cookies = [], rp_body = NoBody\<rparr>)
             else
               atomically (disk_step (copy_file (ap_os ap) f)) (\<lambda>(b, copy_err).
                 k (Answer \<lparr>rp_status = (if copy_err \<noteq> None \<and> b = '''' then 400 else 200),
                            rp_headers = download_headers fileName fileSize (ex_headers ex),
                            rp_cookies = [], rp_body = FileBody b\<rparr>)))))"

definition getList_steps ::
    "(query_conditions \<Rightarrow> query_conditions) \<Rightarrow> string \<Rightarrow> 'w app \<Rightarrow> exchange \<Rightarrow> (served \<Rightarrow> ('w server, 'a) steps)
     \<Rightarrow> ('w server, 'a) steps" where
  "getList_steps adjust head ap ex k =
     (case ex_body ex of
        Inl e \<Rightarrow> k (deal4xx ex [] zero_result (Some e) 400)
      | Inr b \<Rightarrow>
          isLogin_steps ap ex (\<lambda>logged_in cs.
            list_steps adjust head (ap_fabric ap) b logged_in (\<lambda>r. k (query_reply ex cs r))))"

fun handler_steps :: "route_target \<Rightarrow> 'w app \<Rightarrow> exchange \<Rightarrow> (served \<Rightarrow> ('w server, 'a) steps) \<Rightarrow> ('w server, 'a) steps" where
  "handler_steps Login = postLogin_steps"
| "handler_steps PostCertificate = postCertificate_steps"
| "handler_steps PostUploadFile = postUploadFile_steps"
| "handler_steps GetDownloadFile = getDownloadFile_steps"
| "handler_steps GetCertificate = getCertificate_steps"
| "handler_steps OpenList = getList_steps (\<lambda>qc. qc\<lparr>qc_isOpen := True\<rparr>) open_head"
| "handler_steps DeletedList = getList_steps id deleted_head"
| "handler_steps DraftList = getList_steps id draft_head"
| "handler_steps PostChangeStatus = postChangeStatus_steps"
| "handler_steps Logout = postLogout_steps"

definition serve_steps ::
    "http_method \<Rightarrow> string list \<Rightarrow> 'w app \<Rightarrow> exchange \<Rightarrow> (served \<Rightarrow> ('w server, 'a) steps) \<Rightarrow> ('w server, 'a) steps" where
  "serve_steps meth path ap ex k =
     (case find_route buildRouter meth path of
        None \<Rightarrow> k (Answer \<lparr>rp_status = 404, rp_headers = [], rp_cookies = [], rp_body = NoBody\<rparr>)
      | Some (t, params) \<Rightarrow> handler_steps t ap (routed params ex) k)"

text \<open>The program of an event: of a request, ending with what was served, or of the collector.\<close>

definition event_steps :: "'w app \<Rightarrow> event \<Rightarrow> ('w server, served option) steps" where
  "event_steps ap e =
     (case e of
        Request meth path ex \<Rightarrow> serve_steps meth path ap ex (\<lambda>r. Finish (Some r))
      | Collect \<Rightarrow> atomically (\<lambda>s. ((), run_event ap Collect s)) (\<lambda>_. Finish None))"

section \<open>Without interruption\<close>

text \<open>Going on after an operation on the outside world.\<close>

definition resume :: "('r outcome \<Rightarrow> ('w server, 'a) steps) \<Rightarrow> 'w server \<Rightarrow> 'r outcome \<times> 'w \<Rightarrow> ('a \<times> 'w server) option" where
  "resume k s rw = run_steps (k (fst rw)) (s\<lparr>sv_world := snd rw\<rparr>)"

lemma resume_pair [simp]: "resume k s (r, w) = run_steps (k r) (s\<lparr>sv_world := w\<rparr>)"
  by (simp add: resume_def)

lemma run_world_step: "run_steps (atomically (world_step f) k) s = resume k s (f (sv_world s))"
  by (simp add: run_atomically world_step_def split: prod.split)

lemma run_disk_step:
  "run_steps (atomically (disk_step f) k) s = (case f (sv_disk s) of (r, d) \<Rightarrow> run_steps (k r) (s\<lparr>sv_disk := d\<rparr>))"
  by (simp add: run_atomically disk_step_def split: prod.split)

lemma run_call_steps:
  assumes "\<And>a s. run_steps (g a) s = resume k s (h a (sv_world s))"
  shows "run_steps (call_steps f k g) s = resume k s (and_then (f (sv_world s)) h)"
  by (simp add: call_steps_def run_world_step assms resume_def and_then_def split: prod.split outcome.split)

lemma run_finish: "run_steps (k r) s = resume k s (r, sv_world s)"
  by simp

lemma run_CertificateIn:
  "run_steps (CertificateIn_steps setup body k) s = resume k s (CertificateIn setup body (sv_world s))"
proof -
  have inner: "run_steps (k (Ret (case data of Inl e \<Rightarrow> (None, Some e, 501) | Inr txid \<Rightarrow> (Some txid, None, 200)))) s
      = resume k s (case data of Inl e \<Rightarrow> (Ret (None, Some e, 501), sv_world s)
                             | Inr txid \<Rightarrow> (Ret (Some txid, None, 200), sv_world s))" for data s
    by (cases data) simp_all
  show ?thesis
    unfolding CertificateIn_steps_def CertificateIn_def Let_def
    by (auto split: prod.split option.split intro!: run_call_steps inner)
qed

lemma run_change_one:
  "run_steps (change_one_steps setup st k) s = resume k s (change_one setup st (sv_world s))"
  unfolding change_one_steps_def change_one_def
  by (rule run_call_steps)
     (auto simp: Let_def run_CertificateIn resume_def and_then_def split: option.split prod.split outcome.split)

lemma run_change_all:
  "run_steps (change_all_steps setup sts k) s = resume k s (change_all setup sts (sv_world s))"
  by (induction sts arbitrary: s k)
     (simp_all add: run_change_one resume_def and_then_def split: prod.split outcome.split)

lemma run_ChangeStatus:
  "run_steps (ChangeStatus_steps setup body k) s = resume k s (ChangeStatus setup body (sv_world s))"
  by (auto simp: ChangeStatus_steps_def ChangeStatus_def run_change_all resume_def and_then_def
      split: prod.split option.split outcome.split)

lemma run_refresh:
  "run_steps (refresh_steps setup i txid k) s = resume k s (refresh_certificate setup i txid (sv_world s))"
  unfolding refresh_steps_def refresh_certificate_def
  by (rule run_call_steps)
     (auto simp: run_CertificateIn resume_def and_then_def split: option.split prod.split outcome.split)

lemma run_upload_bytes:
  "run_steps (upload_bytes_steps setup i buf k) s = resume k s (upload_bytes setup i buf (sv_world s))"
  unfolding upload_bytes_steps_def upload_bytes_def
  by (auto intro!: run_call_steps simp: run_refresh split: sum.split)

text \<open>Going on after an operation on the disk and the outside world.\<close>

definition resume_disk ::
    "('r outcome \<Rightarrow> ('w server, 'a) steps) \<Rightarrow> 'w server \<Rightarrow> 'r outcome \<times> (disk \<times> 'w) \<Rightarrow> ('a \<times> 'w server) option" where
  "resume_disk k s r = run_steps (k (fst r)) (s\<lparr>sv_disk := fst (snd r), sv_world := snd (snd r)\<rparr>)"

lemma world_then_disk: "s\<lparr>sv_world := w, sv_disk := d\<rparr> = s\<lparr>sv_disk := d, sv_world := w\<rparr>"
  by simp

lemma run_UploadFile:
  "run_steps (UploadFile_steps os setup i upload k) s = resume_disk k s (UploadFile os setup i upload (sv_disk s, sv_world s))"
  unfolding upload_steps_defs UploadFile_def Let_def
  by (auto simp: run_disk_step run_upload_bytes resume_def resume_disk_def on_world_def split: prod.split option.split sum.split)

lemma run_DownloadFile:
  "run_steps (DownloadFile_steps os setup param k) s = resume_disk k s (DownloadFile os setup param (sv_disk s, sv_world s))"
  by (auto simp: DownloadFile_steps_def DownloadFile_def world_then_disk call_steps_def run_world_step run_disk_step resume_def
      resume_disk_def on_world_def and_then_def split: prod.split outcome.split sum.split option.split)

lemma run_finish_steps:
  "run_steps (finish_steps setup q n i bms k) s = resume k s (finish_query setup q n i bms (sv_world s))"
  unfolding finish_steps_def finish_query_def Let_def
  by (rule run_call_steps)
     (auto simp: resume_def and_then_def call_steps_def run_world_step page_count_def
        split: prod.split option.split outcome.split)

text \<open>The loop over bookmarks: both sides may run for ever, and do so together.\<close>

lemma gather_bookmarks_step:
  "gather_bookmarks setup q n bms b w =
     (case getNewBookmarks setup q n b w of
        (r, w1) \<Rightarrow> (case after_bookmarks bms r of
          Inl res \<Rightarrow> Some (res, w1)
        | Inr b' \<Rightarrow> gather_bookmarks setup q n (bms @ [b']) b' w1))"
  by (subst gather_bookmarks.simps)
     (simp add: after_bookmarks_def split: prod.split outcome.split option.split)

lemma run_gather_step:
  "run_steps (gather_steps setup q n bms b k) s =
     (case getNewBookmarks setup q n b (sv_world s) of
        (r, w1) \<Rightarrow> (case after_bookmarks bms r of
          Inl res \<Rightarrow> run_steps (k res) (s\<lparr>sv_world := w1\<rparr>)
        | Inr b' \<Rightarrow> run_steps (gather_steps setup q n (bms @ [b']) b' k) (s\<lparr>sv_world := w1\<rparr>)))"
  by (subst gather_steps.code) (simp add: world_step_def split: prod.split sum.split)

lemma run_gather_done:
  assumes "gather_bookmarks setup q n bms b w = Some (r, w')"
  shows "run_steps (gather_steps setup q n bms b k) (s\<lparr>sv_world := w\<rparr>) = run_steps (k r) (s\<lparr>sv_world := w'\<rparr>)"
proof -
  have "\<forall>s. run_steps (gather_steps setup q n bms b k) (s\<lparr>sv_world := w\<rparr>)
      = run_steps (k (fst (r, w'))) (s\<lparr>sv_world := snd (r, w')\<rparr>)"
  proof (rule gather_bookmarks.raw_induct [OF _ assms,
      where P = "\<lambda>setup q n bms b w rw. \<forall>s. run_steps (gather_steps setup q n bms b k) (s\<lparr>sv_world := w\<rparr>)
        = run_steps (k (fst rw)) (s\<lparr>sv_world := snd rw\<rparr>)"], intro allI)
    fix g fb q n bms b w rw and s :: "'a server"
    assume step: "\<And>fb q n bms b w rw. g fb q n bms b w = Some rw \<Longrightarrow>
        \<forall>s. run_steps (gather_steps fb q n bms b k) (s\<lparr>sv_world := w\<rparr>) = run_steps (k (fst rw)) (s\<lparr>sv_world := snd rw\<rparr>)"
      and run: "(case getNewBookmarks fb q n b w of
        (Panic m, w1) \<Rightarrow> Some (Panic m, w1)
      | (Ret (newList, err, code), w1) \<Rightarrow>
          (case err of
             Some e \<Rightarrow> Some (Ret (Inl (e, code)), w1)
           | None \<Rightarrow>
               (case newList of
                  None \<Rightarrow> Some (Panic nil_dereference, w1)
                | Some l \<Rightarrow>
                    (if last bms \<noteq> li_bookmark l \<and> li_pageCount l \<noteq> 0
                     then g fb q n (bms @ [li_bookmark l]) (li_bookmark l) w1
                     else Some (Ret (Inr bms), w1))))) = Some rw"
    from run step show "run_steps (gather_steps fb q n bms b k) (s\<lparr>sv_world := w\<rparr>)
        = run_steps (k (fst rw)) (s\<lparr>sv_world := snd rw\<rparr>)"
      by (subst run_gather_step) (fastforce simp: after_bookmarks_def split: prod.splits outcome.splits option.splits if_splits)
  qed
  then show ?thesis by simp
qed

lemma run_gather_returns:
  assumes "run_steps p s = Some y" "p = gather_steps setup q n bms b k"
  shows "gather_bookmarks setup q n bms b (sv_world s) \<noteq> None"
proof -
  have "\<forall>bms b. p = gather_steps setup q n bms b k \<longrightarrow> gather_bookmarks setup q n bms b (sv_world s) \<noteq> None"
  proof (rule run_steps.raw_induct [OF _ assms(1),
      where P = "\<lambda>p s y. \<forall>bms b. p = gather_steps setup q n bms b k \<longrightarrow> gather_bookmarks setup q n bms b (sv_world s) \<noteq> None"],
      intro allI impI)
    fix g p s y bms b
    assume step: "\<And>p s y. g p s = Some y \<Longrightarrow>
        \<forall>bms b. p = gather_steps setup q n bms b k \<longrightarrow> gather_bookmarks setup q n bms b (sv_world s) \<noteq> None"
      and run: "(case p of Finish a \<Rightarrow> Some (a, s) | Step u c \<Rightarrow> g (c s) (u s)) = Some y"
      and p: "p = gather_steps setup q n bms b k"
    obtain r w1 where nb: "getNewBookmarks setup q n b (sv_world s) = (r, w1)" by force
    show "gather_bookmarks setup q n bms b (sv_world s) \<noteq> None"
    proof (cases "after_bookmarks bms r")
      case (Inl res)
      then show ?thesis by (subst gather_bookmarks_step) (simp add: nb)
    next
      case (Inr b')
      have "g (gather_steps setup q n (bms @ [b']) b' k) (s\<lparr>sv_world := w1\<rparr>) = Some y"
        using run p by (subst (asm) gather_steps.code) (simp add: world_step_def nb Inr)
      from step [OF this] show ?thesis by (subst gather_bookmarks_step) (simp add: nb Inr)
    qed
  qed
  with assms(2) show ?thesis by blast
qed

text \<open>Going on after an operation that may not return.\<close>

definition resume_if :: "('r \<Rightarrow> ('w server, 'a) steps) \<Rightarrow> 'w server \<Rightarrow> ('r \<times> 'w) option \<Rightarrow> ('a \<times> 'w server) option" where
  "resume_if k s r = (case r of None \<Rightarrow> None | Some (a, w) \<Rightarrow> run_steps (k a) (s\<lparr>sv_world := w\<rparr>))"

lemma run_gather:
  "run_steps (gather_steps setup q n bms b k) s = resume_if k s (gather_bookmarks setup q n bms b (sv_world s))"
proof (cases "gather_bookmarks setup q n bms b (sv_world s)")
  case None
  then show ?thesis
    using run_gather_returns [of _ s _ "setup" q n bms b k]
    by (cases "run_steps (gather_steps setup q n bms b k) s") (auto simp: resume_if_def)
next
  case (Some rw)
  obtain r w where rw: "rw = (r, w)" by (cases rw)
  with Some run_gather_done [of "setup" q n bms b "sv_world s" r w k s] show ?thesis
    by (simp add: resume_if_def)
qed

lemma run_rich_query:
  "run_steps (rich_query_steps setup qc login q k) s = resume_if k s (CertificateRichQuery setup qc login q (sv_world s))"
  by (auto simp: rich_query_steps_def CertificateRichQuery_def run_gather run_finish_steps resume_if_def resume_def
      split: option.split outcome.split sum.split prod.split)

lemma run_list_steps:
  "run_steps (list_steps (\<lambda>qc. qc\<lparr>qc_isOpen := True\<rparr>) open_head setup body login k) s
     = resume_if k s (OpenListRichQuery setup body login (sv_world s))"
  "run_steps (list_steps id deleted_head setup body login k) s = resume_if k s (DeletedListRichQuery setup body login (sv_world s))"
  "run_steps (list_steps id draft_head setup body login k) s = resume_if k s (DraftListRichQuery setup body login (sv_world s))"
  by (auto simp: list_steps_def OpenListRichQuery_def DeletedListRichQuery_def DraftListRichQuery_def Let_def
      run_rich_query resume_if_def split: prod.split option.split)

lemma run_start: "run_steps (start_steps ap ex k) s = (case start_session ap ex s of (h, cs, s') \<Rightarrow> run_steps (k h cs) s')"
  by (simp add: start_steps_def run_atomically split: prod.split)

lemma run_isLogin: "run_steps (isLogin_steps ap ex k) s = (case isLogin ap ex s of (b, cs, s') \<Rightarrow> run_steps (k b cs) s')"
  by (simp add: isLogin_steps_def isLogin_def run_start get_steps_def run_atomically split: prod.split)

text \<open>A handler's result, or nothing if it does not return.\<close>

definition served_then :: "(served \<Rightarrow> ('w server, 'a) steps) \<Rightarrow> served \<times> 'w server \<Rightarrow> ('a \<times> 'w server) option" where
  "served_then k rs = (if fst rs = Hangs then None else run_steps (k (fst rs)) (snd rs))"

lemma never_hangs [simp]: "encode_result ex status cs r \<noteq> Hangs" "deal4xx ex cs r e code \<noteq> Hangs"
  "query_reply ex cs q \<noteq> Hangs"
  by (auto simp: encode_result_def deal4xx_def query_reply_def Let_def split: option.split outcome.split prod.split)

lemma run_replying:
  assumes "\<And>a. reply a \<noteq> Hangs"
  shows "resume (replying reply k) s (f (sv_world s)) = served_then k (call_world f reply s)"
  using assms by (simp add: resume_def replying_def served_then_def call_world_def split: prod.split outcome.split)

lemma run_login_logout:
  "run_steps (postLogin_steps ap ex k) s = served_then k (postLogin ap ex s)"
  "run_steps (postLogout_steps ap ex k) s = served_then k (postLogout ap ex s)"
  by (auto simp: postLogin_steps_def postLogin_def postLogout_steps_def postLogout_def run_start set_steps_def
      delete_steps_def destroy_steps_def run_atomically run_isLogin served_then_def Let_def
      split: prod.split sum.split option.split)

lemma run_getList:
  "run_steps (getList_steps (\<lambda>qc. qc\<lparr>qc_isOpen := True\<rparr>) open_head ap ex k) s = served_then k (getOpenList ap ex s)"
  "run_steps (getList_steps id deleted_head ap ex k) s = served_then k (getDeletedList ap ex s)"
  "run_steps (getList_steps id draft_head ap ex k) s = served_then k (getDraftList ap ex s)"
  by (auto simp: getList_steps_def getOpenList_def getDeletedList_def getDraftList_def run_isLogin run_list_steps
      resume_if_def served_then_def split: sum.split prod.split option.split)

lemma run_certificate_handlers:
  "run_steps (postCertificate_steps ap ex k) s = served_then k (postCertificate ap ex s)"
  "run_steps (postChangeStatus_steps ap ex k) s = served_then k (postChangeStatus ap ex s)"
  "run_steps (getCertificate_steps ap ex k) s = served_then k (getCertificate ap ex s)"
proof -
  show "run_steps (postCertificate_steps ap ex k) s = served_then k (postCertificate ap ex s)"
    unfolding postCertificate_steps_def postCertificate_def
    by (auto simp: run_isLogin run_CertificateIn run_replying split: prod.split sum.split option.split)
       (auto simp: served_then_def)
  show "run_steps (postChangeStatus_steps ap ex k) s = served_then k (postChangeStatus ap ex s)"
    unfolding postChangeStatus_steps_def postChangeStatus_def
    by (auto simp: run_isLogin run_ChangeStatus run_replying split: prod.split sum.split option.split)
       (auto simp: served_then_def)
  show "run_steps (getCertificate_steps ap ex k) s = served_then k (getCertificate ap ex s)"
    unfolding getCertificate_steps_def getCertificate_def run_world_step
    by (rule run_replying) (simp split: prod.split option.split)
qed

lemma run_postUploadFile: "run_steps (postUploadFile_steps ap ex k) s = served_then k (postUploadFile ap ex s)"
  unfolding postUploadFile_steps_def postUploadFile_def
  by (auto simp: run_isLogin run_UploadFile resume_disk_def replying_def served_then_def call_disk_def
      split: prod.split sum.split option.split list.split outcome.split)

lemma run_getDownloadFile: "run_steps (getDownloadFile_steps ap ex k) s = served_then k (getDownloadFile ap ex s)"
  unfolding getDownloadFile_steps_def getDownloadFile_def
  by (auto simp: run_DownloadFile resume_disk_def run_disk_step served_then_def call_disk_def
      split: prod.split outcome.split)

lemma run_handler: "run_steps (handler_steps t ap ex k) s = served_then k (handler_of t ap ex s)"
  by (cases t) (simp_all add: run_login_logout run_getList run_certificate_handlers run_postUploadFile run_getDownloadFile)

lemma run_serve: "run_steps (serve_steps meth path ap ex k) s = served_then k (serve meth path ap ex s)"
  by (simp add: serve_steps_def serve_routed run_handler served_then_def split: option.split prod.split)

lemma run_event_steps:
  "run_steps (event_steps ap (Request meth path ex)) s =
     (if fst (serve meth path ap ex s) = Hangs then None
      else Some (Some (fst (serve meth path ap ex s)), run_event ap (Request meth path ex) s))"
  "run_steps (event_steps ap Collect) s = Some (None, run_event ap Collect s)"
  by (simp_all add: event_steps_def run_serve served_then_def run_atomically del: run_event.simps(2))

end
