(* ===== verification/Interleaving.thy ===== *)
theory Interleaving
  imports Programs
begin

text \<open>
  Many requests at once: a pool of the programs of theory Programs, any of which may make the next
  step. The proofs are by rely and guarantee: \<open>obeys\<close> says of a program that, whatever the others
  do within the rely, every step it makes keeps the invariant and is one of its guarantee, and the
  locale \<open>rely_guarantee\<close> carries this over to the pool. Its interpretation on the server gives the
  properties: the ledger stays sound however requests interleave, and a change of the ledger still
  needs a password. The last section has what goes wrong: a status change that reads a certificate
  before another request posts it again undoes that post, and a request that has passed the login
  check still writes after the logout.
\<close>

section \<open>A pool of programs\<close>

text \<open>The past records which thread moved, and the server as it found it.\<close>

type_synonym 'w past = "(nat \<times> 'w server) list"

type_synonym 'w moment = "'w past \<times> 'w server"

type_synonym 'w thread = "('w server, served option) steps"

record 'w pool =
  pl_threads :: "'w thread list"
  pl_past :: "'w past"
  pl_server :: "'w server"

definition moment :: "'w pool \<Rightarrow> 'w moment" where
  "moment c = (pl_past c, pl_server c)"

inductive moves :: "nat \<Rightarrow> 'w pool \<Rightarrow> 'w pool \<Rightarrow> bool" where
  "i < length (pl_threads c) \<Longrightarrow> pl_threads c ! i = Step u k \<Longrightarrow>
     moves i c \<lparr>pl_threads = (pl_threads c)[i := k (pl_server c)],
                pl_past = pl_past c @ [(i, pl_server c)], pl_server = u (pl_server c)\<rparr>"

inductive_cases movesE: "moves i c c'"

inductive reaches :: "'w pool \<Rightarrow> 'w pool \<Rightarrow> bool" where
  reaches_refl: "reaches c c"
| reaches_step: "reaches c c' \<Longrightarrow> moves i c' c'' \<Longrightarrow> reaches c c''"

text \<open>
  All requests that ever arrive, and all runs of the collector, are in the pool from the start: a
  thread that has not moved is a request that has not arrived.
\<close>

definition accepting :: "'w app \<Rightarrow> event list \<Rightarrow> 'w server \<Rightarrow> 'w pool" where
  "accepting ap evs s = \<lparr>pl_threads = map (event_steps ap) evs, pl_past = [], pl_server = s\<rparr>"

text \<open>A schedule names the thread that moves next; a finished or absent one does nothing.\<close>

fun move :: "nat \<Rightarrow> 'w pool \<Rightarrow> 'w pool" where
  "move i c =
     (if i < length (pl_threads c) then
        (case pl_threads c ! i of
           Finish a \<Rightarrow> c
         | Step u k \<Rightarrow> \<lparr>pl_threads = (pl_threads c)[i := k (pl_server c)],
                        pl_past = pl_past c @ [(i, pl_server c)], pl_server = u (pl_server c)\<rparr>)
      else c)"

definition schedule :: "nat list \<Rightarrow> 'w pool \<Rightarrow> 'w pool" where
  "schedule is c = fold move is c"

declare move.simps [simp del]

lemma move_moves: "move i c = c \<or> moves i c (move i c)"
proof (cases "i < length (pl_threads c)")
  case True
  then show ?thesis
    by (cases "pl_threads c ! i") (auto simp: move.simps intro: moves.intros)
qed (simp add: move.simps)

lemma reaches_schedule: "reaches c (schedule is c)"
  unfolding schedule_def
proof (induction "is" rule: rev_induct)
  case (snoc i "is")
  then show ?case using move_moves [of i "fold move is c"] by (auto intro: reaches_step)
qed (simp add: reaches_refl)

lemma schedule_simps [simp]:
  "schedule [] c = c" "schedule (i # is) c = schedule is (move i c)"
  "schedule (is @ js) c = schedule js (schedule is c)"
  by (simp_all add: schedule_def)

section \<open>Rely and guarantee\<close>

coinductive obeys ::
    "('w moment \<Rightarrow> bool) \<Rightarrow> (nat \<Rightarrow> 'w moment \<Rightarrow> 'w moment \<Rightarrow> bool) \<Rightarrow> (nat \<Rightarrow> 'w moment \<Rightarrow> 'w moment \<Rightarrow> bool)
     \<Rightarrow> nat \<Rightarrow> ('w server, 'a) steps \<Rightarrow> 'w moment \<Rightarrow> bool"
  for good rely guar i where
  obeys_Finish: "obeys good rely guar i (Finish a) m"
| obeys_Step:
    "(\<And>past s. rely i m (past, s) \<Longrightarrow> good (past, s) \<Longrightarrow>
        good (past @ [(i, s)], u s) \<and> guar i (past, s) (past @ [(i, s)], u s)
        \<and> obeys good rely guar i (k s) (past @ [(i, s)], u s)) \<Longrightarrow>
     obeys good rely guar i (Step u k) m"

inductive_cases obeys_StepE: "obeys good rely guar i (Step u k) m"

lemma obeys_atomically:
  assumes "\<And>past s. rely i m (past, s) \<Longrightarrow> good (past, s) \<Longrightarrow>
      good (past @ [(i, s)], snd (f s)) \<and> guar i (past, s) (past @ [(i, s)], snd (f s))
      \<and> obeys good rely guar i (k (fst (f s))) (past @ [(i, s)], snd (f s))"
  shows "obeys good rely guar i (atomically f k) m"
  unfolding atomically_def by (rule obeys_Step) (rule assms)

text \<open>What the steps of one thread are to the others: the guarantee of each is in the rely of all.\<close>

locale rely_guarantee =
  fixes good :: "'w moment \<Rightarrow> bool"
    and rely guar :: "nat \<Rightarrow> 'w moment \<Rightarrow> 'w moment \<Rightarrow> bool"
  assumes rely_refl: "rely i m m"
    and rely_trans: "rely i m1 m2 \<Longrightarrow> rely i m2 m3 \<Longrightarrow> rely i m1 m3"
    and guar_rely: "guar j m m' \<Longrightarrow> i \<noteq> j \<Longrightarrow> rely i m m'"
begin

lemma obeys_stable:
  assumes "obeys good rely guar i p m" "rely i m m'"
  shows "obeys good rely guar i p m'"
  using assms(1)
proof (cases rule: obeys.cases)
  case (obeys_Step u k)
  then show ?thesis
    using rely_trans [OF assms(2)] by (auto intro!: obeys.obeys_Step)
qed (auto intro: obeys_Finish)

definition pool_ok :: "'w pool \<Rightarrow> bool" where
  "pool_ok c \<longleftrightarrow> good (moment c) \<and> (\<forall>i < length (pl_threads c). obeys good rely guar i (pl_threads c ! i) (moment c))"

lemma moves_ok:
  assumes "moves i c c'" "pool_ok c"
  shows "pool_ok c'" "guar i (moment c) (moment c')"
proof -
  obtain u k where i: "i < length (pl_threads c)" "pl_threads c ! i = Step u k"
    and c': "c' = \<lparr>pl_threads = (pl_threads c)[i := k (pl_server c)],
      pl_past = pl_past c @ [(i, pl_server c)], pl_server = u (pl_server c)\<rparr>"
    using assms(1) by (rule movesE) blast
  have m: "moment c = (pl_past c, pl_server c)" "moment c' = (pl_past c @ [(i, pl_server c)], u (pl_server c))"
    by (simp_all add: moment_def c')
  have "obeys good rely guar i (Step u k) (moment c)" using assms(2) i by (metis pool_ok_def)
  then have step: "good (moment c')" "guar i (moment c) (moment c')" "obeys good rely guar i (k (pl_server c)) (moment c')"
    using assms(2) rely_refl [of i "moment c"] unfolding m pool_ok_def by (auto elim!: obeys_StepE)
  have "obeys good rely guar j (pl_threads c ! j) (moment c')" if "j < length (pl_threads c)" "j \<noteq> i" for j
    by (rule obeys_stable [OF _ guar_rely [OF step(2) that(2)]]) (use assms(2) that(1) in \<open>simp add: pool_ok_def\<close>)
  with step i(1) show "pool_ok c'" unfolding pool_ok_def by (simp add: c' nth_list_update)
  show "guar i (moment c) (moment c')" by (rule step(2))
qed

lemma reaches_ok: "reaches c c' \<Longrightarrow> pool_ok c \<Longrightarrow> pool_ok c'"
  by (induction rule: reaches.induct) (auto dest: moves_ok)

lemma pool_okI:
  "good (moment c) \<Longrightarrow> (\<And>i. i < length (pl_threads c) \<Longrightarrow> obeys good rely guar i (pl_threads c ! i) (moment c)) \<Longrightarrow> pool_ok c"
  by (simp add: pool_ok_def)

end

section \<open>The history of a server\<close>

definition moments :: "nat \<Rightarrow> 'w past \<Rightarrow> 'w server list" where
  "moments i past = map snd (filter (\<lambda>e. fst e = i) past)"

text \<open>The server as a thread found it when it made its first step.\<close>

definition began :: "'w past \<Rightarrow> nat \<Rightarrow> 'w server \<Rightarrow> bool" where
  "began past i s \<longleftrightarrow> (case moments i past of [] \<Rightarrow> False | s' # _ \<Rightarrow> s' = s)"

text \<open>A request to log in with a right password has begun under a session identifier.\<close>

definition password_given :: "'w app \<Rightarrow> event list \<Rightarrow> 'w past \<Rightarrow> string \<Rightarrow> bool" where
  "password_given ap evs past sid \<longleftrightarrow> (\<exists>j < length evs. \<exists>s. began past j s \<and> login_event ap (evs ! j) s sid)"

text \<open>The session identifier a request runs under is settled by its first step.\<close>

definition runs_under :: "'w app \<Rightarrow> event list \<Rightarrow> 'w past \<Rightarrow> nat \<Rightarrow> string \<Rightarrow> bool" where
  "runs_under ap evs past i sid \<longleftrightarrow>
     i < length evs \<and> (\<exists>meth path ex s. evs ! i = Request meth path ex \<and> began past i s \<and> session_of ap ex s = sid)"

definition entitled :: "'w app \<Rightarrow> event list \<Rightarrow> nat \<Rightarrow> 'w past \<Rightarrow> bool" where
  "entitled ap evs i past \<longleftrightarrow> (\<exists>sid. runs_under ap evs past i sid \<and> password_given ap evs past sid)"

lemma moments_simps [simp]:
  "moments i [] = []" "moments i (past @ zs) = moments i past @ moments i zs"
  "moments i ((j, s) # zs) = (if j = i then s # moments i zs else moments i zs)"
  by (simp_all add: moments_def)

lemma moments_others: "i \<notin> fst ` set zs \<Longrightarrow> moments i zs = []"
  by (induction zs) auto

lemma began_append: "began past i s \<Longrightarrow> began (past @ zs) i s"
  by (cases "moments i past") (auto simp: began_def)

lemma began_first: "moments i past = [] \<Longrightarrow> began (past @ [(i, s)]) i s"
  by (simp add: began_def)

lemma password_given_append: "password_given ap evs past sid \<Longrightarrow> password_given ap evs (past @ zs) sid"
  unfolding password_given_def by (blast intro: began_append)

lemma entitled_append: "entitled ap evs i past \<Longrightarrow> entitled ap evs i (past @ zs)"
  unfolding entitled_def runs_under_def by (blast intro: began_append password_given_append)

section \<open>The invariant, the rely and the guarantee of the server\<close>

text \<open>The store holds the name of a user.\<close>

definition user_known :: "provider \<Rightarrow> nat \<Rightarrow> bool" where
  "user_known p a \<longleftrightarrow> (case ss_value (pr_heap p ! a) ''username'' of None \<Rightarrow> False | Some u \<Rightarrow> u \<noteq> '''')"

text \<open>A store that once was in use is never given to another session, even if it is out of use.\<close>

definition stores_kept :: "provider \<Rightarrow> provider \<Rightarrow> bool" where
  "stores_kept p p' \<longleftrightarrow>
     length (pr_heap p) \<le> length (pr_heap p') \<and> (\<forall>a < length (pr_heap p). ss_sid (pr_heap p' ! a) = ss_sid (pr_heap p ! a))"

definition files_kept :: "ledger \<Rightarrow> ledger \<Rightarrow> bool" where
  "files_kept l l' \<longleftrightarrow> (\<forall>i. abs_files l i \<noteq> None \<longrightarrow> abs_files l' i \<noteq> None)"

definition sound :: "('w \<Rightarrow> ledger) \<Rightarrow> 'w app \<Rightarrow> event list \<Rightarrow> 'w moment \<Rightarrow> bool" where
  "sound led ap evs m \<longleftrightarrow>
     session_ok (prov (snd m)) \<and> ledger_inv (led (sv_world (snd m)))
     \<and> (\<forall>a < length (pr_heap (prov (snd m))). user_known (prov (snd m)) a \<longrightarrow>
           password_given ap evs (fst m) (ss_sid (pr_heap (prov (snd m)) ! a)))"

definition others :: "('w \<Rightarrow> ledger) \<Rightarrow> nat \<Rightarrow> 'w moment \<Rightarrow> 'w moment \<Rightarrow> bool" where
  "others led i m m' \<longleftrightarrow>
     (\<exists>zs. fst m' = fst m @ zs \<and> i \<notin> fst ` set zs) \<and> stores_kept (prov (snd m)) (prov (snd m'))
     \<and> files_kept (led (sv_world (snd m))) (led (sv_world (snd m')))"

definition mine :: "('w \<Rightarrow> ledger) \<Rightarrow> 'w app \<Rightarrow> event list \<Rightarrow> nat \<Rightarrow> 'w moment \<Rightarrow> 'w moment \<Rightarrow> bool" where
  "mine led ap evs i m m' \<longleftrightarrow>
     (\<exists>s. fst m' = fst m @ [(i, s)]) \<and> stores_kept (prov (snd m)) (prov (snd m'))
     \<and> files_kept (led (sv_world (snd m))) (led (sv_world (snd m')))
     \<and> (led (sv_world (snd m')) = led (sv_world (snd m))
        \<or> entitled ap evs i (fst m) \<and> (\<exists>p args. service_call (led (sv_world (snd m))) args
             \<and> led (sv_world (snd m')) = snd (transact p args (led (sv_world (snd m))))))"

abbreviation plays ::
    "('w \<Rightarrow> ledger) \<Rightarrow> 'w app \<Rightarrow> event list \<Rightarrow> nat \<Rightarrow> ('w server, 'a) steps \<Rightarrow> 'w moment \<Rightarrow> bool" where
  "plays led ap evs \<equiv> obeys (sound led ap evs) (others led) (mine led ap evs)"

lemma stores_kept_refl [simp]: "stores_kept p p"
  by (simp add: stores_kept_def)

lemma files_kept_refl [simp]: "files_kept l l"
  by (simp add: files_kept_def)

lemma stores_kept_trans: "stores_kept p q \<Longrightarrow> stores_kept q r \<Longrightarrow> stores_kept p r"
  by (fastforce simp: stores_kept_def)

lemma files_kept_trans: "files_kept l l1 \<Longrightarrow> files_kept l1 l2 \<Longrightarrow> files_kept l l2"
  by (simp add: files_kept_def)

interpretation server: rely_guarantee "sound led ap evs" "others led" "mine led ap evs"
proof
  show "others led i m m" for i m
    unfolding others_def by (intro conjI exI [of _ "[]"]) simp_all
  show "others led i m1 m3" if "others led i m1 m2" "others led i m2 m3" for i m1 m2 m3
  proof -
    note o = that
    obtain zs where "fst m2 = fst m1 @ zs" "i \<notin> fst ` set zs" using o(1) unfolding others_def by blast
    moreover obtain zs' where "fst m3 = fst m2 @ zs'" "i \<notin> fst ` set zs'" using o(2) unfolding others_def by blast
    ultimately have "fst m3 = fst m1 @ (zs @ zs') \<and> i \<notin> fst ` set (zs @ zs')" by auto
    with o show ?thesis
      unfolding others_def by (blast intro: stores_kept_trans files_kept_trans)
  qed
  show "others led i m m'" if "mine led ap evs j m m'" "i \<noteq> j" for i j m m'
    using that unfolding others_def mine_def by fastforce
qed

lemma others_past: "others led i m (past, s) \<Longrightarrow> \<exists>zs. past = fst m @ zs \<and> moments i zs = []"
  by (auto simp: others_def intro: moments_others)

lemma others_entitled: "others led i m (past, s) \<Longrightarrow> entitled ap evs i (fst m) \<Longrightarrow> entitled ap evs i past"
  using others_past [of led i m past s] by (auto intro: entitled_append)

lemma others_then_entitled: "others led i m (past, s) \<Longrightarrow> entitled ap evs i (fst m) \<Longrightarrow> entitled ap evs i (fst (past @ zs, s'))"
  using others_entitled [of led i m past s] by (simp add: entitled_append)

text \<open>A step that changes neither the sessions nor the ledger.\<close>

lemma plays_quiet:
  assumes "\<And>s. prov (snd (f s)) = prov s" "\<And>s. led (sv_world (snd (f s))) = led (sv_world s)"
    and "\<And>past s. others led i m (past, s) \<Longrightarrow> sound led ap evs (past, s) \<Longrightarrow>
      plays led ap evs i (k (fst (f s))) (past @ [(i, s)], snd (f s))"
  shows "plays led ap evs i (atomically f k) m"
proof (rule obeys_atomically, intro conjI)
  fix past s
  assume m: "others led i m (past, s)" and ok: "sound led ap evs (past, s)"
  show "sound led ap evs (past @ [(i, s)], snd (f s))"
    using ok by (simp add: sound_def assms(1,2) password_given_append)
  show "mine led ap evs i (past, s) (past @ [(i, s)], snd (f s))"
    by (simp add: mine_def assms(1,2))
qed (rule assms(3))

section \<open>The steps on the sessions\<close>

text \<open>The provider keeps its stores and knows no new users.\<close>

definition calm :: "provider \<Rightarrow> provider \<Rightarrow> bool" where
  "calm p p' \<longleftrightarrow> stores_kept p p' \<and> (\<forall>a < length (pr_heap p'). user_known p' a \<longrightarrow> a < length (pr_heap p) \<and> user_known p a)"

lemma calm_heap: "pr_heap p' = pr_heap p \<Longrightarrow> calm p p'"
  by (simp add: calm_def stores_kept_def user_known_def)

lemma calm_init: "calm p (snd (SessionInit now sid p))"
  by (auto simp: calm_def stores_kept_def user_known_def SessionInit_def Let_def nth_append split: if_splits)

lemma calm_read: "calm p (snd (SessionRead now sid p))"
  by (simp add: SessionRead_def calm_init calm_heap split: option.split)

lemma calm_update: "calm p (SessionUpdate now sid p)"
  by (auto simp: calm_def stores_kept_def user_known_def SessionUpdate_def nth_update_if split: option.splits if_splits)

lemma calm_trans: "calm p q \<Longrightarrow> calm q r \<Longrightarrow> calm p r"
  by (auto simp: calm_def intro: stores_kept_trans)

lemma calm_delete: "calm p (store_Delete now a ''username'' p)"
  unfolding store_Delete_def
  by (rule calm_trans [OF _ calm_update])
     (auto simp: calm_def stores_kept_def user_known_def set_values_def nth_update_if split: if_splits)

lemma calm_get: "calm p (snd (store_Get now a k p))"
  by (simp add: store_Get_def Let_def calm_update)

lemma get_known: "fst (store_Get now a ''username'' p) = Some u \<Longrightarrow> u \<noteq> '''' \<Longrightarrow> user_known p a"
  by (auto simp: store_Get_def Let_def user_known_def SessionUpdate_def nth_update_if split: option.splits if_splits)

lemma heap_destroy: "pr_heap (SessionDestroy_provider sid p) = pr_heap p"
  by (simp add: SessionDestroy_provider_def split: option.split)

lemma heap_gc: "pr_heap (SessionGC life clock p) = pr_heap p"
proof (induction life clock p rule: SessionGC.induct)
  case (1 life clock p)
  then show ?case by (subst SessionGC.simps) (simp add: Let_def)
qed

text \<open>Only setting the name makes a user known, in the store it is set in.\<close>

lemma set_stores:
  "stores_kept p (store_Set now a k v p)"
  "b \<noteq> a \<Longrightarrow> user_known (store_Set now a k v p) b \<Longrightarrow> user_known p b"
  "length (pr_heap (store_Set now a k v p)) = length (pr_heap p)"
  by (auto simp: stores_kept_def user_known_def store_Set_def set_values_def SessionUpdate_def nth_update_if
      split: option.splits if_splits)

lemma sound_calm:
  assumes "sound led ap evs (past, s)" "calm (prov s) (prov s')" "session_ok (prov s')" "sv_world s' = sv_world s"
  shows "sound led ap evs (past @ zs, s')"
  using assms by (auto simp: sound_def calm_def stores_kept_def intro!: password_given_append)

text \<open>A step that changes only the sessions, and lets no user become known.\<close>

lemma plays_calm:
  assumes "\<And>s. session_ok (prov s) \<Longrightarrow> calm (prov s) (prov (snd (f s))) \<and> session_ok (prov (snd (f s)))"
    and "\<And>s. sv_world (snd (f s)) = sv_world s"
    and "\<And>past s. others led i m (past, s) \<Longrightarrow> sound led ap evs (past, s) \<Longrightarrow>
      plays led ap evs i (k (fst (f s))) (past @ [(i, s)], snd (f s))"
  shows "plays led ap evs i (atomically f k) m"
proof (rule obeys_atomically, intro conjI)
  fix past s
  assume m: "others led i m (past, s)" and ok: "sound led ap evs (past, s)"
  then have c: "calm (prov s) (prov (snd (f s)))" "session_ok (prov (snd (f s)))"
    using assms(1) [of s] by (simp_all add: sound_def)
  show "sound led ap evs (past @ [(i, s)], snd (f s))"
    by (rule sound_calm [OF ok c assms(2)])
  show "mine led ap evs i (past, s) (past @ [(i, s)], snd (f s))"
    using c by (simp add: mine_def assms(2) calm_def)
qed (rule assms(3))

lemma start_session_calm: "calm (prov s) (prov (snd (snd (start_session ap ex s))))"
  by (auto simp: start_session_def SessionStart_def Let_def split: prod.split)
     (metis calm_init calm_read snd_conv)+

text \<open>The handle a start gives, as long as others only play by the rules.\<close>

definition handles :: "nat \<Rightarrow> string \<Rightarrow> 'w moment \<Rightarrow> bool" where
  "handles h sid m \<longleftrightarrow> h < length (pr_heap (prov (snd m))) \<and> ss_sid (pr_heap (prov (snd m)) ! h) = sid"

lemma others_handles: "others led i m m' \<Longrightarrow> handles h sid m \<Longrightarrow> handles h sid m'"
  by (auto simp: others_def handles_def stores_kept_def)

lemma plays_start:
  assumes "\<And>h cs past s s'. others led i m (past, s) \<Longrightarrow> handles h (session_of ap ex s) (past @ [(i, s)], s') \<Longrightarrow>
      plays led ap evs i (k h cs) (past @ [(i, s)], s')"
  shows "plays led ap evs i (start_steps ap ex k) m"
  unfolding start_steps_def
proof (rule plays_calm, goal_cases)
  case (1 s)
  then show ?case
    using start_session_calm [of s ap ex] start_session_law(1) [of s ap ex] by (auto split: prod.split)
next
  case (2 s)
  then show ?case
    by (auto simp: start_session_def split: prod.split)
next
  case (3 past s)
  obtain h cs s' where st: "start_session ap ex s = (h, cs, s')" by (cases "start_session ap ex s") auto
  have ok: "session_ok (prov s)" using 3(2) by (simp add: sound_def)
  have "handles h (session_of ap ex s) (past @ [(i, s)], s')"
    using start_session_law(1,2) [OF ok st] session_okD [of "prov s'"] by (auto simp: handles_def handle_of_def)
  with assms 3(1) show ?case by (simp add: st)
qed

lemma plays_get:
  assumes "handles h sid m"
    and "\<And>u past s s'. others led i m (past, s) \<Longrightarrow>
      (u \<noteq> None \<and> u \<noteq> Some '''' \<Longrightarrow> password_given ap evs past sid) \<Longrightarrow>
      plays led ap evs i (k u) (past @ [(i, s)], s')"
  shows "plays led ap evs i (get_steps ap h k) m"
  unfolding get_steps_def
proof (rule plays_calm, goal_cases)
  case (1 s)
  then show ?case
    using calm_get [of "prov s"] session_ok_update by (auto simp: store_Get_def Let_def split: prod.split)
next
  case (2 s)
  then show ?case by (simp split: prod.split)
next
  case (3 past s)
  have "handles h sid (past, s)" by (rule others_handles [OF 3(1) assms(1)])
  then have known: "password_given ap evs past sid"
    if "fst (store_Get (ap_now ap (sv_tick s)) h ''username'' (prov s)) = Some u" "u \<noteq> ''''" for u
    using 3(2) get_known [OF that] by (auto simp: sound_def handles_def)
  obtain u p where g: "store_Get (ap_now ap (sv_tick s)) h ''username'' (prov s) = (u, p)" by force
  with known have "u \<noteq> None \<and> u \<noteq> Some '''' \<Longrightarrow> password_given ap evs past sid" by auto
  from assms(2) [OF 3(1) this] g show ?case by simp
qed

lemma plays_set:
  assumes "handles h sid m" "\<And>past. \<exists>zs. past = fst m @ zs \<Longrightarrow> password_given ap evs past sid"
    and "\<And>past s s'. others led i m (past, s) \<Longrightarrow> plays led ap evs i p (past @ [(i, s)], s')"
  shows "plays led ap evs i (set_steps ap h v p) m"
  unfolding set_steps_def
proof (rule obeys_atomically, intro conjI)
  fix past s
  assume m: "others led i m (past, s)" and ok: "sound led ap evs (past, s)"
  let ?f = "\<lambda>s. ((), on_provider (store_Set (ap_now ap (sv_tick s)) h ''username'' v) s)"
  have h: "ss_sid (pr_heap (prov s) ! h) = sid" using others_handles [OF m assms(1)] by (simp add: handles_def)
  have given: "password_given ap evs past sid" by (rule assms(2)) (use others_past [OF m] in blast)
  have "session_ok (store_Set (ap_now ap (sv_tick s)) h ''username'' v (prov s))"
    using ok by (simp add: sound_def store_Set_def session_ok_update session_ok_values)
  moreover have "password_given ap evs (past @ [(i, s)]) (ss_sid (pr_heap (prov s) ! a))"
    if "a < length (pr_heap (prov s))" "user_known (store_Set (ap_now ap (sv_tick s)) h ''username'' v (prov s)) a" for a
  proof (cases "a = h")
    case True
    with given h show ?thesis by (simp add: password_given_append)
  next
    case False
    with ok that set_stores(2) show ?thesis by (simp add: sound_def password_given_append)
  qed
  ultimately show "sound led ap evs (past @ [(i, s)], snd (?f s))"
    using ok set_stores(1,3) by (simp add: sound_def stores_kept_def)
  show "mine led ap evs i (past, s) (past @ [(i, s)], snd (?f s))"
    by (simp add: mine_def set_stores(1))
qed (rule assms(3))

lemma plays_delete:
  assumes "\<And>past s s'. others led i m (past, s) \<Longrightarrow> plays led ap evs i p (past @ [(i, s)], s')"
  shows "plays led ap evs i (delete_steps ap h p) m"
  unfolding delete_steps_def
  by (rule plays_calm) (simp_all add: calm_delete store_Delete_def [abs_def] session_ok_update session_ok_values assms,
    metis calm_delete store_Delete_def)

lemma plays_destroy:
  assumes "\<And>cs past s s'. others led i m (past, s) \<Longrightarrow> plays led ap evs i (k cs) (past @ [(i, s)], s')"
  shows "plays led ap evs i (destroy_steps ex k) m"
  unfolding destroy_steps_def
proof (rule plays_calm, goal_cases)
  case (1 s)
  then show ?case
    by (auto simp: SessionDestroy_def session_ok_destroy heap_destroy calm_heap split: prod.split option.split)
next
  case (2 s)
  then show ?case by (simp split: prod.split)
next
  case (3 past s)
  then show ?case by (auto intro: assms split: prod.split)
qed

lemma plays_collect: "plays led ap evs i (atomically (\<lambda>s. ((), run_event ap Collect s)) (\<lambda>_. Finish a)) m"
proof (rule plays_calm, goal_cases)
  case (1 s)
  then show ?case by (simp add: GC_def session_ok_gc heap_gc calm_heap)
qed (simp_all add: obeys_Finish)

section \<open>The steps on the world\<close>

lemma plays_disk:
  assumes "\<And>r past s s'. others led i m (past, s) \<Longrightarrow> sv_world s' = sv_world s \<Longrightarrow>
      plays led ap evs i (k r) (past @ [(i, s)], s')"
  shows "plays led ap evs i (atomically (disk_step g) k) m"
  by (rule plays_quiet) (auto simp: disk_step_def assms split: prod.split)

lemma plays_world:
  assumes "\<And>w. led (snd (g w)) = led w"
    and "\<And>r past s s'. others led i m (past, s) \<Longrightarrow> fst (g (sv_world s)) = r \<Longrightarrow> led (sv_world s') = led (sv_world s) \<Longrightarrow>
      plays led ap evs i (k r) (past @ [(i, s)], s')"
  shows "plays led ap evs i (atomically (world_step g) k) m"
proof (rule plays_quiet, goal_cases)
  case (2 s)
  then show ?case using assms(1) [of "sv_world s"] by (cases "g (sv_world s)") (simp add: world_step_def)
next
  case (3 past s)
  obtain r w where g: "g (sv_world s) = (r, w)" by (cases "g (sv_world s)")
  with assms(1) [of "sv_world s"] have "led w = led (sv_world s)" by simp
  with assms(2) [OF 3(1), of r "s\<lparr>sv_world := w\<rparr>"] g show ?case by (simp add: world_step_def)
qed (simp add: world_step_def split: prod.split)

lemma plays_call:
  assumes "\<And>w. led (snd (g w)) = led w"
    and "\<And>r past s s'. others led i m (past, s) \<Longrightarrow> plays led ap evs i (k r) (past @ [(i, s)], s')"
    and "\<And>a past s s'. others led i m (past, s) \<Longrightarrow> fst (g (sv_world s)) = Ret a \<Longrightarrow> led (sv_world s') = led (sv_world s) \<Longrightarrow>
      plays led ap evs i (h a) (past @ [(i, s)], s')"
  shows "plays led ap evs i (call_steps g k h) m"
  unfolding call_steps_def
proof (rule plays_world)
  fix r past and s s' :: "'a server"
  assume "others led i m (past, s)" "fst (g (sv_world s)) = r" "led (sv_world s') = led (sv_world s)"
  then show "plays led ap evs i (case r of Panic m \<Rightarrow> k (Panic m) | Ret a \<Rightarrow> h a) (past @ [(i, s)], s')"
    by (cases r) (simp_all add: assms(2,3))
qed (rule assms(1))

lemma service_call_files:
  assumes "service_call l args"
  shows "files_kept l (snd (transact p args l))"
  using assms unfolding service_call_def
proof (elim disjE exE conjE)
  fix c assume c: "args = [''postCertificate'', marshal_cert c]" "cert_ok c"
  show ?thesis
    by (cases rule: post_marshalled [OF c(2), of p l]) (simp_all add: c(1) files_kept_def abs_put_certs(2))
next
  fix cid buf assume "args = [''postUploadFile'', marshal_file (file_record cid buf)]"
  then show ?thesis
    by (auto simp: transact_post_file files_kept_def abs_files_def split: prod.splits option.splits)
qed

context ledger_client
begin

text \<open>An entitled thread sends the contract a call the service may make.\<close>

lemma plays_execute:
  assumes "entitled ap evs i (fst m)"
    and "\<And>past s. others ledger_of i m (past, s) \<Longrightarrow> service_call (ledger_of (sv_world s)) (f # args)"
    and "\<And>r past s s'. others ledger_of i m (past, s) \<Longrightarrow> plays ledger_of ap evs i (k r) (past @ [(i, s)], s')"
    and "\<And>a past s s'. others ledger_of i m (past, s) \<Longrightarrow> files_kept (ledger_of (sv_world s)) (ledger_of (sv_world s')) \<Longrightarrow>
      plays ledger_of ap evs i (h a) (past @ [(i, s)], s')"
  shows "plays ledger_of ap evs i (call_steps (Execute fab ev f args) k h) m"
  unfolding call_steps_def
proof (rule obeys_atomically, intro conjI)
  fix past s
  let ?f = "world_step (Execute fab ev f args) :: 'w server \<Rightarrow> _"
  assume m: "others ledger_of i m (past, s)" and ok: "sound ledger_of ap evs (past, s)"
  obtain r w where x: "Execute fab ev f args (sv_world s) = (r, w)" by force
  then have s': "?f s = (r, s\<lparr>sv_world := w\<rparr>)" by (simp add: world_step_def)
  have call: "service_call (ledger_of (sv_world s)) (f # args)" by (rule assms(2) [OF m])
  have w: "ledger_of w = ledger_of (sv_world s) \<or> (\<exists>p. ledger_of w = snd (transact p (f # args) (ledger_of (sv_world s))))"
    by (cases rule: execute_cases [of ev f args "sv_world s"]) (use x in \<open>auto, metis snd_conv\<close>)
  then have inv: "ledger_inv (ledger_of w)" and files: "files_kept (ledger_of (sv_world s)) (ledger_of w)"
    using ok service_call_keeps [OF _ call] service_call_files [OF call] by (auto simp: sound_def)
  show "sound ledger_of ap evs (past @ [(i, s)], snd (?f s))"
    using ok inv by (simp add: s' sound_def password_given_append)
  show "mine ledger_of ap evs i (past, s) (past @ [(i, s)], snd (?f s))"
    using files others_entitled [OF m assms(1)] w call by (auto simp: s' mine_def)
  show "plays ledger_of ap evs i (case fst (?f s) of Panic m \<Rightarrow> k (Panic m) | Ret a \<Rightarrow> h a) (past @ [(i, s)], snd (?f s))"
    using files by (simp add: s' assms(3,4) [OF m] split: outcome.split)
qed

end

section \<open>The business operations\<close>

context ledger_client
begin

lemma plays_CertificateIn:
  assumes ent: "entitled ap evs i (fst m)"
    and k: "\<And>r m. entitled ap evs i (fst m) \<Longrightarrow> plays ledger_of ap evs i (k r) m"
  shows "plays ledger_of ap evs i (CertificateIn_steps fab body k) m"
proof -
  obtain c err where u: "unmarshal_cert body = (c, err)" by (cases "unmarshal_cert body")
  show ?thesis
  proof (cases err)
    case (Some e)
    with u k [OF ent] show ?thesis by (simp add: CertificateIn_steps_def)
  next
    case None
    show ?thesis
      unfolding CertificateIn_steps_def u None prod.case option.case
    proof (rule plays_call)
      show "ledger_of (snd (Query fab ''getDownloadFile'' [certId c] w)) = ledger_of w" for w
        by (rule query_keeps)
      show "plays ledger_of ap evs i (k r) (past @ [(i, s)], s')" if "others ledger_of i m (past, s)" for r past s s'
        by (rule k [OF others_then_entitled [OF that ent]])
    next
      fix response past and s s' :: "'w server"
      assume m: "others ledger_of i m (past, s)" and q: "fst (Query fab ''getDownloadFile'' [certId c] (sv_world s)) = Ret response"
        and l: "ledger_of (sv_world s') = ledger_of (sv_world s)"
      let ?m = "(past @ [(i, s)], s')"
      have ent': "entitled ap evs i (fst ?m)" by (rule others_then_entitled [OF m ent])
      obtain upload err where up: "upload_check response = (upload, err)" by (cases "upload_check response")
      have onled: "abs_files (ledger_of (sv_world s')) (certId c) \<noteq> None" if upload
      proof -
        from up that obtain payload where "response = Inr payload" "payload \<noteq> []"
          using upload_check_True [of response err] by auto
        then show ?thesis
          using query_file [of "certId c" "sv_world s" payload] q l
          by (cases "Query fab ''getDownloadFile'' [certId c] (sv_world s)") (auto split: option.splits)
      qed
      show "plays ledger_of ap evs i
          (case upload_check response of
             (upload, err) \<Rightarrow>
               (let certificate = c\<lparr>hasUpload := upload\<rparr>
                in if isOpen certificate \<and> \<not> hasUpload certificate then k (Ret (None, err, 400))
                   else call_steps
                     (Execute fab (''postCertificateEvent'' @ certId certificate) ''postCertificate''
                        [marshal_cert certificate]) k
                     (\<lambda>data. k (Ret (case data of Inl e \<Rightarrow> (None, Some e, 501) | Inr txid \<Rightarrow> (Some txid, None, 200)))))) ?m"
      proof (cases "isOpen c \<and> \<not> upload")
        case True
        with up k [OF ent'] show ?thesis by simp
      next
        case False
        have "service_call (ledger_of (sv_world s2)) [''postCertificate'', marshal_cert (c\<lparr>hasUpload := upload\<rparr>)]"
          if "others ledger_of i ?m (past2, s2)" for past2 s2
        proof -
          have "files_kept (ledger_of (sv_world s')) (ledger_of (sv_world s2))" using that by (simp add: others_def)
          moreover have "cert_ok (c\<lparr>hasUpload := upload\<rparr>)" using unmarshal_cert_ok [of body] u None by (simp add: cert_ok_def)
          ultimately show ?thesis
            using False onled unfolding service_call_def files_kept_def
            by (intro disjI1 exI [of _ "c\<lparr>hasUpload := upload\<rparr>"]) auto
        qed
        with up False show ?thesis
          by (auto simp: Let_def intro!: plays_execute k ent' others_then_entitled [OF _ ent', simplified])
      qed
    qed
  qed
qed

end

lemma plays_call_entitled:
  assumes "\<And>w. led (snd (g w)) = led w" "entitled ap evs i (fst m)"
    and "\<And>r m. entitled ap evs i (fst m) \<Longrightarrow> plays led ap evs i (k r) m"
    and "\<And>a m. entitled ap evs i (fst m) \<Longrightarrow> plays led ap evs i (h a) m"
  shows "plays led ap evs i (call_steps g k h) m"
  by (rule plays_call) (rule assms(1), (rule assms(3,4), erule others_then_entitled, rule assms(2))+)

lemma plays_disk_entitled:
  assumes "entitled ap evs i (fst m)" "\<And>r m. entitled ap evs i (fst m) \<Longrightarrow> plays led ap evs i (k r) m"
  shows "plays led ap evs i (atomically (disk_step g) k) m"
  by (rule plays_disk) (rule assms(2), erule others_then_entitled, rule assms(1))

context ledger_client
begin

lemma plays_change_one:
  assumes "entitled ap evs i (fst m)"
    and k: "\<And>r m. entitled ap evs i (fst m) \<Longrightarrow> plays ledger_of ap evs i (k r) m"
  shows "plays ledger_of ap evs i (change_one_steps fab st k) m"
  unfolding change_one_steps_def Let_def
  by (rule plays_call_entitled [OF CertificateOut_keeps assms(1) k])
     (auto intro!: k plays_CertificateIn split: prod.split option.split outcome.split)

lemma plays_change_all:
  assumes "entitled ap evs i (fst m)"
    and "\<And>r m. entitled ap evs i (fst m) \<Longrightarrow> plays ledger_of ap evs i (k r) m"
  shows "plays ledger_of ap evs i (change_all_steps fab sts k) m"
  using assms
proof (induction sts arbitrary: m k)
  case (Cons st sts)
  show ?case
    unfolding change_all_steps.simps
    by (rule plays_change_one [OF Cons.prems(1)])
       (auto intro!: Cons.IH Cons.prems(2) split: outcome.split)
qed simp

lemma plays_ChangeStatus:
  assumes "entitled ap evs i (fst m)"
    and "\<And>r m. entitled ap evs i (fst m) \<Longrightarrow> plays ledger_of ap evs i (k r) m"
  shows "plays ledger_of ap evs i (ChangeStatus_steps fab body k) m"
  unfolding ChangeStatus_steps_def
  by (auto intro!: plays_change_all assms split: prod.split option.split outcome.split)

lemma plays_refresh:
  assumes "entitled ap evs i (fst m)"
    and k: "\<And>r m. entitled ap evs i (fst m) \<Longrightarrow> plays ledger_of ap evs i (k r) m"
  shows "plays ledger_of ap evs i (refresh_steps fab cid txid k) m"
  unfolding refresh_steps_def
  by (rule plays_call_entitled [OF CertificateOut_keeps assms(1) k])
     (auto intro!: k plays_CertificateIn split: prod.split option.split outcome.split)

lemma plays_upload_bytes:
  assumes ent: "entitled ap evs i (fst m)"
    and k: "\<And>r m. entitled ap evs i (fst m) \<Longrightarrow> plays ledger_of ap evs i (k r) m"
  shows "plays ledger_of ap evs i (upload_bytes_steps fab cid buf k) m"
proof (cases "is_pdf buf")
  case True
  have "plays ledger_of ap evs i (call_steps (Execute fab (''postUploadFileEvent'' @ cid) ''postUploadFile''
      [marshal_file \<lparr>fs_certId = cid, fs_certFile = Some buf, fs_fileName = ''''\<rparr>]) k
      (\<lambda>res. case res of Inl e \<Rightarrow> k (Ret (None, Some e, 501)) | Inr txid \<Rightarrow> refresh_steps fab cid txid k)) m"
    by (rule plays_execute [OF ent])
       (use True in \<open>auto simp: service_call_def file_record_def intro!: k plays_refresh others_then_entitled [OF _ ent, simplified] split: sum.split\<close>)
  with True show ?thesis by (simp add: upload_bytes_steps_def)
next
  case False
  with k [OF ent] show ?thesis by (simp add: upload_bytes_steps_def)
qed

lemma plays_UploadFile:
  assumes "entitled ap evs i (fst m)"
    and "\<And>r m. entitled ap evs i (fst m) \<Longrightarrow> plays ledger_of ap evs i (k r) m"
  shows "plays ledger_of ap evs i (UploadFile_steps os fab cid upload k) m"
  unfolding upload_steps_defs
  by (auto intro!: plays_disk_entitled plays_upload_bytes assms split: option.split sum.split)

text \<open>The operations that read go on from any moment.\<close>

lemma plays_DownloadFile:
  assumes "\<And>r m. plays ledger_of ap evs i (k r) m"
  shows "plays ledger_of ap evs i (DownloadFile_steps os fab param k) m"
  unfolding DownloadFile_steps_def
  by (rule plays_call [OF query_keeps assms]) (auto intro!: plays_disk assms split: sum.split prod.split option.split)

lemma plays_gather:
  assumes "\<And>r m. plays ledger_of ap evs i (k r) m"
  shows "plays ledger_of ap evs i (gather_steps fab q n bms b k) m"
proof (coinduction arbitrary: bms b m rule: obeys.coinduct)
  case obeys
  let ?g = "world_step (getNewBookmarks fab q n b) :: 'w server \<Rightarrow> _"
  have keeps: "prov (snd (?g s)) = prov s" "ledger_of (sv_world (snd (?g s))) = ledger_of (sv_world s)" for s
    using page_keeps [of q n b "sv_world s"] by (cases "getNewBookmarks fab q n b (sv_world s)"; simp add: world_step_def)+
  show ?case
    by (subst (2) gather_steps.code)
       (auto simp: sound_def mine_def keeps assms intro: password_given_append split: sum.split)
qed

lemma plays_finish:
  assumes "\<And>r m. plays ledger_of ap evs i (k r) m"
  shows "plays ledger_of ap evs i (finish_steps fab q n j bms k) m"
  unfolding finish_steps_def Let_def
  by (auto intro!: plays_call [OF page_keeps assms] assms split: prod.split option.split outcome.split)

lemma plays_list:
  assumes "\<And>r m. plays ledger_of ap evs i (k r) m"
  shows "plays ledger_of ap evs i (list_steps adjust head fab body login k) m"
  unfolding list_steps_def rich_query_steps_def
  by (auto intro!: plays_gather plays_finish assms split: prod.split option.split outcome.split sum.split)

end

section \<open>The handlers\<close>

lemma entitledI:
  "runs_under ap evs past i sid \<Longrightarrow> password_given ap evs past' sid \<Longrightarrow> past' = past @ zs \<Longrightarrow> entitled ap evs i past'"
  unfolding entitled_def runs_under_def by (blast intro: began_append)

lemma plays_isLogin:
  assumes "\<And>b cs m. plays led ap evs i (k b cs) m"
  shows "plays led ap evs i (isLogin_steps ap ex k) m"
  unfolding isLogin_steps_def
  by (rule plays_start, rule plays_get, assumption, rule assms)

text \<open>A login check with which a request begins lets only an entitled request pass.\<close>

lemma plays_isLogin_first:
  assumes first: "moments i (fst m) = []" "i < length evs" "evs ! i = Request meth path ex0"
    and sid: "\<And>s. session_of ap ex s = session_of ap ex0 s"
    and k: "\<And>b cs m. (b \<Longrightarrow> entitled ap evs i (fst m)) \<Longrightarrow> plays led ap evs i (k b cs) m"
  shows "plays led ap evs i (isLogin_steps ap ex k) m"
  unfolding isLogin_steps_def
proof (rule plays_start)
  fix h cs past s s'
  assume m: "others led i m (past, s)" and h: "handles h (session_of ap ex s) (past @ [(i, s)], s')"
  let ?sid = "session_of ap ex s"
  have "moments i past = []" using others_past [OF m] first(1) by auto
  then have under: "runs_under ap evs (past @ [(i, s)]) i ?sid"
    unfolding runs_under_def
    by (intro conjI exI [of _ meth] exI [of _ path] exI [of _ ex0] exI [of _ s] began_first)
       (simp_all add: first(2,3) sid)
  show "plays led ap evs i (get_steps ap h (\<lambda>u. k (case u of None \<Rightarrow> False | Some u \<Rightarrow> u \<noteq> '''') cs)) (past @ [(i, s)], s')"
  proof (rule plays_get [OF h])
    fix u past2 s2 s3
    assume m2: "others led i (past @ [(i, s)], s') (past2, s2)"
      and u: "u \<noteq> None \<and> u \<noteq> Some '''' \<Longrightarrow> password_given ap evs past2 ?sid"
    obtain zs where "past2 = (past @ [(i, s)]) @ zs" using others_past [OF m2] by auto
    then have "entitled ap evs i (past2 @ [(i, s2)])" if "u \<noteq> None \<and> u \<noteq> Some ''''"
      by (intro entitled_append entitledI [OF under u [OF that]])
    then show "plays led ap evs i (k (case u of None \<Rightarrow> False | Some u \<Rightarrow> u \<noteq> '''') cs) (past2 @ [(i, s2)], s3)"
      by (intro k) (simp split: option.splits)
  qed
qed

lemma plays_postLogin:
  assumes first: "moments i (fst m) = []" "i < length evs" "evs ! i = Request POST [''v1'', ''login''] ex0"
    and ex: "ex = routed params ex0"
    and k: "\<And>r m. plays led ap evs i (k r) m"
  shows "plays led ap evs i (postLogin_steps ap ex k) m"
  unfolding postLogin_steps_def
proof (rule plays_start)
  fix h cs past s s'
  assume m: "others led i m (past, s)" and h: "handles h (session_of ap ex s) (past @ [(i, s)], s')"
  have first': "moments i past = []" using others_past [OF m] first(1) by auto
  have "password_given ap evs ((past @ [(i, s)]) @ zs) (session_of ap ex s)" if "right_login ex0" for zs
    unfolding password_given_def
  proof (intro exI conjI)
    show "i < length evs" by (rule first(2))
    show "began ((past @ [(i, s)]) @ zs) i s" by (rule began_append [OF began_first [OF first']])
    show "login_event ap (evs ! i) s (session_of ap ex s)"
      using that by (simp add: login_event_def first(3) ex)
  qed
  moreover have "right_login ex0" if "ex_body ex = Inr b" "unmarshal_user b = (u, None)" "isRightUser u" for b u
    using that by (simp add: right_login_def ex)
  ultimately show "plays led ap evs i
      (case ex_body ex of
         Inl e \<Rightarrow> k (deal4xx ex cs zero_result (Some e) 400)
       | Inr b \<Rightarrow>
           (case unmarshal_user b of
              (user, Some e) \<Rightarrow> k (deal4xx ex cs zero_result (Some e) 400)
            | (user, None) \<Rightarrow>
                (if isRightUser user then
                   set_steps ap h (us_name user)
                     (k (encode_result ex 200 cs \<lparr>rs_ResultCode = 200, rs_Message = Message ''login in'', rs_Data = TextData ''''\<rparr>))
                 else k (deal4xx ex cs zero_result None 403)))) (past @ [(i, s)], s')"
    by (auto intro!: k plays_set [OF h] split: sum.split prod.split option.split)
qed

lemma plays_postLogout:
  assumes "\<And>r m. plays led ap evs i (k r) m"
  shows "plays led ap evs i (postLogout_steps ap ex k) m"
  unfolding postLogout_steps_def
  by (intro plays_start plays_delete plays_destroy plays_isLogin assms)

context ledger_client
begin

lemma plays_handler:
  assumes fab: "ap_fabric ap = fab"
    and first: "moments i (fst m) = []" "i < length evs" "evs ! i = Request meth path ex0"
    and route: "find_route buildRouter meth path = Some (t, params)"
    and k: "\<And>r m. plays ledger_of ap evs i (k r) m"
  shows "plays ledger_of ap evs i (handler_steps t ap (routed params ex0) k) m"
proof -
  let ?ex = "routed params ex0"
  have check: "plays ledger_of ap evs i (isLogin_steps ap ?ex k') m"
    if "\<And>cs m. entitled ap evs i (fst m) \<Longrightarrow> plays ledger_of ap evs i (k' True cs) m"
      "\<And>cs m. plays ledger_of ap evs i (k' False cs) m" for k'
  proof (rule plays_isLogin_first [OF first])
    fix b cs and m :: "'w moment"
    assume "b \<Longrightarrow> entitled ap evs i (fst m)"
    then show "plays ledger_of ap evs i (k' b cs) m" using that by (cases b) auto
  qed simp
  note business = plays_CertificateIn plays_ChangeStatus plays_UploadFile plays_DownloadFile plays_list
  show ?thesis
  proof (cases t)
    case Login
    with route have "meth = POST" "path = [''v1'', ''login'']" by (simp_all add: find_login)
    with first Login show ?thesis by (simp add: plays_postLogin [OF first(1,2) _ refl k])
  next
    case GetCertificate
    then show ?thesis
      unfolding GetCertificate handler_steps.simps getCertificate_steps_def replying_def fab
      by (intro plays_world CertificateOut_keeps) (auto intro!: k split: outcome.split)
  next
    case GetDownloadFile
    then show ?thesis
      unfolding GetDownloadFile handler_steps.simps getDownloadFile_steps_def fab
      by (auto intro!: plays_DownloadFile plays_disk k split: outcome.split)
  next
    case Logout
    then show ?thesis by (simp add: plays_postLogout k)
  qed (auto simp: getList_steps_def postCertificate_steps_def postUploadFile_steps_def postChangeStatus_steps_def
        replying_def fab intro!: check k business split: sum.split list.split outcome.split)
qed

lemma plays_event:
  assumes "ap_fabric ap = fab" "i < length evs"
  shows "plays ledger_of ap evs i (event_steps ap (evs ! i)) ([], s)"
proof (cases "evs ! i")
  case (Request meth path ex)
  then show ?thesis
    by (auto simp: event_steps_def serve_steps_def split: option.split
        intro!: obeys_Finish plays_handler [OF assms(1) _ assms(2) Request])
next
  case Collect
  then show ?thesis using plays_collect by (simp add: event_steps_def del: run_event.simps)
qed

lemma accepting_ok:
  assumes "ap_fabric ap = fab" "ledger_inv (ledger_of w)"
  shows "server.pool_ok ledger_of ap evs (accepting ap evs (started d w))"
proof (rule server.pool_okI)
  have "pr_heap (prov (started d w)) = []"
    by (simp add: started_def initial_manager_def empty_provider_def)
  then show "sound ledger_of ap evs (moment (accepting ap evs (started d w)))"
    using assms(2) by (simp add: sound_def moment_def accepting_def)
  show "plays ledger_of ap evs i (pl_threads (accepting ap evs (started d w)) ! i) (moment (accepting ap evs (started d w)))"
    if "i < length (pl_threads (accepting ap evs (started d w)))" for i
    using that plays_event [OF assms(1)] by (simp add: accepting_def moment_def)
qed

end

section \<open>Runs without interruption\<close>

lemma reaches_trans: "reaches b c \<Longrightarrow> reaches a b \<Longrightarrow> reaches a c"
  by (induction rule: reaches.induct) (auto intro: reaches_step)

lemma reaches_atomically:
  assumes "i < length (pl_threads c)" "pl_threads c ! i = atomically f k" "f (pl_server c) = (r, s)"
  obtains c' where "reaches c c'" "pl_threads c' = (pl_threads c)[i := k r]" "pl_server c' = s"
proof
  let ?c = "\<lparr>pl_threads = (pl_threads c)[i := k r], pl_past = pl_past c @ [(i, pl_server c)], pl_server = s\<rparr>"
  have "moves i c ?c"
    using moves.intros [OF assms(1) assms(2) [unfolded atomically_def]] assms(3) by simp
  then show "reaches c ?c" by (rule reaches_step [OF reaches_refl])
qed simp_all

lemma reaches_run:
  assumes "run_steps p s = Some (a, s')" "i < length (pl_threads c)" "pl_threads c ! i = p" "pl_server c = s"
  obtains c' where "reaches c c'" "pl_threads c' = (pl_threads c)[i := Finish a]" "pl_server c' = s'"
proof -
  have "\<forall>c. i < length (pl_threads c) \<longrightarrow> pl_threads c ! i = p \<longrightarrow> pl_server c = s \<longrightarrow>
      (\<exists>c'. reaches c c' \<and> pl_threads c' = (pl_threads c)[i := Finish (fst (a, s'))] \<and> pl_server c' = snd (a, s'))"
  proof (rule run_steps.raw_induct [OF _ assms(1), where P = "\<lambda>p s y. \<forall>c. i < length (pl_threads c) \<longrightarrow>
        pl_threads c ! i = p \<longrightarrow> pl_server c = s \<longrightarrow>
        (\<exists>c'. reaches c c' \<and> pl_threads c' = (pl_threads c)[i := Finish (fst y)] \<and> pl_server c' = snd y)"],
      intro allI impI)
    fix g :: "'a thread \<Rightarrow> 'a server \<Rightarrow> (served option \<times> 'a server) option" and p s y and c :: "'a pool"
    assume step: "\<And>p s y. g p s = Some y \<Longrightarrow> \<forall>c. i < length (pl_threads c) \<longrightarrow> pl_threads c ! i = p \<longrightarrow>
        pl_server c = s \<longrightarrow>
        (\<exists>c'. reaches c c' \<and> pl_threads c' = (pl_threads c)[i := Finish (fst y)] \<and> pl_server c' = snd y)"
      and run: "(case p of Finish a \<Rightarrow> Some (a, s) | Step u k \<Rightarrow> g (k s) (u s)) = Some y"
      and c: "i < length (pl_threads c)" "pl_threads c ! i = p" "pl_server c = s"
    show "\<exists>c'. reaches c c' \<and> pl_threads c' = (pl_threads c)[i := Finish (fst y)] \<and> pl_server c' = snd y"
    proof (cases p)
      case (Finish a)
      with run c show ?thesis
        by (intro exI [of _ c]) (auto simp: reaches_refl, metis list_update_id)
    next
      case (Step u k)
      let ?c = "\<lparr>pl_threads = (pl_threads c)[i := k s], pl_past = pl_past c @ [(i, s)], pl_server = u s\<rparr>"
      have "moves i c ?c" using moves.intros [of i c u k] c Step by simp
      moreover obtain c' where "reaches ?c c'" "pl_threads c' = (pl_threads ?c)[i := Finish (fst y)]" "pl_server c' = snd y"
        using step [of "k s" "u s" y, THEN spec, of ?c] run Step c(1) by auto
      ultimately show ?thesis
        using reaches_trans [OF _ reaches_step [OF reaches_refl]] by (intro exI [of _ c']) auto
    qed
  qed
  with assms(2-4) that show thesis by auto
qed

text \<open>A history of requests, one after the other, is one of the interleavings.\<close>

lemma sequential_reaches:
  assumes "\<And>k meth path ex. k < length evs \<Longrightarrow> evs ! k = Request meth path ex \<Longrightarrow>
      fst (serve meth path ap ex (run_events ap (take k evs) s)) \<noteq> Hangs"
    and "n \<le> length evs"
  shows "\<exists>c. reaches (accepting ap evs s) c \<and> length (pl_threads c) = length evs \<and> pl_server c = run_events ap (take n evs) s
    \<and> (\<forall>k < length evs. if k < n then \<exists>a. pl_threads c ! k = Finish a else pl_threads c ! k = event_steps ap (evs ! k))"
  using assms(2)
proof (induction n)
  case 0
  show ?case by (intro exI [of _ "accepting ap evs s"]) (simp add: reaches_refl accepting_def)
next
  case (Suc n)
  then obtain c where c: "reaches (accepting ap evs s) c" "length (pl_threads c) = length evs"
    "pl_server c = run_events ap (take n evs) s"
    "\<And>k. k < length evs \<Longrightarrow> if k < n then \<exists>a. pl_threads c ! k = Finish a else pl_threads c ! k = event_steps ap (evs ! k)"
    by auto
  have n: "n < length evs" "take (Suc n) evs = take n evs @ [evs ! n]" using Suc.prems by (simp_all add: take_Suc_conv_app_nth)
  obtain a where "run_steps (event_steps ap (evs ! n)) (pl_server c) = Some (a, run_event ap (evs ! n) (pl_server c))"
  proof (cases "evs ! n")
    case (Request meth path ex)
    with assms(1) [OF n(1) Request] show thesis by (intro that) (simp add: run_event_steps(1) c(3))
  next
    case Collect
    show thesis by (rule that) (simp add: Collect run_event_steps(2) del: run_event.simps)
  qed
  then obtain c' where c': "reaches c c'" "pl_threads c' = (pl_threads c)[n := Finish a]"
    "pl_server c' = run_event ap (evs ! n) (pl_server c)"
    by (rule reaches_run) (use n(1) c(2) c(4) [OF n(1)] in auto)
  show ?case
  proof (intro exI [of _ c'] conjI allI impI)
    show "reaches (accepting ap evs s) c'" by (rule reaches_trans [OF c'(1) c(1)])
    show "length (pl_threads c') = length evs" by (simp add: c'(2) c(2))
    show "pl_server c' = run_events ap (take (Suc n) evs) s" by (simp add: c'(3) c(3) n(2))
    show "if k < Suc n then \<exists>a. pl_threads c' ! k = Finish a else pl_threads c' ! k = event_steps ap (evs ! k)"
      if "k < length evs" for k
      using c(4) [OF that] that by (auto simp: c'(2) c(2) nth_list_update split: if_splits)
  qed
qed

end
