(* ===== verification/Sample.thy ===== *)
theory Sample
  imports Service
begin

text \<open>
  Requests on a network that works, and a sample service on which the properties of the whole
  server are applied: its accounts, a request to log in and one to post a certificate.
\<close>

section \<open>On a network that works\<close>

text \<open>Posting and asking for a certificate on a network that works.\<close>

lemma admitted_post:
  assumes "ap_fabric ap = connected env" "session_ok (prov s)" "admitted ex s" "ex_body ex = Inr b" "ex_write ex = None"
    and "CertificateIn (connected env) b (sv_world s) = (Ret (Some txid, None, 200), n')"
  shows "\<exists>rp. fst (serve POST [''v1'', ''certificate''] ap ex s) = Answer rp \<and> rp_status rp = 200
    \<and> sv_world (snd (serve POST [''v1'', ''certificate''] ap ex s)) = n'"
proof -
  obtain b' cs s2 where l: "isLogin ap (routed Map.empty ex) s = (b', cs, s2)"
    by (cases "isLogin ap (routed Map.empty ex) s") auto
  have "b'" "sv_world s2 = sv_world s" using isLogin_law(2,5) [OF assms(2) l] assms(3) by simp_all
  moreover have "find_route buildRouter POST [''v1'', ''certificate''] = Some (PostCertificate, Map.empty)"
    by (simp add: buildRouter_def)
  ultimately show ?thesis
    using assms(1,4-6) l by (simp add: serve_routed postCertificate_def call_world_def encode_result_def)
qed

lemma healthy_get:
  assumes "ap_fabric ap = connected env" "healthy env" "id_ok i" "i \<noteq> []" "ledger_ok (net_ledger (sv_world s))"
    and "abs_certs (net_ledger (sv_world s)) i = Some (c\<lparr>updateDate := format_prc t\<rparr>)" "ex_write ex = None"
  shows "\<exists>rp. fst (serve GET [''v1'', ''certificate'', i] ap ex s) = Answer rp \<and> rp_status rp = 200
    \<and> rp_body rp = ResultBody \<lparr>rs_ResultCode = 200, rs_Message = Message ''OK'',
         rs_Data = CertData (c\<lparr>updateDate := format_date t\<rparr>)\<rparr>"
proof -
  have "find_route buildRouter GET [''v1'', ''certificate'', i] = Some (GetCertificate, [''certId'' \<mapsto> i])"
    using assms(4) by (simp add: buildRouter_def)
  then show ?thesis
    using healthy_CertificateOut [OF assms(2,3,5,6)] assms(1,7)
    by (simp add: serve_routed getCertificate_def call_world_def encode_result_def take_format_prc)
qed

section \<open>A sample service\<close>

definition sample_app :: "environment \<Rightarrow> network app" where
  "sample_app env = \<lparr>ap_fabric = connected env,
     ap_os = \<lparr>os_fault = \<lambda>_. None, os_reads = \<lambda>_ n. n\<rparr>,
     ap_now = \<lambda>t. 1546300800 + int t, ap_random = \<lambda>_. Some (replicate 32 (CHR ''r''))\<rparr>"

definition fresh_disk :: disk where
  "fresh_disk = \<lparr>d_files = [], d_dirs = [''tempUploadFiles''], d_tick = 0\<rparr>"

definition sample_sid :: string where
  "sample_sid = sessionId (Some (replicate 32 (CHR ''r'')))"

definition sample_exchange :: "string option \<Rightarrow> string \<Rightarrow> exchange" where
  "sample_exchange cookie b = \<lparr>ex_cookie = cookie, ex_body = Inr b, ex_params = Map.empty,
     ex_form = Inl (ErrText ''request Content-Type isn't multipart/form-data''), ex_headers = [], ex_write = None\<rparr>"

definition login_body :: string where
  "login_body = ''{\"name\":\"adminuser1\",\"password\":\"XSJXSvdHN9\"}''"

definition login_request :: event where
  "login_request = Request POST [''v1'', ''login''] (sample_exchange None login_body)"

lemma sample_app_fabric [simp]: "ap_fabric (sample_app env) = connected env"
  by (simp add: sample_app_def)

lemma sample_exchange_simps [simp]:
  "ex_cookie (sample_exchange cookie b) = cookie" "ex_body (sample_exchange cookie b) = Inr b"
  "ex_write (sample_exchange cookie b) = None"
  by (simp_all add: sample_exchange_def)

lemma sample_login: "right_login (sample_exchange cookie login_body)"
proof -
  have "unmarshal_user login_body = (\<lparr>us_name = ''adminuser1'', us_password = ''XSJXSvdHN9''\<rparr>, None)"
    by code_simp
  then show ?thesis by (simp add: right_login_def isRightUser_def)
qed

lemma sample_logged_in:
  "logged_in (run_event (sample_app env) login_request (started d w)) sample_sid"
  "sv_world (run_event (sample_app env) login_request (started d w)) = w"
proof -
  have "find_route buildRouter POST [''v1'', ''login''] = Some (Login, Map.empty)"
    by (simp add: find_login)
  then have "run_event (sample_app env) login_request (started d w)
      = snd (postLogin (sample_app env) (routed Map.empty (sample_exchange None login_body)) (started d w))"
    by (simp add: login_request_def serve_routed)
  moreover have "session_of (sample_app env) (sample_exchange None login_body) (started d w) = sample_sid"
    by (simp add: session_of_def has_cookie_def sample_app_def sample_sid_def)
  ultimately show "logged_in (run_event (sample_app env) login_request (started d w)) sample_sid"
    "sv_world (run_event (sample_app env) login_request (started d w)) = w"
    using postLogin_sessions(2) [of "started d w" "sample_app env" "routed Map.empty (sample_exchange None login_body)" sample_sid]
      net.postLogin_world [of "started d w" "sample_app env" "routed Map.empty (sample_exchange None login_body)"]
      sample_login [of None] by simp_all
qed

definition post_request :: event where
  "post_request = Request POST [''v1'', ''certificate''] (sample_exchange (Some (query_escape sample_sid)) (marshal_cert sample_cert))"

lemma sample_cookie: "unescaped (query_escape sample_sid) = sample_sid" "query_escape sample_sid \<noteq> ''''"
  by (simp_all add: unescaped_def sample_sid_def sessionId_def)

text \<open>A ledger with an open certificate and its file.\<close>

definition filed_ledger :: ledger where
  "filed_ledger = put (cert_key ''C1'') (marshal_cert open_cert) (put (file_key ''C1'') (marshal_file (file_record ''C1'' ''%PDF-'')) [])"

lemma filed_ledger_inv: "ledger_inv filed_ledger"
proof -
  let ?l = "put (file_key ''C1'') (marshal_file (file_record ''C1'' ''%PDF-'')) []"
  have id: "id_ok ''C1''" by (rule plain_id_ok) (simp add: unreserved_def is_digit_def in_range_def)
  have i: "certId open_cert = ''C1''" by (simp add: open_cert_def sample_cert_def)
  have "app_ok []" using ledger_inv_Nil by (simp add: ledger_inv_def)
  then have f: "app_ok ?l" by (rule app_ok_put_file) (rule file_entry_marshalled; simp add: id)
  have c: "cert_entry (cert_key ''C1'') (marshal_cert open_cert)"
    using open_ledger_service by (auto simp: service_ledger_def open_ledger_def service_file_def)
  have "open_ok filed_ledger"
    unfolding filed_ledger_def
    by (rule open_ok_put_cert [of ?l open_cert, unfolded i])
       (use f open_cert_ok in \<open>simp_all add: app_ok_def abs_files_def\<close>, simp add: open_cert_def)
  moreover have "ledger_ok filed_ledger"
    using f c unfolding filed_ledger_def app_ok_def by (intro ledger_ok_put [of ?l]) simp_all
  moreover have "service_ledger filed_ledger"
    unfolding filed_ledger_def
    by (intro service_ledger_put) (use c in \<open>auto simp: service_ledger_def service_file_def\<close>)
  ultimately show ?thesis by (simp add: ledger_inv_def app_ok_def)
qed

text \<open>The public list shows the open certificate.\<close>

lemma filed_ledger_certs: "stored_certs filed_ledger = [open_cert]"
proof -
  have "certId open_cert = ''C1''" by (simp add: open_cert_def sample_cert_def)
  then show ?thesis by (simp add: stored_certs_def filed_ledger_def cert_roundtrip open_cert_ok)
qed

lemma filed_list_answer:
  "\<exists>w'. OpenListRichQuery (connected (couch_env (=) (\<lambda>_. 0))) list_body l (sample_net filed_ledger)
     = Some (list_answer [shorten open_cert] list_conditions, w')"
proof -
  have pg: "paging_ok list_conditions (net_ledger (sample_net filed_ledger))"
    using list_conditions_ok(2) by (simp add: paging_ok_def fits_def filed_ledger_def)
  have sl: "service_ledger (net_ledger (sample_net filed_ledger))"
    using filed_ledger_inv by (simp add: ledger_inv_def)
  show ?thesis
    using open_list_result [OF list_body list_conditions_ok(1) sl pg, of "(=)" "\<lambda>_. 0" l]
    by (auto simp: filed_ledger_certs open_cert_listed right_list_def)
qed

lemma shown_open_cert: "shown_page (nat (qc_pageSize list_conditions)) [shorten open_cert]
    (shown_index (nat (qc_pageSize list_conditions)) 1 (qc_pageIndex list_conditions)) = [shorten open_cert]"
  by (simp add: shown_page_def shown_index_def pages_def list_conditions_def zero_conditions_def)

lemma filed_listed:
  "shorten open_cert \<in> set (answered (OpenListRichQuery (connected (couch_env (=) (\<lambda>_. 0))) list_body l (sample_net filed_ledger)))"
  using filed_list_answer [of l] shown_open_cert by (auto simp: answered_list_answer)

end
