(* ===== verification/Overlaps.thy ===== *)
theory Overlaps
  imports Interleaving Sample
begin

text \<open>
  The properties of overlapping requests. What holds for every interleaving: the ledger keeps its
  invariant, and only a request that runs under a session in which a right password was given
  changes it. What does not: a status change undoes a post that comes between its two calls, and a
  request that has passed the login check writes after the logout. Both are shown on a network on
  which everything works.
\<close>

section \<open>Following one request\<close>

text \<open>From one pool to a later one with the same ledger, disk and logins.\<close>

definition passed :: "network pool \<Rightarrow> network pool \<Rightarrow> bool" where
  "passed c c' \<longleftrightarrow> reaches c c' \<and> session_ok (prov (pl_server c'))
     \<and> sv_world (pl_server c') = sv_world (pl_server c) \<and> sv_disk (pl_server c') = sv_disk (pl_server c)
     \<and> (\<forall>ex. admitted ex (pl_server c') = admitted ex (pl_server c))"

lemma passedD:
  assumes "passed c c'"
  shows "reaches c c'" "session_ok (prov (pl_server c'))" "sv_world (pl_server c') = sv_world (pl_server c)"
    "sv_disk (pl_server c') = sv_disk (pl_server c)" "admitted ex (pl_server c') = admitted ex (pl_server c)"
  using assms by (simp_all add: passed_def)

lemma passes_login:
  assumes "i < length (pl_threads c)" "pl_threads c ! i = isLogin_steps ap ex k"
    and "session_ok (prov (pl_server c))" "admitted ex (pl_server c)"
  obtains cs c' where "passed c c'" "pl_threads c' = (pl_threads c)[i := k True cs]"
proof -
  let ?s = "pl_server c"
  obtain h cs s1 where st: "start_session ap ex ?s = (h, cs, s1)" by (cases "start_session ap ex ?s") auto
  obtain u p where g: "store_Get (ap_now ap (sv_tick s1)) h ''username'' (prov s1) = (u, p)" by force
  let ?b = "case u of None \<Rightarrow> False | Some u \<Rightarrow> u \<noteq> ''''"
  have login: "isLogin ap ex ?s = (?b, cs, on_provider (\<lambda>_. p) s1)" by (simp add: isLogin_def st g)
  note law = isLogin_law [OF assms(3) login]
  obtain c1 where c1: "reaches c c1" "pl_server c1 = s1"
    "pl_threads c1 = (pl_threads c)[i := get_steps ap h (\<lambda>u. k (case u of None \<Rightarrow> False | Some u \<Rightarrow> u \<noteq> '''') cs)]"
    by (rule reaches_atomically [OF assms(1) assms(2) [unfolded isLogin_steps_def start_steps_def]])
       (auto simp: st)
  obtain c2 where c2: "reaches c1 c2" "pl_server c2 = on_provider (\<lambda>_. p) s1" "pl_threads c2 = (pl_threads c1)[i := k ?b cs]"
  proof (rule reaches_atomically [of i c1])
    show "i < length (pl_threads c1)" by (simp add: c1(3) assms(1))
    show "pl_threads c1 ! i = atomically (\<lambda>s. case store_Get (ap_now ap (sv_tick s)) h ''username'' (prov s) of
        (u, p) \<Rightarrow> (u, on_provider (\<lambda>_. p) s)) (\<lambda>u. k (case u of None \<Rightarrow> False | Some u \<Rightarrow> u \<noteq> '''') cs)"
      by (simp add: c1(3) assms(1) get_steps_def)
    show "(case store_Get (ap_now ap (sv_tick (pl_server c1))) h ''username'' (prov (pl_server c1)) of
        (u, p) \<Rightarrow> (u, on_provider (\<lambda>_. p) (pl_server c1))) = (u, on_provider (\<lambda>_. p) s1)"
      by (simp add: c1(2) g)
  qed
  show thesis
  proof (rule that [of c2 cs])
    have "?b" using law(5) assms(4) by simp
    then show "pl_threads c2 = (pl_threads c)[i := k True cs]" by (simp add: c1(3) c2(3))
    have "logged_in (pl_server c2) sid = logged_in ?s sid" for sid
      using law(4) [of sid] assms(4) by (simp add: c2(2) admitted_def)
    then show "passed c c2"
      using law(1-3) reaches_trans [OF c2(1) c1(1)] by (simp add: passed_def c2(2) admitted_def)
  qed
qed

text \<open>
  The requests that write, up to where they call the business code. The reply to a result without
  an error has its status.
\<close>

definition sends_status :: "('v reply \<Rightarrow> served) \<Rightarrow> bool" where
  "sends_status reply \<longleftrightarrow> (\<forall>data code. \<exists>rp. reply (data, None, code) = Answer rp \<and> rp_status rp = code)"

lemma sends_statusE:
  assumes "sends_status reply"
  obtains rp where "reply (data, None, code) = Answer rp" "rp_status rp = code"
  using assms by (auto simp: sends_status_def)

lemma event_program:
  "find_route buildRouter meth path = Some (t, params) \<Longrightarrow>
     event_steps ap (Request meth path ex) = handler_steps t ap (routed params ex) (\<lambda>r. Finish (Some r))"
  by (simp add: event_steps_def serve_steps_def)

lemma session_routes:
  "find_route buildRouter POST [''v1'', ''certificate''] = Some (PostCertificate, Map.empty)"
  "find_route buildRouter POST [''v1'', ''changeStatus''] = Some (PostChangeStatus, Map.empty)"
  "find_route buildRouter POST [''v1'', ''uploadFile''] = Some (PostUploadFile, Map.empty)"
  "find_route buildRouter POST [''v1'', ''logout''] = Some (Logout, Map.empty)"
  by (simp_all add: buildRouter_def)

lemma post_admitted:
  assumes "i < length (pl_threads c)" "pl_threads c ! i = event_steps ap (Request POST [''v1'', ''certificate''] ex)"
    and "session_ok (prov (pl_server c))" "admitted ex (pl_server c)" "ex_body ex = Inr b" "ex_write ex = None"
  obtains reply c' where "passed c c'" "sends_status reply"
    "pl_threads c' = (pl_threads c)[i := CertificateIn_steps (ap_fabric ap) b (replying reply (\<lambda>r. Finish (Some r)))]"
  by (rule passes_login [OF assms(1) assms(2) [unfolded event_program [OF session_routes(1)] handler_steps.simps postCertificate_steps_def]])
     (use assms(3-6) in \<open>auto simp: encode_result_def sends_status_def intro!: that\<close>)

lemma change_admitted:
  assumes "i < length (pl_threads c)" "pl_threads c ! i = event_steps ap (Request POST [''v1'', ''changeStatus''] ex)"
    and "session_ok (prov (pl_server c))" "admitted ex (pl_server c)" "ex_body ex = Inr b" "ex_write ex = None"
  obtains reply c' where "passed c c'" "sends_status reply"
    "pl_threads c' = (pl_threads c)[i := ChangeStatus_steps (ap_fabric ap) b (replying reply (\<lambda>r. Finish (Some r)))]"
  by (rule passes_login [OF assms(1) assms(2) [unfolded event_program [OF session_routes(2)] handler_steps.simps postChangeStatus_steps_def]])
     (use assms(3-6) in \<open>auto simp: encode_result_def sends_status_def intro!: that\<close>)

lemma upload_admitted:
  assumes "i < length (pl_threads c)" "pl_threads c ! i = event_steps ap (Request POST [''v1'', ''uploadFile''] ex)"
    and "session_ok (prov (pl_server c))" "admitted ex (pl_server c)"
    and "ex_form ex = Inr fm" "fm_certFile fm = Inr up" "fm_certId fm = name # names" "ex_write ex = None"
  obtains reply c' where "passed c c'" "sends_status reply"
    "pl_threads c' = (pl_threads c)[i := UploadFile_steps (ap_os ap) (ap_fabric ap) name up (replying reply (\<lambda>r. Finish (Some r)))]"
  by (rule passes_login [OF assms(1) assms(2) [unfolded event_program [OF session_routes(3)] handler_steps.simps postUploadFile_steps_def]])
     (use assms(3-8) in \<open>auto simp: encode_result_def sends_status_def intro!: that\<close>)

text \<open>Once past its check a post of a draft goes through, whatever happened meanwhile.\<close>

lemma post_goes_through:
  assumes "i < length (pl_threads c)" "pl_threads c ! i = CertificateIn_steps (connected env) b k"
    and "healthy env" "unmarshal_cert b = (x, None)" "plain_text (certId x)" "\<not> isOpen x"
    and k: "\<And>txid. k (Ret (Some txid, None, 200)) = Finish (g txid)"
  obtains c' u t txid where "reaches c c'" "pl_threads c' = (pl_threads c)[i := Finish (g txid)]"
    "abs_certs (net_ledger (sv_world (pl_server c'))) (certId x) = Some (x\<lparr>hasUpload := u, updateDate := format_prc t\<rparr>)"
proof -
  let ?w = "sv_world (pl_server c)"
  obtain txid n where run: "CertificateIn (connected env) b ?w = (Ret (Some txid, None, 200), n)"
    using healthy_CertificateIn [OF assms(3-5), of ?w] assms(6) by auto
  have "run_steps (CertificateIn_steps (connected env) b k) (pl_server c) = Some (g txid, (pl_server c)\<lparr>sv_world := n\<rparr>)"
    by (simp add: run_CertificateIn run k)
  from reaches_run [OF this assms(1,2) refl] obtain c' where c': "reaches c c'" "pl_threads c' = (pl_threads c)[i := Finish (g txid)]"
    "pl_server c' = (pl_server c)\<lparr>sv_world := n\<rparr>" by blast
  obtain u t where "abs_certs (net_ledger n) (certId x) = Some (x\<lparr>hasUpload := u, updateDate := format_prc t\<rparr>)"
    using certificate_posted [OF assms(4) run] by blast
  with c' that show thesis by simp
qed

text \<open>A status change that has read the certificate goes on to post what it read.\<close>

lemma change_reads:
  assumes "i < length (pl_threads c)"
    and "pl_threads c ! i = ChangeStatus_steps fab b (replying reply (\<lambda>r. Finish (Some r)))"
    and "unmarshal_statuses b = (Some [st], None)"
    and "CertificateOut fab [''certId'' \<mapsto> st_certId st] (sv_world (pl_server c)) = (Ret (Some x, None, code), n)"
  obtains k c' where "reaches c c'" "pl_server c' = (pl_server c)\<lparr>sv_world := n\<rparr>"
    "pl_threads c' = (pl_threads c)[i := CertificateIn_steps fab
       (marshal_cert (x\<lparr>isDeleted := st_isDeleted st, isOpen := st_isOpen st, isCompleted := st_isCompleted st\<rparr>)) k]"
    "\<And>txid. k (Ret (Some txid, None, 200)) = Finish (Some (reply (Some (Some [st\<lparr>st_isChangedOnChain := True\<rparr>]), None, 200)))"
proof -
  note step = assms(2) [unfolded ChangeStatus_steps_def assms(3) prod.case option.case change_all_steps.simps
      change_one_steps_def call_steps_def]
  have read: "world_step (CertificateOut fab [''certId'' \<mapsto> st_certId st]) (pl_server c)
      = (Ret (Some x, None, code), (pl_server c)\<lparr>sv_world := n\<rparr>)"
    by (simp add: world_step_def assms(4))
  show thesis
  proof (rule reaches_atomically [OF assms(1) step read], goal_cases)
    case (1 c')
    show ?case
      by (rule that [OF 1(1,3) 1(2) [unfolded outcome.case prod.case option.case Let_def]])
         (simp add: replying_def)
  qed
qed

text \<open>A certificate as the ledger holds it, with its date cut to the day.\<close>

lemma stored_cert_short:
  assumes "ledger_ok l" "abs_certs l i = Some c"
  shows "cert_ok (c\<lparr>updateDate := take 10 (updateDate c)\<rparr>)" "certId c = i"
proof -
  obtain v where "map_of l (cert_key i) = Some v" using assms(2) by (auto simp: abs_certs_def)
  from stored_cert [OF assms(1) this] assms(2) obtain t where c: "cert_ok c" "certId c = i" "updateDate c = format_prc t"
    by (metis option.inject)
  moreover have "utf8_valid (format_date t)"
    using format_prc_ascii [of t] utf8_valid_asciis by (simp add: format_prc_def)
  ultimately show "cert_ok (c\<lparr>updateDate := take 10 (updateDate c)\<rparr>)" "certId c = i"
    by (simp_all add: cert_ok_def take_format_prc)
qed

lemma reaches_all:
  assumes "reaches a b" "reaches b c" "reaches c d" "reaches d e" "reaches e f"
  shows "reaches a f"
  by (rule reaches_trans [OF assms(5) reaches_trans [OF assms(4) reaches_trans [OF assms(3) reaches_trans [OF assms(2,1)]]]])

section \<open>Properties\<close>

text \<open>
  C3: The ledger stays sound however requests overlap. With any number of requests and collector
  runs in progress at once, each step of any of them in any order, on a network that may fail
  any call, the invariant of the service holds at every moment: every open certificate has its
  file, although the check for the file and the post are two calls; and so does the invariant of
  the session provider.
\<close>

theorem overlapping_requests_keep_ledger:
  assumes "ap_fabric ap = connected env" "ledger_inv (net_ledger w)"
    and "reaches (accepting ap evs (started d w)) c"
  shows "ledger_inv (net_ledger (sv_world (pl_server c))) \<and> session_ok (prov (pl_server c))"
proof -
  have "server.pool_ok net_ledger ap evs c"
    by (rule server.reaches_ok [OF assms(3) net.accepting_ok [OF assms(1,2)]])
  then show ?thesis by (simp add: server.pool_ok_def sound_def moment_def)
qed

text \<open>Logging in and posting at the same time; the schedule lets the post start first.\<close>

definition sample_pool :: "network pool" where
  "sample_pool = accepting (sample_app sample_env) [post_request, login_request] (started fresh_disk (sample_net []))"

lemma overlapping_requests_keep_ledger_witness:
  "ledger_inv (net_ledger (sv_world (pl_server (schedule [0, 1, 1, 0, 0, 0] sample_pool))))"
  unfolding sample_pool_def
  by (rule overlapping_requests_keep_ledger [OF sample_app_fabric _ reaches_schedule, THEN conjunct1]) simp

text \<open>
  C2: Overlapping requests do not get around the password. A step that changes the ledger, at any
  point of any interleaving, is one of a request that runs, from its first step, under a session
  identifier under which an earlier request to log in with a right password has begun.
\<close>

theorem overlapping_change_needs_password:
  assumes "ap_fabric ap = connected env" "ledger_inv (net_ledger w)"
    and "reaches (accepting ap evs (started d w)) c" "moves i c c'"
    and "net_ledger (sv_world (pl_server c')) \<noteq> net_ledger (sv_world (pl_server c))"
  shows "\<exists>sid. runs_under ap evs (pl_past c) i sid \<and> password_given ap evs (pl_past c) sid"
proof -
  have "server.pool_ok net_ledger ap evs c"
    by (rule server.reaches_ok [OF assms(3) net.accepting_ok [OF assms(1,2)]])
  from server.moves_ok(2) [OF assms(4) this] assms(5) show ?thesis
    by (simp add: mine_def moment_def entitled_def)
qed





text \<open>
  C32: A status change can undo a post. On a network on which everything works, a request to
  change the status of a certificate and one to post a new draft of it overlap so that both are
  answered with status 200 and the ledger ends with the old certificate under the new flags:
  \<open>ChangeStatus\<close> posts what it read before the other's post. Nothing of the new draft is left.
\<close>

theorem status_change_undoes_post:
  assumes env: "ap_fabric ap = connected env" "healthy env"
    and s: "session_ok (prov s)" "ledger_ok (net_ledger (sv_world s))" "abs_certs (net_ledger (sv_world s)) (st_certId st) = Some c"
    and ex1: "admitted ex1 s" "ex_body ex1 = Inr b1" "ex_write ex1 = None" "unmarshal_statuses b1 = (Some [st], None)"
    and ex2: "admitted ex2 s" "ex_body ex2 = Inr b2" "ex_write ex2 = None" "unmarshal_cert b2 = (c2, None)"
    and ids: "certId c2 = st_certId st" "plain_text (st_certId st)" "\<not> isOpen c2" "\<not> st_isOpen st"
  shows "\<exists>c' rp1 rp2 u t.
    reaches (accepting ap [Request POST [''v1'', ''changeStatus''] ex1, Request POST [''v1'', ''certificate''] ex2] s) c'
    \<and> pl_threads c' = [Finish (Some (Answer rp1)), Finish (Some (Answer rp2))] \<and> rp_status rp1 = 200 \<and> rp_status rp2 = 200
    \<and> abs_certs (net_ledger (sv_world (pl_server c'))) (st_certId st) =
        Some (c\<lparr>isDeleted := st_isDeleted st, isOpen := False, isCompleted := st_isCompleted st,
               hasUpload := u, updateDate := format_prc t\<rparr>)"
proof -
  let ?c0 = "accepting ap [Request POST [''v1'', ''changeStatus''] ex1, Request POST [''v1'', ''certificate''] ex2] s"
  let ?w = "sv_world s" and ?i = "st_certId st" and ?done = "Some (Some [st\<lparr>st_isChangedOnChain := True\<rparr>])"
  let ?old = "c\<lparr>updateDate := take 10 (updateDate c)\<rparr>"
  let ?new = "?old\<lparr>isDeleted := st_isDeleted st, isOpen := st_isOpen st, isCompleted := st_isCompleted st\<rparr>"
  have c: "cert_ok ?new" "certId c = ?i" using stored_cert_short [OF s(2,3)] by (simp_all add: cert_ok_def)
  have two: "length (pl_threads ?c0) = 2" "pl_server ?c0 = s" by (simp_all add: accepting_def)
  obtain reply1 c1 where c1: "passed ?c0 c1" "sends_status reply1"
    "pl_threads c1 = (pl_threads ?c0)[0 := ChangeStatus_steps (connected env) b1 (replying reply1 (\<lambda>r. Finish (Some r)))]"
    by (rule change_admitted [of 0 ?c0 ap ex1 b1]) (use s(1) ex1 env(1) in \<open>auto simp: accepting_def\<close>)
  have out: "CertificateOut (connected env) [''certId'' \<mapsto> ?i] ?w = (Ret (Some ?old, None, 200), ?w\<lparr>net_tick := net_tick ?w + 1\<rparr>)"
    by (rule healthy_CertificateOut [OF env(2) plain_id_ok [OF ids(2)] s(2,3)])
  obtain k c2' where c2': "reaches c1 c2'" "pl_server c2' = (pl_server c1)\<lparr>sv_world := ?w\<lparr>net_tick := net_tick ?w + 1\<rparr>\<rparr>"
    "pl_threads c2' = (pl_threads c1)[0 := CertificateIn_steps (connected env) (marshal_cert ?new) k]"
    "\<And>txid. k (Ret (Some txid, None, 200)) = Finish (Some (reply1 (?done, None, 200)))"
    by (rule change_reads [OF _ _ ex1(4), of 0 c1 "connected env" reply1]) (use c1(3) passedD(3) [OF c1(1)] two out in auto)
  obtain reply2 c3 where c3: "passed c2' c3" "sends_status reply2"
    "pl_threads c3 = (pl_threads c2')[1 := CertificateIn_steps (connected env) b2 (replying reply2 (\<lambda>r. Finish (Some r)))]"
    by (rule post_admitted [of 1 c2' ap ex2 b2])
       (use c1(3) c2'(2,3) passedD [OF c1(1)] ex2 env(1) in \<open>auto simp: accepting_def admitted_def logged_in_def\<close>)
  obtain c4 txid2 where c4: "reaches c3 c4" "pl_threads c4 = (pl_threads c3)[1 := Finish (Some (reply2 (Some txid2, None, 200)))]"
    by (rule post_goes_through [OF _ _ env(2) ex2(4), of 1 c3 "replying reply2 (\<lambda>r. Finish (Some r))"
          "\<lambda>txid. Some (reply2 (Some txid, None, 200))"])
       (use c1(3) c2'(3) c3(3) two ids in \<open>auto simp: replying_def\<close>)
  obtain c5 u t where c5: "reaches c4 c5" "pl_threads c5 = (pl_threads c4)[0 := Finish (Some (reply1 (?done, None, 200)))]"
    "abs_certs (net_ledger (sv_world (pl_server c5))) (certId ?new) = Some (?new\<lparr>hasUpload := u, updateDate := format_prc t\<rparr>)"
    by (rule post_goes_through [where i = 0 and c = c4 and k = k and env = env and g = "\<lambda>_. Some (reply1 (?done, None, 200))",
          OF _ _ env(2) cert_roundtrip [OF c(1)]])
       (use c1(3) c2'(3,4) c3(3) c4(2) two c(2) ids in auto)
  obtain rp1 where rp1: "reply1 (?done, None, 200) = Answer rp1" "rp_status rp1 = 200" by (rule sends_statusE [OF c1(2)])
  obtain rp2 where rp2: "reply2 (Some txid2, None, 200) = Answer rp2" "rp_status rp2 = 200" by (rule sends_statusE [OF c3(2)])
  note way = passedD(1) [OF c1(1)] c2'(1) passedD(1) [OF c3(1)] c4(1) c5(1)
  have "pl_threads c5 = [Finish (Some (Answer rp1)), Finish (Some (Answer rp2))]"
    using c1(3) c2'(3) c3(3) c4(2) c5(2) rp1(1) rp2(1) by (simp add: accepting_def)
  then show ?thesis
    using reaches_all [OF way] c5(3) rp1(2) rp2(2) ids(4) c(2)
    by (intro exI [of _ c5] exI [of _ rp1] exI [of _ rp2] exI [of _ u] exI [of _ t]) simp
qed

text \<open>
  C34: A request outlives its login. A request to post a draft that has passed its login check
  before a logout with the same cookie begins still posts after that logout has been answered with
  "logout success" and the session is logged in no more.
\<close>

theorem post_after_logout:
  assumes env: "ap_fabric ap = connected env" "healthy env" and s: "session_ok (prov s)"
    and ex: "admitted ex s" "ex_body ex = Inr b" "ex_write ex = None" "unmarshal_cert b = (x, None)"
      "plain_text (certId x)" "\<not> isOpen x"
    and out: "ex_cookie ex' = ex_cookie ex" "ex_write ex' = None"
  shows "\<exists>c c' rp u t.
    reaches (accepting ap [Request POST [''v1'', ''certificate''] ex, Request POST [''v1'', ''logout''] ex'] s) c
    \<and> pl_threads c ! 1 = Finish (Some (Answer rp))
    \<and> rp_body rp = ResultBody \<lparr>rs_ResultCode = 200, rs_Message = Message ''logout success'', rs_Data = NilData\<rparr>
    \<and> \<not> admitted ex (pl_server c) \<and> sv_world (pl_server c) = sv_world s
    \<and> reaches c c'
    \<and> abs_certs (net_ledger (sv_world (pl_server c'))) (certId x) = Some (x\<lparr>hasUpload := u, updateDate := format_prc t\<rparr>)"
proof -
  let ?c0 = "accepting ap [Request POST [''v1'', ''certificate''] ex, Request POST [''v1'', ''logout''] ex'] s"
  let ?ex' = "routed Map.empty ex'"
  obtain reply c1 where c1: "passed ?c0 c1"
    "pl_threads c1 = (pl_threads ?c0)[0 := CertificateIn_steps (connected env) b (replying reply (\<lambda>r. Finish (Some r)))]"
    by (rule post_admitted [of 0 ?c0 ap ex b]) (use s ex env(1) in \<open>auto simp: accepting_def\<close>)
  let ?out = "postLogout ap ?ex' (pl_server c1)"
  have cookie: "has_cookie ?ex'" using ex(1) out(1) by (simp add: admitted_def has_cookie_def)
  note law = postLogout_sessions [OF passedD(2) [OF c1(1)], where ap = ap and ex = ?ex']
  obtain rp where rp: "fst ?out = Answer rp"
    "rp_body rp = ResultBody \<lparr>rs_ResultCode = 200, rs_Message = Message ''logout success'', rs_Data = NilData\<rparr>"
    using law(5) [OF _ cookie] out(2) by (auto simp: zero_result_def)
  have "run_steps (event_steps ap (Request POST [''v1'', ''logout''] ex')) (pl_server c1) = Some (Some (Answer rp), snd ?out)"
    by (simp add: run_event_steps(1) serve_routed session_routes(4) rp(1))
  then obtain c2 where c2: "reaches c1 c2" "pl_threads c2 = (pl_threads c1)[1 := Finish (Some (Answer rp))]" "pl_server c2 = snd ?out"
    by (rule reaches_run [where i = 1]) (use c1(2) in \<open>auto simp: accepting_def\<close>)
  have gone: "\<not> admitted ex (pl_server c2)"
    using law(2) [of "unescaped (the (ex_cookie ex))"] cookie out(1) by (auto simp: c2(3) admitted_def session_of_def has_cookie_def)
  obtain c3 u t where c3: "reaches c2 c3"
    "abs_certs (net_ledger (sv_world (pl_server c3))) (certId x) = Some (x\<lparr>hasUpload := u, updateDate := format_prc t\<rparr>)"
    by (rule post_goes_through [where i = 0 and c = c2 and g = "\<lambda>txid. Some (reply (Some txid, None, 200))" and
          k = "replying reply (\<lambda>r. Finish (Some r))", OF _ _ env(2) ex(4,5,6)])
       (use c1(2) c2(2) in \<open>auto simp: replying_def accepting_def\<close>)
  have "pl_threads c2 ! 1 = Finish (Some (Answer rp))" "sv_world (pl_server c2) = sv_world s"
    using c1(2) passedD(3) [OF c1(1)] c2(2) law(3) by (simp_all add: c2(3) accepting_def)
  with reaches_trans [OF c2(1) passedD(1) [OF c1(1)]] rp(2) gone c3 show ?thesis by blast
qed

section \<open>The properties at work\<close>

text \<open>A server on which one client has just logged in.\<close>

definition logged_server :: "ledger \<Rightarrow> network server" where
  "logged_server l = run_event (sample_app sample_env) login_request (started fresh_disk (sample_net l))"

definition by_client :: "string \<Rightarrow> exchange" where
  "by_client b = sample_exchange (Some (query_escape sample_sid)) b"

lemma logged_server:
  "session_ok (prov (logged_server l))" "sv_world (logged_server l) = sample_net l" "admitted (by_client b) (logged_server l)"
  using sample_logged_in run_event_sessions(1) [OF started_sessions(1)] sample_cookie
  by (simp_all add: logged_server_def by_client_def admitted_def has_cookie_def)

lemma by_client_simps [simp]: "ex_body (by_client b) = Inr b" "ex_write (by_client b) = None"
  "ex_cookie (by_client b) = Some (query_escape sample_sid)"
  by (simp_all add: by_client_def)

lemma sample_draft: "plain_text (certId sample_cert)" "certId sample_cert = ''C1''" "\<not> isOpen sample_cert"
  by (simp_all add: sample_cert_def zero_cert_def plain_text_def unreserved_def is_digit_def in_range_def)

lemma sample_unmarshal: "unmarshal_cert (marshal_cert sample_cert) = (sample_cert, None)"
  by (rule cert_roundtrip) simp

lemma post_after_logout_witness:
  "\<exists>c c' x. reaches (accepting (sample_app sample_env)
        [Request POST [''v1'', ''certificate''] (by_client (marshal_cert sample_cert)), Request POST [''v1'', ''logout''] (by_client '''')]
        (logged_server [])) c
     \<and> \<not> admitted (by_client (marshal_cert sample_cert)) (pl_server c) \<and> reaches c c'
     \<and> abs_certs (net_ledger (sv_world (pl_server c'))) ''C1'' = Some x"
proof -
  from post_after_logout [OF sample_app_fabric sample_healthy logged_server(1,3) by_client_simps(1,2) sample_unmarshal
      sample_draft(1,3), where ex' = "by_client []"]
  show ?thesis by (simp only: by_client_simps sample_draft(2)) blast
qed

definition delete_body :: string where
  "delete_body = ''[{\"certId\":\"C1\",\"isDeleted\":true}]''"

lemma delete_body: "unmarshal_statuses delete_body = (Some [zero_status\<lparr>st_certId := ''C1'', st_isDeleted := True\<rparr>], None)"
  by code_simp

lemma filed_cert: "abs_certs filed_ledger ''C1'' = Some open_cert"
proof -
  have "certId open_cert = ''C1''" by (simp add: open_cert_def sample_cert_def)
  then have "abs_certs (put (cert_key ''C1'') (marshal_cert open_cert) l) = (abs_certs l)(''C1'' \<mapsto> open_cert)" for l
    using abs_put_certs(1) [OF open_cert_ok] by simp
  then show ?thesis unfolding filed_ledger_def by (simp only: fun_upd_same)
qed

lemma status_change_undoes_post_witness:
  "\<exists>c' u t. reaches (accepting (sample_app sample_env)
        [Request POST [''v1'', ''changeStatus''] (by_client delete_body),
         Request POST [''v1'', ''certificate''] (by_client (marshal_cert sample_cert))] (logged_server filed_ledger)) c'
     \<and> abs_certs (net_ledger (sv_world (pl_server c'))) ''C1'' =
         Some (open_cert\<lparr>isDeleted := True, isOpen := False, isCompleted := False, hasUpload := u, updateDate := format_prc t\<rparr>)"
proof -
  let ?st = "zero_status\<lparr>st_certId := ''C1'', st_isDeleted := True\<rparr>"
  have st: "st_certId ?st = ''C1''" "\<not> st_isOpen ?st" "st_isDeleted ?st" "\<not> st_isCompleted ?st"
    by (simp_all add: zero_status_def)
  have l: "ledger_ok (net_ledger (sv_world (logged_server filed_ledger)))"
    "abs_certs (net_ledger (sv_world (logged_server filed_ledger))) (st_certId ?st) = Some open_cert"
    using filed_ledger_inv filed_cert by (simp_all add: logged_server(2) st(1) ledger_inv_def app_ok_def)
  from status_change_undoes_post [OF sample_app_fabric sample_healthy logged_server(1) l logged_server(3) _ _ delete_body
      logged_server(3) _ _ sample_unmarshal] sample_draft st
  show ?thesis by simp blast
qed

text \<open>A ledger that differs in the end differs after some step.\<close>

lemma reaches_change:
  assumes "reaches a b" "f b \<noteq> f a"
  shows "\<exists>i c c'. reaches a c \<and> moves i c c' \<and> f c' \<noteq> f c"
  using assms by (induction rule: reaches.induct) metis+

lemma overlapping_change_needs_password_witness:
  "\<exists>past sid. password_given (sample_app sample_env) [login_request, post_request] past sid"
proof -
  let ?s = "started fresh_disk (sample_net [])" and ?login = "sample_exchange None login_body"
    and ?ex = "by_client (marshal_cert sample_cert)"
  let ?c0 = "accepting (sample_app sample_env) [login_request, post_request] ?s"
  have "find_route buildRouter POST [''v1'', ''login''] = Some (Login, Map.empty)" by (simp add: find_login)
  then have "fst (serve POST [''v1'', ''login''] (sample_app sample_env) ?login ?s) \<noteq> Hangs"
    by (simp add: serve_routed postLogin_def split: prod.split sum.split option.split)
  then obtain r where "run_steps (event_steps (sample_app sample_env) login_request) ?s = Some (r, logged_server [])"
    by (simp add: login_request_def run_event_steps(1) logged_server_def)
  then obtain c1 where c1: "reaches ?c0 c1" "pl_threads c1 = (pl_threads ?c0)[0 := Finish r]" "pl_server c1 = logged_server []"
    by (rule reaches_run [where i = 0 and c = ?c0]) (auto simp: accepting_def)
  obtain reply c2 where c2: "passed c1 c2"
    "pl_threads c2 = (pl_threads c1)[1 := CertificateIn_steps (connected sample_env) (marshal_cert sample_cert) (replying reply (\<lambda>r. Finish (Some r)))]"
    by (rule post_admitted [of 1 c1 "sample_app sample_env" ?ex])
       (use c1(2) logged_server in \<open>simp_all add: c1(3) accepting_def post_request_def by_client_def [symmetric]\<close>)
  obtain c3 u t where c3: "reaches c2 c3"
    "abs_certs (net_ledger (sv_world (pl_server c3))) (certId sample_cert) = Some (sample_cert\<lparr>hasUpload := u, updateDate := format_prc t\<rparr>)"
    by (rule post_goes_through [where i = 1 and c = c2 and g = "\<lambda>txid. Some (reply (Some txid, None, 200))" and
          k = "replying reply (\<lambda>r. Finish (Some r))", OF _ _ sample_healthy sample_unmarshal sample_draft(1,3)])
       (use c1(2) c2(2) in \<open>auto simp: replying_def accepting_def\<close>)
  have "reaches ?c0 c3" by (rule reaches_trans [OF c3(1) reaches_trans [OF passedD(1) [OF c2(1)] c1(1)]])
  moreover have "net_ledger (sv_world (pl_server c3)) \<noteq> net_ledger (sv_world (pl_server ?c0))"
    using c3(2) by (auto simp: accepting_def abs_certs_def)
  ultimately obtain i c c' where "reaches ?c0 c" "moves i c c'"
    "net_ledger (sv_world (pl_server c')) \<noteq> net_ledger (sv_world (pl_server c))"
    using reaches_change [of ?c0 c3 "\<lambda>c. net_ledger (sv_world (pl_server c))"] by blast
  from overlapping_change_needs_password [OF sample_app_fabric _ this] show ?thesis by auto
qed

end
