(* ===== verification/Uploads.thy ===== *)
theory Uploads
  imports Overlaps
begin

text \<open>
  Two uploads at once. \<open>UploadFile\<close> goes through a file of the local disk whose name is the
  certificate identifier, opens it without truncation, and sends to the ledger what it reads back.
  Two uploads under one identifier share that file: the property of this theory has an interleaving
  after which the ledger holds a file that neither client has sent.
\<close>

section \<open>The disk between two uploads\<close>

lemma quiet_mix:
  assumes "quiet os" "writable path d"
  obtains d1 d2 d3 d4 d5 d6 where
    "deleteFileOnDisk os path d = d1" "deleteFileOnDisk os path d1 = d2"
    "os_OpenFile os False path d2 = (None, d3)" "os_OpenFile os False path d3 = (None, d4)"
    "os_Write os path a d4 = (None, d5)" "os_Write os path b d5 = (None, d6)"
    "map_of (d_files d6) (path_Clean path) = Some (b @ drop (length b) a)"
proof -
  let ?k = "path_Clean path"
  have w: "?k \<notin> set (d_dirs d)" "path_Dir ?k \<in> set (d_dirs d)" "CHR 0x00 \<notin> set path" "dirs_above (path_Dir path) = []"
    using assms(2) by (simp_all add: writable_def)
  note call = quiet_call [OF assms(1) w(3)]
  define d1 where "d1 = deleteFileOnDisk os path d"
  define d2 where "d2 = deleteFileOnDisk os path d1"
  have d2: "map_of (d_files d2) ?k = None" "d_dirs d2 = d_dirs d"
    using w call by (auto simp: d1_def d2_def deleteFileOnDisk_def os_Remove_def Let_def map_of_delete_key)
  obtain d3 where d3: "os_OpenFile os False path d2 = (None, d3)" "map_of (d_files d3) ?k = Some ''''" "d_dirs d3 = d_dirs d"
    using w d2 call by (simp add: os_OpenFile_def Let_def)
  obtain d4 where d4: "os_OpenFile os False path d3 = (None, d4)" "map_of (d_files d4) ?k = Some ''''"
    using w d3 call by (simp add: os_OpenFile_def Let_def)
  obtain d5 where d5: "os_Write os path a d4 = (None, d5)" "map_of (d_files d5) ?k = Some a"
    using call d4(2) by (simp add: os_Write_def file_content_def)
  obtain d6 where d6: "os_Write os path b d5 = (None, d6)" "map_of (d_files d6) ?k = Some (b @ drop (length b) a)"
    using call d5(2) by (simp add: os_Write_def file_content_def)
  show thesis by (rule that [OF d1_def [symmetric] d2_def [symmetric] d3(1) d4(1) d5(1) d6(1) d6(2)])
qed

text \<open>Reading back and posting a whole file, on a disk and a network on which everything works.\<close>

lemma read_back_run:
  assumes "quiet os" "CHR 0x00 \<notin> set (upload_path i)"
    and "map_of (d_files (sv_disk s)) (path_Clean (upload_path i)) = Some b" "is_pdf b"
    and "healthy env" "plain_text i" "app_ok (net_ledger (sv_world s))"
    and k: "\<And>txid. k (Ret (Some txid, None, 200)) = Finish (g txid)"
  obtains txid s' where "run_steps (read_back_steps os (connected env) i k) s = Some (g txid, s')"
    "map_of (d_files (sv_disk s')) (path_Clean (upload_path i)) = Some b"
    "app_ok (net_ledger (sv_world s'))" "abs_files (net_ledger (sv_world s')) i = Some (marshal_file (file_record i b))"
proof -
  note call = quiet_call [OF assms(1,2)]
  let ?f = "marshal_file (file_record i b)"
  obtain d' where disk: "run_steps (read_back_steps os (connected env) i k) s
      = run_steps (upload_bytes_steps (connected env) i b k) (s\<lparr>sv_disk := d'\<rparr>)"
    "d_files d' = d_files (sv_disk s)"
    using assms(1,3) call
    by (simp add: read_back_steps_def run_disk_step os_Open_def os_Stat_def os_Read_def file_content_def quiet_def)
  obtain txid n1 where x: "Execute (connected env) (''postUploadFileEvent'' @ i) ''postUploadFile'' [?f] (sv_world s) = (Ret (Inr txid), n1)"
    "net_ledger n1 = put (file_key i) ?f (net_ledger (sv_world s))"
    by (rule healthy_post_file [OF assms(5,6)])
  have ok: "app_ok (net_ledger n1)" "abs_files (net_ledger n1) i = Some ?f"
    using app_ok_put_file [OF assms(7) file_entry_marshalled [OF plain_utf8 [OF assms(6)] plain_id_ok [OF assms(6)]]]
    by (simp_all add: x(2) abs_put_files)
  obtain n2 where r: "refresh_certificate (connected env) i txid n1 = (Ret (Some txid, None, 200), n2)"
    using healthy_refresh [OF assms(5,6) ok] by blast
  obtain n3 where n3: "refresh_certificate (connected env) i txid n1 = (Ret (Some txid, None, 200), n3)"
    "touches_only i (net_ledger n1) (net_ledger n3)"
    by (rule net.refresh_returns [OF ok(1), of env i txid]) (use r in auto)
  have "app_ok (net_ledger n3)" "abs_files (net_ledger n3) i = Some ?f"
    using touches_uploads [OF n3(2)] n3(2) ok by (simp_all add: uploads_only_def touches_only_def)
  then show thesis
    using that [of txid "s\<lparr>sv_disk := d', sv_world := n3\<rparr>"] disk x(1) n3(1) assms(3,4) k
    by (simp add: run_upload_bytes upload_bytes_def file_record_def resume_def)
qed

section \<open>Following the two uploads\<close>

lemma disk_move:
  assumes "i < length (pl_threads c)" "pl_threads c ! i = atomically (disk_step f) k" "f (sv_disk (pl_server c)) = (r, d)"
  obtains c' where "reaches c c'" "pl_threads c' = (pl_threads c)[i := k r]" "pl_server c' = (pl_server c)\<lparr>sv_disk := d\<rparr>"
  by (rule reaches_atomically [OF assms(1,2)]) (auto simp: disk_step_def assms(3) intro: that)

text \<open>Two programs at the start of their uploads, and the six steps that mix their files.\<close>

lemma uploads_reach_mix:
  assumes "pl_threads c = [UploadFile_steps os fab i (a, None) k1, UploadFile_steps os fab i (b, None) k2]"
    and "quiet os" "writable (upload_path i) (sv_disk (pl_server c))"
  obtains c' d where "reaches c c'" "pl_threads c' = [read_back_steps os fab i k1, read_back_steps os fab i k2]"
    "pl_server c' = (pl_server c)\<lparr>sv_disk := d\<rparr>"
    "map_of (d_files d) (path_Clean (upload_path i)) = Some (b @ drop (length b) a)"
proof -
  obtain d1 d2 d3 d4 d5 d6 where d: "deleteFileOnDisk os (upload_path i) (sv_disk (pl_server c)) = d1"
    "deleteFileOnDisk os (upload_path i) d1 = d2"
    "os_OpenFile os False (upload_path i) d2 = (None, d3)" "os_OpenFile os False (upload_path i) d3 = (None, d4)"
    "os_Write os (upload_path i) a d4 = (None, d5)" "os_Write os (upload_path i) b d5 = (None, d6)"
    "map_of (d_files d6) (path_Clean (upload_path i)) = Some (b @ drop (length b) a)"
    by (rule quiet_mix [OF assms(2,3)])
  obtain c1 where c1: "reaches c c1" "pl_server c1 = (pl_server c)\<lparr>sv_disk := d1\<rparr>"
    "pl_threads c1 = [open_steps os fab i (a, None) k1, UploadFile_steps os fab i (b, None) k2]"
    by (rule disk_move [of 0 c, OF _ _ refl]) (auto simp: assms(1) UploadFile_steps_def d(1))
  obtain c2 where c2: "reaches c1 c2" "pl_server c2 = (pl_server c)\<lparr>sv_disk := d2\<rparr>"
    "pl_threads c2 = [open_steps os fab i (a, None) k1, open_steps os fab i (b, None) k2]"
    by (rule disk_move [of 1 c1, OF _ _ refl]) (auto simp: c1(2,3) UploadFile_steps_def d(2))
  obtain c3 where c3: "reaches c2 c3" "pl_server c3 = (pl_server c)\<lparr>sv_disk := d3\<rparr>"
    "pl_threads c3 = [write_steps os fab i (a, None) k1, open_steps os fab i (b, None) k2]"
    by (rule disk_move [of 0 c2 "os_OpenFile os False (upload_path i)" _ None d3]) (auto simp: c2(2,3) open_steps_def d(3))
  obtain c4 where c4: "reaches c3 c4" "pl_server c4 = (pl_server c)\<lparr>sv_disk := d4\<rparr>"
    "pl_threads c4 = [write_steps os fab i (a, None) k1, write_steps os fab i (b, None) k2]"
    by (rule disk_move [of 1 c3 "os_OpenFile os False (upload_path i)" _ None d4]) (auto simp: c3(2,3) open_steps_def d(4))
  obtain c5 where c5: "reaches c4 c5" "pl_server c5 = (pl_server c)\<lparr>sv_disk := d5\<rparr>"
    "pl_threads c5 = [read_back_steps os fab i k1, write_steps os fab i (b, None) k2]"
    by (rule disk_move [of 0 c4 "os_Write os (upload_path i) a" _ None d5]) (auto simp: c4(2,3) write_steps_def d(5))
  obtain c6 where c6: "reaches c5 c6" "pl_server c6 = (pl_server c)\<lparr>sv_disk := d6\<rparr>"
    "pl_threads c6 = [read_back_steps os fab i k1, read_back_steps os fab i k2]"
    by (rule disk_move [of 1 c5 "os_Write os (upload_path i) b" _ None d6]) (auto simp: c5(2,3) write_steps_def d(6))
  have "reaches c c6"
    by (rule reaches_trans [OF c6(1) reaches_trans [OF c5(1) reaches_trans [OF c4(1) reaches_trans [OF c3(1)
          reaches_trans [OF c2(1) c1(1)]]]]])
  from that [OF this c6(3,2) d(7)] show thesis .
qed

section \<open>Property\<close>

lemma is_pdf_append: "is_pdf b \<Longrightarrow> is_pdf (b @ x)"
  by (auto simp: is_pdf_def starts_with_iff)

text \<open>
  C33: Two uploads can store what nobody sent. On a disk and a network on which everything works,
  two uploads of PDF files a and b under one identifier overlap so that both are answered with
  status 200 and the ledger ends with b followed by what of a lies beyond the length of b.
\<close>

theorem uploads_mix:
  assumes env: "ap_fabric ap = connected env" "healthy env" "quiet (ap_os ap)"
    and s: "session_ok (prov s)" "app_ok (net_ledger (sv_world s))" "writable (upload_path i) (sv_disk s)" "plain_text i"
    and ex1: "admitted ex1 s" "ex_form ex1 = Inr f1" "fm_certFile f1 = Inr (a, None)" "fm_certId f1 = i # ids1" "ex_write ex1 = None"
    and ex2: "admitted ex2 s" "ex_form ex2 = Inr f2" "fm_certFile f2 = Inr (b, None)" "fm_certId f2 = i # ids2" "ex_write ex2 = None"
    and pdf: "is_pdf b"
  shows "\<exists>c' rp1 rp2.
    reaches (accepting ap [Request POST [''v1'', ''uploadFile''] ex1, Request POST [''v1'', ''uploadFile''] ex2] s) c'
    \<and> pl_threads c' = [Finish (Some (Answer rp1)), Finish (Some (Answer rp2))] \<and> rp_status rp1 = 200 \<and> rp_status rp2 = 200
    \<and> abs_files (net_ledger (sv_world (pl_server c'))) i = Some (marshal_file (file_record i (b @ drop (length b) a)))"
proof -
  let ?c0 = "accepting ap [Request POST [''v1'', ''uploadFile''] ex1, Request POST [''v1'', ''uploadFile''] ex2] s"
  let ?fab = "connected env" and ?os = "ap_os ap" and ?mix = "b @ drop (length b) a"
  obtain reply1 c1 where c1: "passed ?c0 c1" "sends_status reply1"
    "pl_threads c1 = (pl_threads ?c0)[0 := UploadFile_steps ?os ?fab i (a, None) (replying reply1 (\<lambda>r. Finish (Some r)))]"
    by (rule upload_admitted [of 0 ?c0 ap ex1]) (use s(1) ex1 env(1) in \<open>auto simp: accepting_def\<close>)
  obtain reply2 c2 where c2: "passed c1 c2" "sends_status reply2"
    "pl_threads c2 = (pl_threads c1)[1 := UploadFile_steps ?os ?fab i (b, None) (replying reply2 (\<lambda>r. Finish (Some r)))]"
    by (rule upload_admitted [of 1 c1 ap ex2]) (use c1(3) passedD [OF c1(1)] ex2 env(1) in \<open>auto simp: accepting_def\<close>)
  have start: "sv_world (pl_server c2) = sv_world s" "sv_disk (pl_server c2) = sv_disk s"
    using passedD(3,4) [OF c1(1)] passedD(3,4) [OF c2(1)] by (simp_all add: accepting_def)
  let ?k1 = "replying reply1 (\<lambda>r. Finish (Some r))" and ?k2 = "replying reply2 (\<lambda>r. Finish (Some r))"
  obtain c3 d where c3: "reaches c2 c3" "pl_threads c3 = [read_back_steps ?os ?fab i ?k1, read_back_steps ?os ?fab i ?k2]"
    "pl_server c3 = (pl_server c2)\<lparr>sv_disk := d\<rparr>" "map_of (d_files d) (path_Clean (upload_path i)) = Some ?mix"
    by (rule uploads_reach_mix [of c2]) (use c1(3) c2(3) start(2) env(3) s(3) in \<open>auto simp: accepting_def\<close>)
  have z: "CHR 0x00 \<notin> set (upload_path i)" using s(3) by (simp add: writable_def)
  note read_back = read_back_run [OF env(3) z _ is_pdf_append [OF pdf] env(2) s(4)]
  obtain t1 s1 where run1: "run_steps (read_back_steps ?os ?fab i ?k1) (pl_server c3) = Some (Some (reply1 (Some t1, None, 200)), s1)"
    "map_of (d_files (sv_disk s1)) (path_Clean (upload_path i)) = Some ?mix" "app_ok (net_ledger (sv_world s1))"
    by (rule read_back [where s = "pl_server c3" and k = ?k1 and g = "\<lambda>t. Some (reply1 (Some t, None, 200))"])
       (use start(1) c3(3,4) s(2) in \<open>auto simp: replying_def\<close>)
  obtain t2 s2 where run2: "run_steps (read_back_steps ?os ?fab i ?k2) s1 = Some (Some (reply2 (Some t2, None, 200)), s2)"
    "abs_files (net_ledger (sv_world s2)) i = Some (marshal_file (file_record i ?mix))"
    by (rule read_back [OF run1(2,3), where k = ?k2 and g = "\<lambda>t. Some (reply2 (Some t, None, 200))"]) (auto simp: replying_def)
  obtain c4 where c4: "reaches c3 c4" "pl_threads c4 = (pl_threads c3)[0 := Finish (Some (reply1 (Some t1, None, 200)))]" "pl_server c4 = s1"
    by (rule reaches_run [OF run1(1), of 0 c3]) (use c3(2) in auto)
  obtain c5 where c5: "reaches c4 c5" "pl_threads c5 = (pl_threads c4)[1 := Finish (Some (reply2 (Some t2, None, 200)))]" "pl_server c5 = s2"
    by (rule reaches_run [OF run2(1), of 1 c4]) (use c3(2) c4(2,3) in auto)
  obtain rp1 where rp1: "reply1 (Some t1, None, 200) = Answer rp1" "rp_status rp1 = 200" by (rule sends_statusE [OF c1(2)])
  obtain rp2 where rp2: "reply2 (Some t2, None, 200) = Answer rp2" "rp_status rp2 = 200" by (rule sends_statusE [OF c2(2)])
  note way = passedD(1) [OF c1(1)] passedD(1) [OF c2(1)] c3(1) c4(1) c5(1)
  show ?thesis
    using reaches_all [OF way] c3(2) c4(2) c5(2,3) run2(2) rp1 rp2
    by (intro exI [of _ c5] exI [of _ rp1] exI [of _ rp2]) simp
qed

text \<open>Two versions of one file, sent at once.\<close>

definition with_file :: "string \<Rightarrow> exchange" where
  "with_file b = (by_client '''')\<lparr>ex_form := Inr \<lparr>fm_certFile = Inr (b, None), fm_certId = [''C1'']\<rparr>\<rparr>"

lemma uploads_mix_witness:
  "\<exists>c' rp1 rp2. reaches (accepting (sample_app sample_env)
        [Request POST [''v1'', ''uploadFile''] (with_file ''%PDF-123456''), Request POST [''v1'', ''uploadFile''] (with_file ''%PDF-abc'')]
        ((logged_server [])\<lparr>sv_disk := sample_disk\<rparr>)) c'
     \<and> pl_threads c' = [Finish (Some (Answer rp1)), Finish (Some (Answer rp2))] \<and> rp_status rp1 = 200 \<and> rp_status rp2 = 200
     \<and> abs_files (net_ledger (sv_world (pl_server c'))) ''C1'' = Some (marshal_file (file_record ''C1'' ''%PDF-abc456''))"
proof -
  let ?s = "(logged_server [])\<lparr>sv_disk := sample_disk\<rparr>"
  have os: "quiet (ap_os (sample_app sample_env))" by (simp add: sample_app_def quiet_def)
  have s: "session_ok (prov ?s)" "app_ok (net_ledger (sv_world ?s))" "writable (upload_path ''C1'') (sv_disk ?s)"
    "admitted (with_file x) ?s" for x
    using logged_server [of "[]"] sample_app_ok sample_writable(1)
    by (simp_all add: with_file_def admitted_def has_cookie_def logged_in_def)
  have form: "ex_form (with_file x) = Inr \<lparr>fm_certFile = Inr (x, None), fm_certId = [''C1'']\<rparr>" "ex_write (with_file x) = None" for x
    by (simp_all add: with_file_def)
  show ?thesis
    using uploads_mix [OF sample_app_fabric sample_healthy os s(1,2,3) sample_plain_id s(4) form(1) _ _ form(2) s(4) form(1) _ _ form(2),
        where a = "''%PDF-123456''" and b = "''%PDF-abc''"]
    by (simp add: is_pdf_def)
qed

end
