(* ===== verification/Answers.thy ===== *)
theory Answers
  imports Overlaps
begin

text \<open>
  Every request ends, whatever the others do. Outside the three lists a program has a number of
  steps it never exceeds, which depends on the request alone: no call of the business code is
  repeated because of what another request has done, and none panics while the ledger keeps its
  invariant. So a request is answered after at most that many steps of its own, in every
  interleaving, and none of them waits for another request.
\<close>

section \<open>Programs that end\<close>

text \<open>Within \<open>n\<close> steps, each from some good state, the program ends with a result of the kind asked for.\<close>

fun ends_within :: "('s \<Rightarrow> bool) \<Rightarrow> ('a \<Rightarrow> bool) \<Rightarrow> nat \<Rightarrow> ('s, 'a) steps \<Rightarrow> bool" where
  "ends_within ok P 0 p = (case p of Finish a \<Rightarrow> P a | Step u k \<Rightarrow> False)"
| "ends_within ok P (Suc n) p = (case p of Finish a \<Rightarrow> P a | Step u k \<Rightarrow> \<forall>s. ok s \<longrightarrow> ends_within ok P n (k s))"

lemma ends_Finish [simp]: "ends_within ok P n (Finish a) = P a"
  by (cases n) simp_all

lemma ends_Step: "ends_within ok P n (Step u k) \<longleftrightarrow> (\<exists>m. n = Suc m \<and> (\<forall>s. ok s \<longrightarrow> ends_within ok P m (k s)))"
  by (cases n) simp_all

lemma ends_more: "ends_within ok P n p \<Longrightarrow> n \<le> m \<Longrightarrow> ends_within ok P m p"
proof (induction n arbitrary: m p)
  case 0
  then show ?case by (cases p) simp_all
next
  case (Suc n)
  then show ?case by (cases p; cases m) auto
qed

lemma ends_atomically:
  assumes "\<And>s. ok s \<Longrightarrow> ends_within ok P n (k (fst (f s)))"
  shows "ends_within ok P (Suc n) (atomically f k)"
  using assms by (simp add: atomically_def)

lemma ends_any:
  assumes "\<And>r. ends_within ok P n (k r)"
  shows "ends_within ok P (Suc n) (atomically f k)"
  by (rule ends_atomically) (rule assms)

lemma ends_call:
  assumes "\<And>s. ok s \<Longrightarrow> \<not> is_panic (fst (f (sv_world s)))" "\<And>a. ends_within ok P n (g a)"
  shows "ends_within ok P (Suc n) (call_steps f k g)"
  unfolding call_steps_def
proof (rule ends_atomically)
  fix s assume "ok s"
  from assms(1) [OF this] show "ends_within ok P n (case fst (world_step f s) of Panic m \<Rightarrow> k (Panic m) | Ret a \<Rightarrow> g a)"
    by (auto simp: world_step_def assms(2) split: prod.split outcome.splits)
qed

declare ends_within.simps [simp del]

section \<open>The steps of a request\<close>

text \<open>How many steps a request makes at most; the lists have no such number.\<close>

fun most_steps :: "route_target \<Rightarrow> exchange \<Rightarrow> nat option" where
  "most_steps Login ex = Some 2"
| "most_steps Logout ex = Some 5"
| "most_steps PostCertificate ex = Some 4"
| "most_steps PostUploadFile ex = Some 12"
| "most_steps GetDownloadFile ex = Some 3"
| "most_steps GetCertificate ex = Some 1"
| "most_steps PostChangeStatus ex =
     Some (2 + (case ex_body ex of Inl e \<Rightarrow> 0 | Inr b \<Rightarrow> (case fst (unmarshal_statuses b) of None \<Rightarrow> 0 | Some sts \<Rightarrow> 3 * length sts)))"
| "most_steps _ ex = None"

lemma ends_start:
  assumes "\<And>h cs. ends_within ok P n (k h cs)"
  shows "ends_within ok P (Suc n) (start_steps ap ex k)"
  unfolding start_steps_def by (rule ends_any) (simp add: assms split: prod.split)

lemma ends_isLogin:
  assumes "\<And>b cs. ends_within ok P n (k b cs)"
  shows "ends_within ok P (Suc (Suc n)) (isLogin_steps ap ex k)"
  unfolding isLogin_steps_def get_steps_def by (intro ends_start ends_any assms)

definition replied :: "served option \<Rightarrow> bool" where
  "replied r \<longleftrightarrow> (\<exists>rp. r = Some (Answer rp))"

lemma replied_Some [simp]: "replied (Some r) \<longleftrightarrow> (\<exists>rp. r = Answer rp)"
  by (simp add: replied_def)

lemma ends_reply: "\<exists>rp. r = Answer rp \<Longrightarrow> ends_within ok replied n (Finish (Some r))"
  by simp

lemma ends_postLogin:
  assumes "ex_write ex = None"
  shows "ends_within ok replied (Suc (Suc 0)) (postLogin_steps ap ex (\<lambda>r. Finish (Some r)))"
  unfolding postLogin_steps_def set_steps_def
  by (rule ends_start) (auto intro!: ends_any answers [OF assms] split: sum.split prod.split option.split)

lemma ends_postLogout:
  assumes "ex_write ex = None"
  shows "ends_within ok replied (Suc (Suc (Suc (Suc (Suc 0))))) (postLogout_steps ap ex (\<lambda>r. Finish (Some r)))"
  unfolding postLogout_steps_def delete_steps_def destroy_steps_def
  by (intro ends_start ends_any ends_isLogin ends_reply answers [OF assms])

section \<open>The operations\<close>

context ledger_client
begin

abbreviation ends :: "('a \<Rightarrow> bool) \<Rightarrow> nat \<Rightarrow> ('w server, 'a) steps \<Rightarrow> bool" where
  "ends \<equiv> ends_within (\<lambda>s. ledger_inv (ledger_of (sv_world s)))"

lemma ends_CertificateIn:
  assumes "\<And>r. ends P n (k (Ret r))"
  shows "ends P (Suc (Suc n)) (CertificateIn_steps fab body k)"
proof -
  have k: "ends P (Suc n) (k (Ret r))" "ends P (Suc (Suc n)) (k (Ret r))" for r
    using ends_more [OF assms] by simp_all
  show ?thesis
    unfolding CertificateIn_steps_def
    by (auto simp: Let_def intro!: ends_call [OF query_returns] ends_call [OF execute_returns] assms k
        split: prod.split option.split)
qed

lemma ends_change_one:
  assumes "\<And>r. ends P n (k (Ret r))"
  shows "ends P (3 + n) (change_one_steps fab st k)"
proof -
  have k: "ends P (Suc (Suc n)) (k (Ret r))" for r using ends_more [OF assms] by simp
  have "ends P (Suc (Suc (Suc n))) (change_one_steps fab st k)"
    unfolding change_one_steps_def
    by (rule ends_call [OF CertificateOut_returns])
       (auto simp: Let_def intro!: ends_CertificateIn assms k split: prod.split option.split)
  then show ?thesis by (simp add: numeral_3_eq_3)
qed

lemma ends_change_all:
  assumes "\<And>r. ends P n (k (Ret r))"
  shows "ends P (3 * length sts + n) (change_all_steps fab sts k)"
  using assms
proof (induction sts arbitrary: k)
  case (Cons st sts)
  have "ends P (3 + (3 * length sts + n)) (change_all_steps fab (st # sts) k)"
    unfolding change_all_steps.simps
    by (rule ends_change_one) (simp, rule Cons.IH, simp add: Cons.prems)
  then show ?case by (simp add: algebra_simps)
qed simp

lemma ends_refresh:
  assumes "\<And>r. ends P n (k (Ret r))"
  shows "ends P (3 + n) (refresh_steps fab i txid k)"
proof -
  have k: "ends P (Suc (Suc n)) (k (Ret r))" for r using ends_more [OF assms] by simp
  have "ends P (Suc (Suc (Suc n))) (refresh_steps fab i txid k)"
    unfolding refresh_steps_def
    by (rule ends_call [OF CertificateOut_returns])
       (auto intro!: ends_CertificateIn assms k split: prod.split option.split)
  then show ?thesis by (simp add: numeral_3_eq_3)
qed

lemma ends_upload_bytes:
  assumes "\<And>r. ends P n (k (Ret r))"
  shows "ends P (4 + n) (upload_bytes_steps fab i buf k)"
proof -
  have k: "ends P (3 + n) (k (Ret r))" "ends P (4 + n) (k (Ret r))" for r using ends_more [OF assms] by simp_all
  have "ends P (Suc (3 + n)) (call_steps (Execute fab (''postUploadFileEvent'' @ i) ''postUploadFile''
         [marshal_file \<lparr>fs_certId = i, fs_certFile = Some buf, fs_fileName = ''''\<rparr>]) k
        (\<lambda>res. (case res of Inl e \<Rightarrow> k (Ret (None, Some e, 501)) | Inr txid \<Rightarrow> refresh_steps fab i txid k)))"
    by (rule ends_call [OF execute_returns]) (auto intro!: ends_refresh assms k split: sum.split)
  then show ?thesis unfolding upload_bytes_steps_def by (simp add: k(2))
qed

lemma ends_UploadFile:
  assumes "\<And>r. ends P n (k (Ret r))"
  shows "ends P (10 + n) (UploadFile_steps os fab i upload k)"
proof -
  define m where "m = 4 + n"
  have k: "n \<le> l \<Longrightarrow> ends P l (k (Ret r))" for l r by (rule ends_more [OF assms])
  have nm: "n \<le> m" by (simp add: m_def)
  have up: "ends P m (upload_bytes_steps fab i buf k)" for buf
    unfolding m_def by (rule ends_upload_bytes) (rule assms)
  have "ends P (Suc (Suc (Suc m))) (read_back_steps os fab i k)"
    unfolding read_back_steps_def by (auto intro!: ends_any up k le_SucI nm split: option.split sum.split)
  then have "ends P (Suc (Suc (Suc (Suc m)))) (write_steps os fab i upload k)"
    unfolding write_steps_def by (auto intro!: ends_any k le_SucI nm split: option.split)
  then have "ends P (Suc (Suc (Suc (Suc (Suc m))))) (open_steps os fab i upload k)"
    unfolding open_steps_def by (auto intro!: ends_any k le_SucI nm split: option.split)
  then have "ends P (Suc (Suc (Suc (Suc (Suc (Suc m)))))) (UploadFile_steps os fab i upload k)"
    unfolding UploadFile_steps_def by (intro ends_any)
  then show ?thesis by (simp add: m_def eval_nat_numeral)
qed

lemma ends_DownloadFile:
  assumes "\<And>r. ends P n (k (Ret r))"
  shows "ends P (Suc (Suc n)) (DownloadFile_steps os fab param k)"
proof -
  have k: "ends P (Suc n) (k (Ret r))" for r using ends_more [OF assms] by simp
  show ?thesis
    unfolding DownloadFile_steps_def
    by (rule ends_call [OF query_returns])
       (auto intro!: ends_any assms k split: sum.split prod.split option.split)
qed

lemma ends_handler:
  assumes "ap_fabric ap = fab" "most_steps t ex = Some n" "ex_write ex = None"
    and form: "\<And>fm. ex_form ex = Inr fm \<Longrightarrow> fm_certId fm \<noteq> []"
  shows "ends replied n (handler_steps t ap ex (\<lambda>r. Finish (Some r)))"
proof -
  note reply = answers [OF assms(3)]
  show ?thesis
  proof (cases t)
    case Login
    with assms(2) ends_postLogin [OF assms(3)] show ?thesis by (auto simp: numeral_2_eq_2)
  next
    case Logout
    with assms(2) ends_postLogout [OF assms(3)] show ?thesis by (auto simp: eval_nat_numeral)
  next
    case PostCertificate
    have "ends replied (Suc (Suc (Suc (Suc 0)))) (postCertificate_steps ap ex (\<lambda>r. Finish (Some r)))"
      unfolding postCertificate_steps_def assms(1) replying_def
      by (rule ends_isLogin) (auto intro!: ends_CertificateIn reply split: sum.split prod.split option.split)
    with PostCertificate assms(2) show ?thesis by (auto simp: eval_nat_numeral)
  next
    case PostUploadFile
    have "ends replied (Suc (Suc (10 + 0))) (postUploadFile_steps ap ex (\<lambda>r. Finish (Some r)))"
      unfolding postUploadFile_steps_def assms(1) replying_def
      by (rule ends_isLogin) (auto intro!: ends_UploadFile [where n = 0, simplified] reply dest: form split: sum.split list.split prod.split option.split)
    with PostUploadFile assms(2) show ?thesis by (auto simp: eval_nat_numeral)
  next
    case GetDownloadFile
    have "ends replied (Suc (Suc (Suc 0))) (getDownloadFile_steps ap ex (\<lambda>r. Finish (Some r)))"
      unfolding getDownloadFile_steps_def assms(1)
      by (rule ends_DownloadFile) (auto intro!: ends_any split: prod.split)
    with GetDownloadFile assms(2) show ?thesis by (auto simp: eval_nat_numeral)
  next
    case GetCertificate
    have "ends replied (Suc 0) (getCertificate_steps ap ex (\<lambda>r. Finish (Some r)))"
      unfolding getCertificate_steps_def assms(1)
    proof (rule ends_atomically, goal_cases)
      case (1 s)
      from CertificateOut_returns [OF this, of "ex_params ex"] show ?case
        by (auto simp: world_step_def replying_def intro!: reply split: prod.split outcome.split option.split)
    qed
    with GetCertificate assms(2) show ?thesis by simp
  next
    case PostChangeStatus
    define n where "n = (case ex_body ex of Inl e \<Rightarrow> 0 | Inr b \<Rightarrow> (case fst (unmarshal_statuses b) of None \<Rightarrow> 0 | Some sts \<Rightarrow> 3 * length sts))"
    have "ends replied (Suc (Suc n)) (postChangeStatus_steps ap ex (\<lambda>r. Finish (Some r)))"
      unfolding postChangeStatus_steps_def assms(1) replying_def
      by (rule ends_isLogin)
         (auto simp: n_def ChangeStatus_steps_def intro!: ends_change_all [where n = 0, simplified] reply
           split: sum.split prod.split option.split)
    with PostChangeStatus assms(2) show ?thesis by (simp add: n_def)
  qed (use assms(2) in simp_all)
qed

end

section \<open>In the pool\<close>

lemma reaches_ends:
  assumes "reaches c0 c" "\<And>d. reaches c0 d \<Longrightarrow> reaches d c \<Longrightarrow> ok (pl_server d)" "pl_past c0 = []"
    and "i < length (pl_threads c0)" "ends_within ok P n (pl_threads c0 ! i)"
  shows "i < length (pl_threads c) \<and> (\<exists>m. length (moments i (pl_past c)) + m = n \<and> ends_within ok P m (pl_threads c ! i))"
  using assms
proof (induction rule: reaches.induct)
  case (reaches_refl c0)
  then show ?case by simp
next
  case (reaches_step c0 c j c')
  have before: "ok (pl_server d)" if "reaches c0 d" "reaches d c" for d
    using reaches_step.prems(1) [OF that(1) reaches.reaches_step [OF that(2) reaches_step.hyps(2)]] .
  then obtain m where m: "i < length (pl_threads c)" "length (moments i (pl_past c)) + m = n" "ends_within ok P m (pl_threads c ! i)"
    using reaches_step.IH reaches_step.prems(2-4) by blast
  have ok: "ok (pl_server c)" using before reaches_step.hyps(1) reaches_refl by blast
  from reaches_step.hyps(2) show ?case
  proof (cases rule: moves.cases)
    case (1 u k)
    show ?thesis
    proof (cases "j = i")
      case True
      with 1 m(3) obtain m' where "m = Suc m'" "ends_within ok P m' (k (pl_server c))"
        using ok by (auto simp: ends_Step)
      with True 1 m show ?thesis by auto
    next
      case False
      with 1 m show ?thesis by auto
    qed
  qed
qed

lemma most_steps_routed: "most_steps t (routed params ex) = most_steps t ex"
  by (cases t) simp_all

text \<open>
  C5: Every request is answered, whatever the others do. In every interleaving of any requests and
  collector runs, on a network that may fail any call, a request to any route but the three lists
  has either been answered, or can make its next step at once; and it makes no more steps than a
  number that its own content settles. So nothing can starve, block or crash it, provided the
  reply can be written and an upload names its certificate.
\<close>

theorem overlapping_requests_answered:
  assumes net: "ap_fabric ap = connected env" "ledger_inv (net_ledger w)" "reaches (accepting ap evs (started d w)) c"
    and req: "i < length evs" "evs ! i = Request meth path ex" "find_route buildRouter meth path = Some (t, params)"
    and "most_steps t ex = Some n" "ex_write ex = None" "\<And>fm. ex_form ex = Inr fm \<Longrightarrow> fm_certId fm \<noteq> []"
  shows "length (moments i (pl_past c)) \<le> n
    \<and> ((\<exists>rp. pl_threads c ! i = Finish (Some (Answer rp)))
       \<or> length (moments i (pl_past c)) < n \<and> (\<exists>c'. moves i c c'))"
proof -
  let ?c0 = "accepting ap evs (started d w)" and ?ok = "\<lambda>s. ledger_inv (net_ledger (sv_world s))"
  have ok: "?ok (pl_server c)" if "reaches ?c0 c" for c
    using server.reaches_ok [OF that net.accepting_ok [OF net(1,2)]]
    by (simp add: server.pool_ok_def sound_def moment_def)
  have "ends_within ?ok replied n (handler_steps t ap (routed params ex) (\<lambda>r. Finish (Some r)))"
    by (rule net.ends_handler [OF net(1)]) (simp_all add: most_steps_routed assms(7-9))
  then have "ends_within ?ok replied n (pl_threads ?c0 ! i)"
    using req by (simp add: accepting_def event_program)
  from reaches_ends [OF net(3) ok _ _ this] req(1) obtain m where
    m: "i < length (pl_threads c)" "length (moments i (pl_past c)) + m = n" "ends_within ?ok replied m (pl_threads c ! i)"
    by (auto simp: accepting_def)
  show ?thesis
  proof (cases "pl_threads c ! i")
    case (Finish r)
    with m show ?thesis by (cases r) (auto simp: replied_def)
  next
    case (Step u k)
    with m show ?thesis using moves.intros [OF m(1) Step] by (auto simp: ends_Step)
  qed
qed

lemma overlapping_requests_answered_witness:
  "length (moments 0 (pl_past (schedule [0, 1, 1, 0, 0, 0] sample_pool))) \<le> 4
    \<and> ((\<exists>rp. pl_threads (schedule [0, 1, 1, 0, 0, 0] sample_pool) ! 0 = Finish (Some (Answer rp)))
       \<or> length (moments 0 (pl_past (schedule [0, 1, 1, 0, 0, 0] sample_pool))) < 4
         \<and> (\<exists>c'. moves 0 (schedule [0, 1, 1, 0, 0, 0] sample_pool) c'))"
  unfolding sample_pool_def
proof (rule overlapping_requests_answered [OF sample_app_fabric _ reaches_schedule])
  show "[post_request, login_request] ! 0 = Request POST [''v1'', ''certificate''] (by_client (marshal_cert sample_cert))"
    by (simp add: post_request_def by_client_def)
  show "find_route buildRouter POST [''v1'', ''certificate''] = Some (PostCertificate, Map.empty)"
    by (rule session_routes)
qed (simp_all add: by_client_def sample_exchange_def)

end
