(* ===== verification/Listing.thy ===== *)
theory Listing
  imports Overlaps
begin

text \<open>
  The public list while other requests write. Its pages are read one by one, each from the ledger
  as it is at that moment; \<open>yields\<close> carries over to the reply what holds of each page when it is
  read and stays true whatever the others do.
\<close>

section \<open>Results of a program among others\<close>

coinductive yields ::
    "('w moment \<Rightarrow> bool) \<Rightarrow> (nat \<Rightarrow> 'w moment \<Rightarrow> 'w moment \<Rightarrow> bool) \<Rightarrow> ('a \<Rightarrow> 'w moment \<Rightarrow> bool)
     \<Rightarrow> nat \<Rightarrow> ('w server, 'a) steps \<Rightarrow> 'w moment \<Rightarrow> bool"
  for good rely Q i where
  yields_Finish: "(\<And>m'. rely i m m' \<Longrightarrow> Q a m') \<Longrightarrow> yields good rely Q i (Finish a) m"
| yields_Step:
    "(\<And>past s. rely i m (past, s) \<Longrightarrow> good (past, s) \<Longrightarrow> yields good rely Q i (k s) (past @ [(i, s)], u s)) \<Longrightarrow>
     yields good rely Q i (Step u k) m"

inductive_cases yields_FinishE: "yields good rely Q i (Finish a) m"
inductive_cases yields_StepE: "yields good rely Q i (Step u k) m"

lemma yields_atomically:
  assumes "\<And>past s. rely i m (past, s) \<Longrightarrow> good (past, s) \<Longrightarrow>
      yields good rely Q i (k (fst (f s))) (past @ [(i, s)], snd (f s))"
  shows "yields good rely Q i (atomically f k) m"
  unfolding atomically_def by (rule yields_Step) (rule assms)

context rely_guarantee
begin

lemma yields_stable:
  assumes "yields good rely Q i p m" "rely i m m'"
  shows "yields good rely Q i p m'"
  using assms(1)
proof (cases rule: yields.cases)
  case (yields_Finish a)
  then show ?thesis using rely_trans [OF assms(2)] by (auto intro!: yields.yields_Finish)
next
  case (yields_Step k u)
  then show ?thesis using rely_trans [OF assms(2)] by (auto intro!: yields.yields_Step)
qed

lemma moves_yields:
  assumes "moves j c c'" "pool_ok c" "i < length (pl_threads c)" "yields good rely Q i (pl_threads c ! i) (moment c)"
  shows "yields good rely Q i (pl_threads c' ! i) (moment c')"
proof (cases "j = i")
  case True
  obtain u k where "pl_threads c ! i = Step u k"
    "c' = \<lparr>pl_threads = (pl_threads c)[i := k (pl_server c)], pl_past = pl_past c @ [(i, pl_server c)], pl_server = u (pl_server c)\<rparr>"
    using assms(1) True by (auto elim: movesE)
  then show ?thesis
    using assms(2-4) rely_refl [of i "moment c"] by (auto simp: pool_ok_def moment_def elim!: yields_StepE)
next
  case False
  then have "pl_threads c' ! i = pl_threads c ! i" using assms(1) by (auto elim!: movesE)
  moreover have "rely i (moment c) (moment c')"
    by (rule guar_rely [OF moves_ok(2) [OF assms(1,2)]]) (use False in simp)
  ultimately show ?thesis using yields_stable [OF assms(4)] by simp
qed

lemma reaches_yields:
  assumes "reaches c0 c" "pool_ok c0" "i < length (pl_threads c0)" "yields good rely Q i (pl_threads c0 ! i) (moment c0)"
  shows "i < length (pl_threads c) \<and> yields good rely Q i (pl_threads c ! i) (moment c)"
  using assms
proof (induction rule: reaches.induct)
  case (reaches_step c0 c j c')
  then have "i < length (pl_threads c) \<and> yields good rely Q i (pl_threads c ! i) (moment c)" by blast
  moreover have "pool_ok c" by (rule reaches_ok [OF reaches_step.hyps(1) reaches_step.prems(1)])
  moreover have "length (pl_threads c') = length (pl_threads c)" using reaches_step.hyps(2) by (auto elim: movesE)
  ultimately show ?case using moves_yields [OF reaches_step.hyps(2)] by simp
qed simp

lemma reaches_result:
  assumes "reaches c0 c" "pool_ok c0" "i < length (pl_threads c0)" "yields good rely Q i (pl_threads c0 ! i) (moment c0)"
    and "pl_threads c ! i = Finish a"
  shows "Q a (moment c)"
proof -
  have "yields good rely Q i (Finish a) (moment c)" using reaches_yields [OF assms(1-4)] assms(5) by simp
  then show ?thesis by (rule yields_FinishE) (blast intro: rely_refl)
qed

end

section \<open>What a page shows\<close>

text \<open>A certificate that the public may see: it is open, and its file is there.\<close>

definition covered :: "ledger \<Rightarrow> certificate \<Rightarrow> bool" where
  "covered l c \<longleftrightarrow> isOpen c \<and> hasUpload c \<and> abs_files l (certId c) \<noteq> None"

lemma covered_stays: "files_kept l l' \<Longrightarrow> covered l c \<Longrightarrow> covered l' c"
  by (simp add: covered_def files_kept_def)

definition page_certs :: "list_internal option \<Rightarrow> certificate list" where
  "page_certs li = (case li of None \<Rightarrow> [] | Some l \<Rightarrow> (case li_certs l of None \<Rightarrow> [] | Some cs \<Rightarrow> cs))"

lemma open_page_covered:
  assumes "ledger_inv (net_ledger w)" "plain_conditions qc"
    and "getNewBookmarks (connected (couch_env le clock)) (editQueryString open_head qc) n b w = (Ret (li, None, code), w')"
    and "c \<in> set (page_certs li)"
  shows "covered (net_ledger w) c"
proof -
  let ?q = "editQueryString open_head qc"
  note sel = open_query_means [OF assms(2)] flags_there(1) [of "condition_clauses qc"]
  have inv: "service_ledger (net_ledger w)" using assms(1) by (simp add: ledger_inv_def)
  have rows: "\<forall>v \<in> set (couch_rows le ?q (net_ledger w)). row_ok v" using selected_rows_ok [OF sel inv] by blast
  obtain l cs where l: "li = Some l" "li_certs l = Some cs" "c \<in> set cs"
    using assms(4) by (cases li; cases "li_certs (the li)") (auto simp: page_certs_def)
  have "c \<in> row_cert ` set (couch_rows le ?q (net_ledger w))"
    using couch_page_rows [OF rows assms(3) [unfolded l(1)] l(2)] l(3) by blast
  then have "c \<in> set (map row_cert (filter (mango_selects le ?q) (map snd (net_ledger w))))"
    by (auto simp: set_couch_rows)
  then obtain c0 where c0: "c = shorten c0" "c0 \<in> set (stored_certs (net_ledger w))" "isOpen c0"
    unfolding selected_rows [OF sel inv] clauses_hold by auto
  from open_stored_covered [OF assms(1) c0(2,3)] c0(1,3) show ?thesis by (simp add: covered_def shorten_def)
qed

section \<open>The programs of the public list\<close>

text \<open>The certificates in what a request for a list was answered with.\<close>

definition query_certs :: "query_value reply outcome \<Rightarrow> certificate list" where
  "query_certs r = answered (Some (r, ()))"

fun reply_certs :: "served option \<Rightarrow> certificate list" where
  "reply_certs (Some (Answer rp)) =
     (case rp_body rp of
        ResultBody res \<Rightarrow> (case rs_Data res of QueryData v \<Rightarrow> query_certs (Ret (Some v, None, 200)) | _ \<Rightarrow> [])
      | _ \<Rightarrow> [])"
| "reply_certs _ = []"

lemma query_certs_simps [simp]:
  "query_certs (Panic m) = []" "query_certs (Ret (None, x)) = []" "query_certs (Ret (Some (ErrorValue e), x)) = []"
  "query_certs (Ret (Some (ListValue l), x)) = (case cl_certs l of None \<Rightarrow> [] | Some cs \<Rightarrow> cs)"
  by (simp_all add: query_certs_def answered_def)

lemma make_list_certs: "query_certs (make_list n j li) = page_certs li"
  by (simp add: make_list_def page_certs_def split: option.split)

lemma query_reply_certs: "set (reply_certs (Some (query_reply ex cs r))) \<subseteq> set (query_certs r)"
  by (auto simp: query_reply_def encode_result_def deal4xx_def zero_result_def Let_def query_certs_def answered_def
      split: outcome.splits prod.splits option.splits query_value.splits)

abbreviation covers :: "network app \<Rightarrow> event list \<Rightarrow> nat \<Rightarrow> (network server, served option) steps \<Rightarrow> network moment \<Rightarrow> bool" where
  "covers ap evs \<equiv> yields (sound net_ledger ap evs) (others net_ledger)
     (\<lambda>r m. \<forall>c \<in> set (reply_certs r). covered (net_ledger (sv_world (snd m))) c)"

definition all_covered :: "certificate list \<Rightarrow> network moment \<Rightarrow> bool" where
  "all_covered cs m \<longleftrightarrow> (\<forall>c \<in> set cs. covered (net_ledger (sv_world (snd m))) c)"

lemma all_covered_others: "others net_ledger i m m' \<Longrightarrow> all_covered cs m \<Longrightarrow> all_covered cs m'"
  by (auto simp: all_covered_def others_def intro: covered_stays)

lemma all_covered_Nil [simp]: "all_covered [] m"
  by (simp add: all_covered_def)

text \<open>One more page, with the certificates of an earlier page in hand.\<close>

lemma covers_page:
  assumes "plain_conditions qc" "all_covered cs m"
    and k: "\<And>r m. all_covered (query_certs r) m \<Longrightarrow> covers ap evs i (k r) m"
    and "\<And>li e code m. all_covered cs m \<Longrightarrow> (e = None \<Longrightarrow> all_covered (page_certs li) m) \<Longrightarrow> covers ap evs i (g (li, e, code)) m"
  shows "covers ap evs i (call_steps (getNewBookmarks (connected (couch_env le clock)) (editQueryString open_head qc) n b) k g) m"
  unfolding call_steps_def
proof (rule yields_atomically)
  fix past s
  let ?get = "getNewBookmarks (connected (couch_env le clock)) (editQueryString open_head qc) n b"
  assume m: "others net_ledger i m (past, s)" and ok: "sound net_ledger ap evs (past, s)"
  obtain r w where r: "?get (sv_world s) = (r, w)" by force
  have w: "net_ledger w = net_ledger (sv_world s)"
    using net.page_keeps [of "couch_env le clock" "editQueryString open_head qc" n b "sv_world s"] r by simp
  let ?m = "(past @ [(i, s)], s\<lparr>sv_world := w\<rparr>)"
  have cs: "all_covered cs ?m" using all_covered_others [OF m assms(2)] w by (simp add: all_covered_def)
  have "covers ap evs i (case r of Panic msg \<Rightarrow> k (Panic msg) | Ret a \<Rightarrow> g a) ?m"
  proof (cases r)
    case (Ret a)
    obtain li e code where a: "a = (li, e, code)" by (cases a) auto
    have "all_covered (page_certs li) ?m" if "e = None"
      using open_page_covered [OF _ assms(1), of "sv_world s"] r Ret a that ok w by (auto simp: all_covered_def sound_def)
    with cs assms(4) Ret a show ?thesis by simp
  qed (simp add: k)
  then show "covers ap evs i (case fst (world_step ?get s) of Panic m \<Rightarrow> k (Panic m) | Ret a \<Rightarrow> g a)
      (past @ [(i, s)], snd (world_step ?get s))"
    by (simp add: world_step_def r)
qed

lemma covers_finish:
  assumes q: "plain_conditions qc"
    and k: "\<And>r m. all_covered (query_certs r) m \<Longrightarrow> covers ap evs i (k r) m"
  shows "covers ap evs i (finish_steps (connected (couch_env le clock)) (editQueryString open_head qc) n j bms k) m"
  unfolding finish_steps_def Let_def
proof (rule covers_page [OF q all_covered_Nil], erule k, goal_cases)
  case (1 li e code m1)
  show ?case
  proof (cases e)
    case None
    with 1 have li: "all_covered (page_certs li) m1" by simp
    with None show ?thesis
      by (auto simp: make_list_certs intro!: covers_page [OF q] k split: option.split outcome.split)
  qed (simp add: k)
qed

lemma covers_gather:
  assumes "\<And>r m. covers ap evs i (k r) m"
  shows "covers ap evs i (gather_steps fab q n bms b k) m"
proof (coinduction arbitrary: bms b m rule: yields.coinduct)
  case yields
  show ?case
    by (subst (2) gather_steps.code) (auto simp: assms split: sum.split)
qed

lemma covers_list:
  assumes q: "unmarshal_conditions body = (qc, None)" "plain_conditions qc"
    and k: "\<And>r m. all_covered (query_certs r) m \<Longrightarrow> covers ap evs i (k r) m"
  shows "covers ap evs i (list_steps (\<lambda>qc. qc\<lparr>qc_isOpen := True\<rparr>) open_head (connected (couch_env le clock)) body login k) m"
  unfolding list_steps_def rich_query_steps_def q(1)
  by (auto intro!: covers_gather covers_finish k q(2) split: outcome.split sum.split)

lemma covers_any:
  assumes "\<And>r m. covers ap evs i (k r) m"
  shows "covers ap evs i (atomically f k) m"
  by (rule yields_atomically) (rule assms)

lemma covers_isLogin:
  assumes "\<And>b cs m. covers ap evs i (k b cs) m"
  shows "covers ap evs i (isLogin_steps ap ex k) m"
  unfolding isLogin_steps_def start_steps_def get_steps_def
  by (intro covers_any) (auto intro!: covers_any assms split: prod.split)

lemma covers_public_list:
  assumes "ap_fabric ap = connected (couch_env le clock)" "ex_body ex = Inr b" "unmarshal_conditions b = (qc, None)" "plain_conditions qc"
  shows "covers ap evs i (event_steps ap (Request POST [''v1'', ''certificate'', ''openList''] ex)) m"
proof -
  have route: "find_route buildRouter POST [''v1'', ''certificate'', ''openList''] = Some (OpenList, Map.empty)"
    by (simp add: buildRouter_def)
  have done': "covers ap evs i (Finish (Some (query_reply ex' cs r))) m" if "all_covered (query_certs r) m" for ex' cs r m
    using that query_reply_certs [of ex' cs r] by (auto intro!: yields_Finish dest!: all_covered_others simp: all_covered_def)
  show ?thesis
    unfolding event_program [OF route] handler_steps.simps getList_steps_def assms(1)
    using assms(2) by (auto intro!: covers_isLogin covers_list [OF assms(3,4)] done')
qed

section \<open>Property\<close>

text \<open>
  C4: What the public list shows is covered by a file, whoever writes meanwhile. However a request
  for the public list overlaps with others, on a database as CouchDB documents it, every
  certificate in its answer is open and marked as uploaded, and the ledger holds its file when the
  answer is given and ever after, although the pages are read one by one from a changing ledger.
\<close>

theorem overlapping_public_list_covered:
  assumes "ap_fabric ap = connected (couch_env le clock)" "ledger_inv (net_ledger w)" "reaches (accepting ap evs (started d w)) cfg"
    and "i < length evs" "evs ! i = Request POST [''v1'', ''certificate'', ''openList''] ex"
    and "ex_body ex = Inr b" "unmarshal_conditions b = (qc, None)" "plain_conditions qc"
    and "pl_threads cfg ! i = Finish r" "c \<in> set (reply_certs r)"
  shows "isOpen c \<and> hasUpload c \<and> abs_files (net_ledger (sv_world (pl_server cfg))) (certId c) \<noteq> None"
proof -
  let ?c0 = "accepting ap evs (started d w)"
  have t: "i < length (pl_threads ?c0)" "pl_threads ?c0 ! i = event_steps ap (Request POST [''v1'', ''certificate'', ''openList''] ex)"
    using assms(4,5) by (simp_all add: accepting_def)
  have "\<forall>c \<in> set (reply_certs r). covered (net_ledger (sv_world (snd (moment cfg)))) c"
    by (rule server.reaches_result [OF assms(3) net.accepting_ok [OF assms(1,2)] t(1) _ assms(9)])
       (unfold t(2), rule covers_public_list [OF assms(1,6,7,8)])
  with assms(10) show ?thesis by (simp add: covered_def moment_def)
qed

text \<open>Someone asks for the public list of a ledger with an open certificate.\<close>

definition list_request :: event where
  "list_request = Request POST [''v1'', ''certificate'', ''openList''] (sample_exchange None list_body)"

lemma overlapping_public_list_covered_witness:
  "\<exists>cfg r. reaches (accepting (sample_app (couch_env (=) (\<lambda>_. 0))) [list_request] (started fresh_disk (sample_net filed_ledger))) cfg
     \<and> pl_threads cfg ! 0 = Finish r \<and> shorten open_cert \<in> set (reply_certs r)
     \<and> abs_files (net_ledger (sv_world (pl_server cfg))) (certId (shorten open_cert)) \<noteq> None"
proof -
  let ?ap = "sample_app (couch_env (=) (\<lambda>_. 0))" and ?ex = "sample_exchange None list_body" and ?s = "started fresh_disk (sample_net filed_ledger)"
  let ?c0 = "accepting ?ap [list_request] ?s"
  have route: "find_route buildRouter POST [''v1'', ''certificate'', ''openList''] = Some (OpenList, Map.empty)"
    by (simp add: buildRouter_def)
  obtain b cs s1 where l: "isLogin ?ap (routed Map.empty ?ex) ?s = (b, cs, s1)" by (cases "isLogin ?ap (routed Map.empty ?ex) ?s") auto
  have s1: "sv_world s1 = sample_net filed_ledger"
    using isLogin_law(2) [OF started_sessions(1) l] by (simp add: started_def)
  obtain w' where w': "OpenListRichQuery (connected (couch_env (=) (\<lambda>_. 0))) list_body b (sample_net filed_ledger)
      = Some (list_answer [shorten open_cert] list_conditions, w')"
    using filed_list_answer [of b] by auto
  let ?reply = "query_reply (routed Map.empty ?ex) cs (list_answer [shorten open_cert] list_conditions)"
  have "serve POST [''v1'', ''certificate'', ''openList''] ?ap ?ex ?s = (?reply, s1\<lparr>sv_world := w'\<rparr>)"
    by (simp add: serve_routed route getOpenList_def l s1 w')
  then have "run_steps (event_steps ?ap list_request) ?s = Some (Some ?reply, s1\<lparr>sv_world := w'\<rparr>)"
    by (simp add: list_request_def run_event_steps(1))
  then obtain cfg where cfg: "reaches ?c0 cfg" "pl_threads cfg = (pl_threads ?c0)[0 := Finish (Some ?reply)]"
    by (rule reaches_run [where i = 0 and c = ?c0]) (auto simp: accepting_def)
  have fin: "pl_threads cfg ! 0 = Finish (Some ?reply)" by (simp add: cfg(2) accepting_def)
  have cert: "shorten open_cert \<in> set (reply_certs (Some ?reply))"
    using shown_open_cert by (simp add: query_reply_def encode_result_def list_answer_def Let_def appended_def)
  have inv: "ledger_inv (net_ledger (sample_net filed_ledger))" using filed_ledger_inv by simp
  from overlapping_public_list_covered [OF sample_app_fabric inv cfg(1) _ _ _ list_body list_conditions_ok(1) fin cert] cfg(1) fin cert
  show ?thesis by (auto simp: list_request_def)
qed

end
