(* ===== verification/Paging.thy ===== *)
theory Paging
  imports Answers Listing
begin

text \<open>
  The lists among writers. The loop over the pages may run for ever against an arbitrary database.
  On one that answers as CouchDB documents, its position in the result only grows, and only a
  request that writes can make the result longer. So a list request too is answered, after a
  number of steps that grows by one for every step of another kind of request.
\<close>

section \<open>Requests that only read pages\<close>

definition list_event :: "event \<Rightarrow> bool" where
  "list_event e =
     (case e of
        Request meth path ex \<Rightarrow>
          (case find_route buildRouter meth path of
             None \<Rightarrow> False
           | Some (t, params) \<Rightarrow> t \<in> {OpenList, DeletedList, DraftList})
      | Collect \<Rightarrow> False)"

text \<open>The steps made so far by all but the lists.\<close>

definition other_steps :: "event list \<Rightarrow> 'w past \<Rightarrow> nat" where
  "other_steps evs past = length (filter (\<lambda>(j, s). \<not> list_event (evs ! j)) past)"

lemma other_steps_simps [simp]:
  "other_steps evs [] = 0"
  "other_steps evs (past @ [(j, s)]) = other_steps evs past + (if list_event (evs ! j) then 0 else 1)"
  by (simp_all add: other_steps_def)

text \<open>A silent program leaves the ledger as it is, whatever has happened before.\<close>

abbreviation silent :: "nat \<Rightarrow> (network server, 'a) steps \<Rightarrow> network moment \<Rightarrow> bool" where
  "silent \<equiv> obeys (\<lambda>_. True) (\<lambda>_ _ _. True)
     (\<lambda>_ m m'. net_ledger (sv_world (snd m')) = net_ledger (sv_world (snd m)))"

lemma silent_atomically:
  assumes "\<And>s. net_ledger (sv_world (snd (f s))) = net_ledger (sv_world s)" "\<And>r m. silent i (k r) m"
  shows "silent i (atomically f k) m"
  by (rule obeys_atomically) (simp add: assms)

lemma ledger_world_step: "net_ledger (sv_world (snd (world_step f s))) = net_ledger (snd (f (sv_world s)))"
  by (simp add: world_step_def split: prod.split)

lemma silent_call:
  assumes "\<And>w. net_ledger (snd (f w)) = net_ledger w" "\<And>r m. silent i (k r) m" "\<And>a m. silent i (g a) m"
  shows "silent i (call_steps f k g) m"
  unfolding call_steps_def
  by (rule silent_atomically) (simp_all add: assms ledger_world_step split: outcome.split)

lemma silent_gather:
  assumes "\<And>r m. silent i (k r) m"
  shows "silent i (gather_steps (connected env) q n bms b k) m"
proof (coinduction arbitrary: bms b m rule: obeys.coinduct)
  case obeys
  show ?case
    by (subst (2) gather_steps.code) (auto simp: ledger_world_step net.page_keeps assms split: sum.split)
qed

lemma silent_finish:
  assumes "\<And>r m. silent i (k r) m"
  shows "silent i (finish_steps (connected env) q n j bms k) m"
  unfolding finish_steps_def Let_def
  by (auto intro!: silent_call [OF net.page_keeps assms] assms split: prod.split option.split outcome.split)

lemma silent_isLogin:
  assumes "\<And>b cs m. silent i (k b cs) m"
  shows "silent i (isLogin_steps ap ex k) m"
  unfolding isLogin_steps_def start_steps_def get_steps_def
  by (intro silent_atomically)
     (auto simp: start_session_def Let_def intro!: silent_atomically assms split: prod.split)

lemma silent_list:
  assumes "ap_fabric ap = connected env"
  shows "silent i (getList_steps adjust head ap ex (\<lambda>r. Finish (Some r))) m"
  unfolding getList_steps_def list_steps_def rich_query_steps_def assms
  by (auto intro!: obeys_Finish silent_isLogin silent_gather silent_finish split: sum.split prod.split option.split outcome.split)

lemma silent_event:
  assumes "ap_fabric ap = connected env" "list_event e"
  shows "silent i (event_steps ap e) m"
proof (cases e)
  case (Request meth path ex)
  with assms(2) obtain t params where t: "find_route buildRouter meth path = Some (t, params)" "t \<in> {OpenList, DeletedList, DraftList}"
    by (auto simp: list_event_def split: option.splits)
  then show ?thesis
    unfolding Request event_program [OF t(1)] by (auto simp: silent_list [OF assms(1)] simp del: split_paired_All)
qed (use assms(2) in \<open>simp add: list_event_def\<close>)

section \<open>How the ledger grows\<close>

lemma moves_grow:
  assumes "server.pool_ok net_ledger ap evs c" "moves j c c'"
  shows "length (net_ledger (sv_world (pl_server c))) \<le> length (net_ledger (sv_world (pl_server c')))"
    "length (net_ledger (sv_world (pl_server c'))) \<le> Suc (length (net_ledger (sv_world (pl_server c))))"
  using server.moves_ok(2) [OF assms(2,1)] length_transact by (auto simp: mine_def moment_def)

lemma reaches_grow:
  assumes "reaches c c'" "server.pool_ok net_ledger ap evs c"
  shows "length (net_ledger (sv_world (pl_server c))) \<le> length (net_ledger (sv_world (pl_server c')))"
  using assms
proof (induction rule: reaches.induct)
  case (reaches_step c c' j c'')
  then show ?case using moves_grow(1) [OF server.reaches_ok [OF reaches_step.hyps(1)]] by (meson le_trans)
qed simp

lemma ledger_grows:
  assumes "ap_fabric ap = connected env" "ledger_inv (net_ledger w)" "reaches (accepting ap evs (started d w)) c"
  shows "length (net_ledger (sv_world (pl_server c))) \<le> length (net_ledger w) + other_steps evs (pl_past c)
    \<and> length (pl_threads c) = length evs
    \<and> (\<forall>j < length evs. list_event (evs ! j) \<longrightarrow> silent j (pl_threads c ! j) (moment c))"
proof -
  let ?c0 = "accepting ap evs (started d w)"
  have ok: "server.pool_ok net_ledger ap evs ?c0" by (rule net.accepting_ok [OF assms(1,2)])
  have "reaches c0 c \<Longrightarrow> c0 = ?c0 \<Longrightarrow>
    length (net_ledger (sv_world (pl_server c))) \<le> length (net_ledger w) + other_steps evs (pl_past c)
    \<and> length (pl_threads c) = length evs
    \<and> (\<forall>j < length evs. list_event (evs ! j) \<longrightarrow> silent j (pl_threads c ! j) (moment c))" for c0 c
  proof (induction rule: reaches.induct)
    case (reaches_refl c)
    then show ?case using silent_event [OF assms(1)] by (auto simp: accepting_def started_def)
  next
    case (reaches_step c0 c j c')
    then have IH: "length (net_ledger (sv_world (pl_server c))) \<le> length (net_ledger w) + other_steps evs (pl_past c)"
      "length (pl_threads c) = length evs"
      "\<And>j. j < length evs \<Longrightarrow> list_event (evs ! j) \<Longrightarrow> silent j (pl_threads c ! j) (moment c)" by blast+
    have grow: "length (net_ledger (sv_world (pl_server c'))) \<le> Suc (length (net_ledger (sv_world (pl_server c))))"
      using moves_grow(2) [OF server.reaches_ok [OF reaches_step.hyps(1)] reaches_step.hyps(2)] ok reaches_step.prems by simp
    obtain u k where c': "j < length (pl_threads c)" "pl_threads c ! j = Step u k"
      "c' = \<lparr>pl_threads = (pl_threads c)[j := k (pl_server c)], pl_past = pl_past c @ [(j, pl_server c)], pl_server = u (pl_server c)\<rparr>"
      using reaches_step.hyps(2) by (rule movesE) blast
    have any: "silent i p m \<Longrightarrow> silent i p m'" for i and p :: "network thread" and m m'
      by (erule obeys.cases) (auto intro: obeys_Finish obeys_Step)
    have "silent i (pl_threads c' ! i) (moment c')" if "i < length evs" "list_event (evs ! i)" for i
      using IH(3) [OF that] that c' by (cases "i = j") (auto elim!: obeys_StepE any)
    moreover have "net_ledger (sv_world (pl_server c')) = net_ledger (sv_world (pl_server c))" if "list_event (evs ! j)"
      using IH(3) [OF _ that] IH(2) c' by (auto elim!: obeys_StepE)
    ultimately show ?case using IH(1,2) grow c' by auto
  qed
  with assms(3) show ?thesis by blast
qed

section \<open>The loop over the pages\<close>

lemma parse_itoa_nat: "parse_int bits (itoa (int k)) = (if fits bits (int k) then Some (int k) else None)"
proof -
  obtain c cs where c: "decimal k = c # cs" "is_digit c" using decimal_first by blast
  then have "parse_digits (c # cs) = Some k" by (metis parse_digits_decimal)
  then show ?thesis using c digit_not_sign [OF c(2)] by (simp add: parse_int_def itoa_def)
qed

lemma couch_pos_itoa: "couch_pos (itoa (int k)) = Some k \<or> couch_pos (itoa (int k)) = None"
proof -
  have "itoa (int k) \<noteq> ''''" using decimal_first [of k] by (auto simp: itoa_def)
  then show ?thesis by (simp add: couch_pos_def parse_itoa_nat)
qed

text \<open>What a call for a page returns, from whatever bookmark.\<close>

lemma couch_call:
  assumes "\<forall>v \<in> set (couch_rows le q (net_ledger w)). row_ok v"
  obtains (page) k li w' where "couch_pos b = Some k"
      "getNewBookmarks (connected (couch_env le clock)) q n b w = (Ret (Some li, None, 200), w')"
      "li_pageCount li = 0 \<or> (\<exists>j > k. j \<le> length (net_ledger w) \<and> li_bookmark li = itoa (int j))"
  | (refused) e w' where "getNewBookmarks (connected (couch_env le clock)) q n b w = (Ret (None, Some e, 400), w')"
proof -
  let ?p = "couch_peer le (clock (net_tick w))"
  have failed: thesis if "\<exists>e. fst (transact ?p [''queryList'', q, itoa n, b] (net_ledger w)) = Ret (Failure e)"
    using that refused by (auto simp: getNewBookmarks_def healthy_query)
  show thesis
  proof (cases "parse_int 32 (itoa n)")
    case None
    then show thesis by (intro failed) (simp add: transact_def queryList_def)
  next
    case (Some v)
    then have v: "fits 32 v" by (rule parse_int_fits)
    show thesis
    proof (cases "couch_pos b")
      case None
      with Some show thesis
        by (intro failed)
           (simp add: transact_def queryList_def getQueryResultForQueryStringWithPagination_def couch_peer_def couch_query_def)
    next
      case pos: (Some k)
      let ?pg = "take (nat v) (drop k (couch_rows le q (net_ledger w)))"
      have len: "length ?pg \<le> length (net_ledger w) - k" using length_couch_rows [of le q "net_ledger w"] by auto
      have later: "int (length ?pg) = 0 \<or> (\<exists>j > k. j \<le> length (net_ledger w) \<and> itoa (int (k + length ?pg)) = itoa (int j))"
      proof (cases "length ?pg = 0")
        case False
        with len have "k < k + length ?pg" "k + length ?pg \<le> length (net_ledger w)" by linarith+
        then show ?thesis by blast
      qed simp
      have "getNewBookmarks (connected (couch_env le clock)) q n b w = getNewBookmarks (connected (couch_env le clock)) q v b w"
        using Some parse_int_itoa [OF v] by (simp add: getNewBookmarks_def healthy_query transact_def queryList_def)
      also note couch_page [OF v pos assms]
      finally show thesis by (rule page [OF pos]) (use later in simp)
    qed
  qed
qed

abbreviation small :: "nat \<Rightarrow> network server \<Rightarrow> bool" where
  "small N s \<equiv> ledger_inv (net_ledger (sv_world s)) \<and> length (net_ledger (sv_world s)) \<le> N"

text \<open>A query that selects rows that read back, whatever the ledger.\<close>

definition cert_query :: "string \<Rightarrow> bool" where
  "cert_query q \<longleftrightarrow> (\<exists>cs b. json_parse q = Some (conjunction cs) \<and> flag_clause ''isDeleted'' b \<in> set cs)"

lemma cert_query_rows:
  "cert_query q \<Longrightarrow> ledger_inv l \<Longrightarrow> \<forall>v \<in> set (couch_rows le q l). row_ok v"
  unfolding cert_query_def ledger_inv_def using selected_rows_ok by blast

lemma ends_page:
  assumes "cert_query q"
    and "\<And>e. ends_within (small N) P m (g (None, Some e, 400))" "\<And>li. ends_within (small N) P m (g (Some li, None, 200))"
  shows "ends_within (small N) P (Suc m) (call_steps (getNewBookmarks (connected (couch_env le clock)) q n b) k g)"
  unfolding call_steps_def
proof (rule ends_atomically)
  fix s :: "network server" assume s: "small N s"
  then have "\<forall>v \<in> set (couch_rows le q (net_ledger (sv_world s))). row_ok v" using cert_query_rows [OF assms(1)] by blast
  then show "ends_within (small N) P m (case fst (world_step (getNewBookmarks (connected (couch_env le clock)) q n b) s) of
      Panic msg \<Rightarrow> k (Panic msg) | Ret a \<Rightarrow> g a)"
    by (cases rule: couch_call [where b = b and clock = clock and n = n]) (simp_all add: world_step_def assms(2,3))
qed

text \<open>One round of the loop: it stops, or goes on from a later row.\<close>

lemma ends_round:
  assumes "cert_query q" "\<And>r. ends_within (small N) P m (k (Ret r))"
    and "\<And>p j bms. couch_pos b = Some p \<Longrightarrow> p < j \<Longrightarrow> j \<le> N \<Longrightarrow>
       ends_within (small N) P m (gather_steps (connected (couch_env le clock)) q n bms (itoa (int j)) k)"
  shows "ends_within (small N) P (Suc m) (gather_steps (connected (couch_env le clock)) q n bms b k)"
  unfolding gather_steps.code [of _ q n bms b k] ends_within.simps steps.case
proof (intro allI impI)
  fix s :: "network server" assume s: "small N s"
  then have "\<forall>v \<in> set (couch_rows le q (net_ledger (sv_world s))). row_ok v" using cert_query_rows [OF assms(1)] by blast
  then show "ends_within (small N) P m
      (case after_bookmarks bms (fst (world_step (getNewBookmarks (connected (couch_env le clock)) q n b) s)) of
         Inl r \<Rightarrow> k r | Inr b' \<Rightarrow> gather_steps (connected (couch_env le clock)) q n (bms @ [b']) b' k)"
    by (cases rule: couch_call [where b = b and clock = clock and n = n])
       (use s in \<open>auto simp: world_step_def after_bookmarks_def assms(2) intro!: assms(3)\<close>)
qed

lemma ends_gather:
  assumes "cert_query q" "\<And>r. ends_within (small N) P m (k (Ret r))"
  shows "(\<And>p. couch_pos b = Some p \<Longrightarrow> p \<le> N \<and> N - p \<le> d) \<Longrightarrow>
    ends_within (small N) P (Suc d + m) (gather_steps (connected (couch_env le clock)) q n bms b k)"
proof (induction d arbitrary: bms b)
  case (Suc d)
  have k: "ends_within (small N) P (Suc d + m) (k (Ret r))" for r by (rule ends_more [OF assms(2)]) simp
  have next': "ends_within (small N) P (Suc d + m) (gather_steps (connected (couch_env le clock)) q n bms (itoa (int j)) k)"
    if "couch_pos b = Some p" "p < j" "j \<le> N" for p j bms
    by (rule Suc.IH) (use Suc.prems [OF that(1)] that(2,3) couch_pos_itoa [of j] in auto)
  have "ends_within (small N) P (Suc (Suc d + m)) (gather_steps (connected (couch_env le clock)) q n bms b k)"
    by (rule ends_round [OF assms(1)], rule k, rule next')
  then show ?case by simp
next
  case 0
  have "ends_within (small N) P (Suc m) (gather_steps (connected (couch_env le clock)) q n bms b k)"
    by (rule ends_round [OF assms(1)], rule assms(2)) (use 0 in force)
  then show ?case by simp
qed

lemma ends_finish:
  assumes "cert_query q" "\<And>r. ends_within (small N) P m (k (Ret r))"
  shows "ends_within (small N) P (Suc (Suc (Suc m))) (finish_steps (connected (couch_env le clock)) q n j bms k)"
proof -
  have k: "ends_within (small N) P (Suc m) (k (Ret r))" "ends_within (small N) P (Suc (Suc m)) (k (Ret r))" for r
    using ends_more [OF assms(2)] by simp_all
  show ?thesis
    unfolding finish_steps_def Let_def
    by (rule ends_page [OF assms(1)])
       (auto simp: page_count_def make_list_def intro!: ends_page [OF assms(1)] assms(2) k)
qed

text \<open>A request for a list: two steps for the login, the loop, and three more pages at most.\<close>

lemma ends_list:
  assumes "ap_fabric ap = connected (couch_env le clock)" "ex_write ex = None"
    and query: "\<And>b qc. ex_body ex = Inr b \<Longrightarrow> unmarshal_conditions b = (qc, None) \<Longrightarrow> cert_query (editQueryString head (adjust qc))"
  shows "ends_within (small N) replied (6 + N) (getList_steps adjust head ap ex (\<lambda>r. Finish (Some r)))"
proof (cases "\<exists>b qc. ex_body ex = Inr b \<and> unmarshal_conditions b = (qc, None)")
  case True
  then obtain b qc where b: "ex_body ex = Inr b" "unmarshal_conditions b = (qc, None)" by blast
  note q = query [OF b]
  let ?q = "editQueryString head (adjust qc)" and ?n = "qc_pageSize (adjust qc)"
  have reply: "\<exists>rp. query_reply ex cs (Ret r) = Answer rp" for cs r
    by (cases r) (auto simp: query_reply_def intro!: answers [OF assms(2)] split: option.split)
  have gather: "ends_within (small N) replied (4 + N) (gather_steps (connected (couch_env le clock)) ?q ?n [[]] [] k)"
    if "\<And>r. ends_within (small N) replied 3 (k (Ret r))" for k
  proof -
    have "ends_within (small N) replied (Suc N + 3) (gather_steps (connected (couch_env le clock)) ?q ?n [[]] [] k)"
      by (rule ends_gather [OF q], rule that) (simp add: couch_pos_def)
    then show ?thesis by (simp add: add.commute)
  qed
  have finish: "ends_within (small N) replied 3
      (finish_steps (connected (couch_env le clock)) ?q ?n j bms (\<lambda>r. Finish (Some (query_reply ex cs r))))" for j bms cs
    using ends_finish [OF q, of N replied 0 "\<lambda>r. Finish (Some (query_reply ex cs r))"] reply
    by (simp add: numeral_3_eq_3)
  have "ends_within (small N) replied (Suc (Suc (4 + N))) (getList_steps adjust head ap ex (\<lambda>r. Finish (Some r)))"
    unfolding getList_steps_def list_steps_def rich_query_steps_def assms(1) b sum.case prod.case option.case
    by (rule ends_isLogin) (auto intro!: reply gather finish split: sum.split)
  then show ?thesis by simp
next
  case False
  have reply: "\<exists>rp. query_reply ex cs (Ret r) = Answer rp" for cs r
    by (cases r) (auto simp: query_reply_def intro!: answers [OF assms(2)] split: option.split)
  have "ends_within (small N) replied (Suc (Suc (4 + N))) (getList_steps adjust head ap ex (\<lambda>r. Finish (Some r)))"
  proof (cases "ex_body ex")
    case (Inr x)
    then show ?thesis
      unfolding getList_steps_def list_steps_def Inr sum.case
      by (intro ends_isLogin) (use False Inr in \<open>auto intro!: reply split: prod.split option.split\<close>)
  qed (auto simp: getList_steps_def intro!: answers [OF assms(2)])
  then show ?thesis by simp
qed

lemma list_queries:
  assumes "plain_conditions qc"
  shows "cert_query (editQueryString open_head (qc\<lparr>qc_isOpen := True\<rparr>))"
    "cert_query (editQueryString deleted_head qc)" "cert_query (editQueryString draft_head qc)"
  unfolding cert_query_def
  using open_query_means [of "qc\<lparr>qc_isOpen := True\<rparr>"] deleted_query_means [OF assms] draft_query_means [OF assms] assms flags_there
  by (metis open_flag_ignored(1))+

section \<open>Property\<close>

text \<open>
  C6: A list request is answered too, whoever writes meanwhile. On a database as CouchDB documents
  it, in every interleaving of any requests and collector runs, a request for one of the three
  lists has either been answered or can make its next step at once, and it has made no more steps
  than six, one for every entry of the ledger at the start, and one for every step of a request
  that is not for a list. So lists cannot delay each other, and a list that many write to ends as
  soon as they pause.
\<close>

theorem overlapping_lists_answered:
  assumes net: "ap_fabric ap = connected (couch_env le clock)" "ledger_inv (net_ledger w)" "reaches (accepting ap evs (started d w)) c"
    and req: "i < length evs" "evs ! i = Request meth path ex" "find_route buildRouter meth path = Some (t, params)"
    and "t \<in> {OpenList, DeletedList, DraftList}" "ex_write ex = None"
    and plain: "\<And>b qc. ex_body ex = Inr b \<Longrightarrow> unmarshal_conditions b = (qc, None) \<Longrightarrow> plain_conditions qc"
  shows "length (moments i (pl_past c)) \<le> 6 + length (net_ledger w) + other_steps evs (pl_past c)
    \<and> ((\<exists>rp. pl_threads c ! i = Finish (Some (Answer rp)))
       \<or> length (moments i (pl_past c)) < 6 + length (net_ledger w) + other_steps evs (pl_past c) \<and> (\<exists>c'. moves i c c'))"
proof -
  let ?c0 = "accepting ap evs (started d w)"
  define N where "N = length (net_ledger w) + other_steps evs (pl_past c)"
  have pool: "server.pool_ok net_ledger ap evs ?c0" by (rule net.accepting_ok [OF net(1,2)])
  have ok: "small N (pl_server c')" if "reaches ?c0 c'" "reaches c' c" for c'
  proof -
    have p: "server.pool_ok net_ledger ap evs c'" by (rule server.reaches_ok [OF that(1) pool])
    have "length (net_ledger (sv_world (pl_server c'))) \<le> N"
      using reaches_grow [OF that(2) p] ledger_grows [OF net] by (simp add: N_def)
    with p show ?thesis by (simp add: server.pool_ok_def sound_def moment_def)
  qed
  have "ends_within (small N) replied (6 + N) (handler_steps t ap (routed params ex) (\<lambda>r. Finish (Some r)))"
    using assms(7) by (auto intro!: ends_list [OF net(1)] list_queries dest!: plain simp: assms(8))
  then have "ends_within (small N) replied (6 + N) (pl_threads ?c0 ! i)"
    using req by (simp add: accepting_def event_program)
  from reaches_ends [OF net(3) ok _ _ this] req(1) obtain m where
    m: "i < length (pl_threads c)" "length (moments i (pl_past c)) + m = 6 + N" "ends_within (small N) replied m (pl_threads c ! i)"
    by (auto simp: accepting_def)
  have c: "small N (pl_server c)" by (rule ok [OF net(3) reaches_refl])
  show ?thesis
  proof (cases "pl_threads c ! i")
    case (Finish r)
    with m show ?thesis by (cases r) (auto simp: replied_def N_def)
  next
    case (Step u k)
    with m show ?thesis using moves.intros [OF m(1) Step] by (auto simp: ends_Step N_def)
  qed
qed

text \<open>Someone asks for the public list while someone else logs in.\<close>

definition list_pool :: "network pool" where
  "list_pool = schedule [0, 1, 0, 0, 1, 0]
     (accepting (sample_app (couch_env text_le (\<lambda>_. 0))) [list_request, login_request] (started fresh_disk (sample_net filed_ledger)))"

lemma overlapping_lists_answered_witness:
  "length (moments 0 (pl_past list_pool)) \<le> 8 + other_steps [list_request, login_request] (pl_past list_pool)
    \<and> ((\<exists>rp. pl_threads list_pool ! 0 = Finish (Some (Answer rp))) \<or> (\<exists>c'. moves 0 list_pool c'))"
proof -
  have route: "find_route buildRouter POST [''v1'', ''certificate'', ''openList''] = Some (OpenList, Map.empty)"
    by (simp add: buildRouter_def)
  have inv: "ledger_inv (net_ledger (sample_net filed_ledger))" using filed_ledger_inv by simp
  have len: "length filed_ledger = 2" by (simp add: filed_ledger_def)
  have plain: "plain_conditions qc" if "ex_body (sample_exchange None list_body) = Inr b" "unmarshal_conditions b = (qc, None)" for b qc
    using that list_body list_conditions_ok(1) by simp
  have "length (moments 0 (pl_past list_pool)) \<le> 6 + length (net_ledger (sample_net filed_ledger)) + other_steps [list_request, login_request] (pl_past list_pool)
    \<and> ((\<exists>rp. pl_threads list_pool ! 0 = Finish (Some (Answer rp)))
       \<or> length (moments 0 (pl_past list_pool)) < 6 + length (net_ledger (sample_net filed_ledger)) + other_steps [list_request, login_request] (pl_past list_pool)
         \<and> (\<exists>c'. moves 0 list_pool c'))"
    unfolding list_pool_def
    by (rule overlapping_lists_answered [OF sample_app_fabric inv reaches_schedule _ _ route _ _ plain, where ex = "sample_exchange None list_body"])
       (simp_all add: list_request_def)
  then show ?thesis by (auto simp: len)
qed

end
