(* ===== verification/Refinement.thy ===== *)
theory Refinement
  imports Overlaps
begin

text \<open>
  What the whole service promises, as a small machine of three actions, and the proof that every
  interleaving of requests is a run of it. The machine knows the two maps of the contract and the
  sessions under which a right password was given; it lets such a session post a certificate,
  an open one only over its file, and upload a PDF file; nothing else changes the maps.
\<close>

section \<open>The specification\<close>

record service_spec =
  sp_registry :: registry
  sp_given :: "string set"

text \<open>
  A file is filed under the identifier its text decodes to, with which the upload was made unless
  that is no valid UTF-8.
\<close>

inductive spec_step :: "service_spec \<Rightarrow> service_spec \<Rightarrow> bool" where
  give_password: "spec_step g (g\<lparr>sp_given := insert sid (sp_given g)\<rparr>)"
| post: "sid \<in> sp_given g \<Longrightarrow> isOpen c \<longrightarrow> hasUpload c \<and> reg_files (sp_registry g) (certId c) \<noteq> None \<Longrightarrow>
    spec_step g (g\<lparr>sp_registry := apply_effect (StoreCert (c\<lparr>updateDate := format_prc t\<rparr>)) (sp_registry g)\<rparr>)"
| upload: "sid \<in> sp_given g \<Longrightarrow> is_pdf buf \<Longrightarrow> v = marshal_file (file_record i buf) \<Longrightarrow>
    j = cf_certId (fst (unmarshal_cc_file v)) \<Longrightarrow>
    spec_step g (g\<lparr>sp_registry := apply_effect (StoreFile j v) (sp_registry g)\<rparr>)"

definition spec_of :: "network app \<Rightarrow> event list \<Rightarrow> network pool \<Rightarrow> service_spec" where
  "spec_of ap evs c = \<lparr>sp_registry = abs_registry (net_ledger (sv_world (pl_server c))),
                       sp_given = {sid. password_given ap evs (pl_past c) sid}\<rparr>"

section \<open>One move\<close>

text \<open>What an invocation of the service does to the two maps.\<close>

lemma service_effect:
  assumes "service_call l args"
  obtains "effect_of p args = NoEffect"
  | c t where "effect_of p args = StoreCert (c\<lparr>updateDate := format_prc t\<rparr>)"
      "isOpen c \<longrightarrow> hasUpload c \<and> abs_files l (certId c) \<noteq> None"
  | i buf where "is_pdf buf" "effect_of p args = StoreFile (cf_certId (fst (unmarshal_cc_file (marshal_file (file_record i buf)))))
      (marshal_file (file_record i buf))"
  using assms unfolding service_call_def
proof (elim disjE exE conjE)
  fix c assume c: "args = [''postCertificate'', marshal_cert c]" "cert_ok c"
    "isOpen c \<longrightarrow> hasUpload c \<and> abs_files l (certId c) \<noteq> None"
  then have "effect_of p args = NoEffect \<or> effect_of p args = StoreCert (c\<lparr>updateDate := format_prc (unix_now p)\<rparr>)"
    by (simp add: effect_of_def cert_roundtrip)
  then show thesis using that(1,2) c(3) by blast
next
  fix i buf assume f: "args = [''postUploadFile'', marshal_file (file_record i buf)]" "is_pdf buf"
  then have "effect_of p args = NoEffect \<or> effect_of p args
      = StoreFile (cf_certId (fst (unmarshal_cc_file (marshal_file (file_record i buf))))) (marshal_file (file_record i buf))"
    by (auto simp: effect_of_def split: prod.split option.split)
  then show thesis using that(1,3) f(2) by blast
qed

text \<open>A move tells at most one new session a password.\<close>

lemma began_snoc: "began (past @ [(i, s)]) j s' \<longleftrightarrow> began past j s' \<or> moments j past = [] \<and> j = i \<and> s' = s"
  by (cases "moments j past") (auto simp: began_def)

lemma given_snoc:
  "{sid. password_given ap evs (past @ [(i, s)]) sid} = {sid. password_given ap evs past sid}
   \<or> (\<exists>sid0. {sid. password_given ap evs (past @ [(i, s)]) sid} = insert sid0 {sid. password_given ap evs past sid})"
proof -
  let ?new = "{sid. i < length evs \<and> moments i past = [] \<and> login_event ap (evs ! i) s sid}"
  have "{sid. password_given ap evs (past @ [(i, s)]) sid} = {sid. password_given ap evs past sid} \<union> ?new"
    unfolding password_given_def began_snoc by blast
  moreover have "?new = {} \<or> (\<exists>sid0. ?new = {sid0})"
    by (cases "evs ! i") (auto simp: login_event_def)
  ultimately show ?thesis by auto
qed

lemma move_simulated:
  assumes "server.pool_ok net_ledger ap evs c" "moves i c c'"
  shows "spec_step\<^sup>*\<^sup>* (spec_of ap evs c) (spec_of ap evs c')"
proof -
  let ?l = "net_ledger (sv_world (pl_server c))" and ?l' = "net_ledger (sv_world (pl_server c'))"
  let ?g = "spec_of ap evs c"
  let ?mid = "?g\<lparr>sp_registry := abs_registry ?l'\<rparr>"
  have "mine net_ledger ap evs i (moment c) (moment c')" by (rule server.moves_ok(2) [OF assms(2,1)])
  then consider "?l' = ?l"
    | p args where "entitled ap evs i (pl_past c)" "service_call ?l args" "?l' = snd (transact p args ?l)"
    by (auto simp: mine_def moment_def)
  then have "spec_step\<^sup>*\<^sup>* ?g ?mid"
  proof cases
    case 1
    then show ?thesis by (simp add: spec_of_def)
  next
    case 2
    obtain sid where sid: "sid \<in> sp_given ?g" using 2(1) by (auto simp: entitled_def spec_of_def)
    have reg: "abs_registry ?l' = apply_effect (effect_of p args) (sp_registry ?g)"
      by (simp add: 2(3) transact_abs spec_of_def)
    show ?thesis
    proof (cases rule: service_effect [OF 2(2), of p])
      case 1
      with reg show ?thesis by simp
    next
      case (2 x t)
      then show ?thesis
        unfolding reg 2(1)
        by (intro r_into_rtranclp spec_step.post [OF sid]) (simp add: spec_of_def abs_registry_def)
    next
      case (3 cid buf)
      show ?thesis
        unfolding reg 3(2) by (intro r_into_rtranclp spec_step.upload [OF sid 3(1)]) simp_all
    qed
  qed
  also have "spec_step\<^sup>*\<^sup>* ?mid (spec_of ap evs c')"
  proof -
    have past: "pl_past c' = pl_past c @ [(i, pl_server c)]" using assms(2) by (auto elim: movesE)
    have "?mid = spec_of ap evs c' \<or> (\<exists>sid0. spec_of ap evs c' = ?mid\<lparr>sp_given := insert sid0 (sp_given ?mid)\<rparr>)"
      using given_snoc [of ap evs "pl_past c" i "pl_server c"] by (auto simp: spec_of_def past)
    then show ?thesis
    proof (elim disjE exE)
      fix sid0 assume "spec_of ap evs c' = ?mid\<lparr>sp_given := insert sid0 (sp_given ?mid)\<rparr>"
      then show ?thesis using spec_step.give_password [of ?mid sid0] by (simp only: r_into_rtranclp)
    qed simp
  qed
  finally show ?thesis .
qed

section \<open>Property\<close>

text \<open>
  C1: The service refines its specification, however requests overlap. On any network with the
  contract, and for any interleaving of the steps of any requests and collector runs, what the
  ledger holds comes about by posts and uploads alone, each made under a session in which a right
  password had been given, each upload of a PDF file, and each post of an open certificate at a
  moment when its file was on the ledger.
\<close>

theorem overlapping_requests_refine_spec:
  assumes "ap_fabric ap = connected env" "ledger_inv (net_ledger w)" "reaches (accepting ap evs (started d w)) c"
  shows "spec_step\<^sup>*\<^sup>* \<lparr>sp_registry = abs_registry (net_ledger w), sp_given = {}\<rparr>
     \<lparr>sp_registry = abs_registry (net_ledger (sv_world (pl_server c))), sp_given = {sid. password_given ap evs (pl_past c) sid}\<rparr>"
proof -
  let ?c0 = "accepting ap evs (started d w)"
  have ok: "server.pool_ok net_ledger ap evs ?c0" by (rule net.accepting_ok [OF assms(1,2)])
  have "spec_of ap evs ?c0 = \<lparr>sp_registry = abs_registry (net_ledger w), sp_given = {}\<rparr>"
    by (simp add: spec_of_def accepting_def started_def password_given_def began_def)
  moreover have "reaches a c \<Longrightarrow> server.pool_ok net_ledger ap evs a \<Longrightarrow> spec_step\<^sup>*\<^sup>* (spec_of ap evs a) (spec_of ap evs c)" for a c
  proof (induction rule: reaches.induct)
    case (reaches_step a c i c')
    from move_simulated [OF server.reaches_ok [OF reaches_step.hyps(1) reaches_step.prems] reaches_step.hyps(2)] reaches_step
    show ?case by (blast intro: rtranclp_trans)
  qed simp
  from this [OF assms(3) ok] show ?thesis unfolding calculation by (simp add: spec_of_def)
qed

lemma overlapping_requests_refine_spec_witness:
  "spec_step\<^sup>*\<^sup>* \<lparr>sp_registry = abs_registry [], sp_given = {}\<rparr>
     \<lparr>sp_registry = abs_registry (net_ledger (sv_world (pl_server (schedule [0, 1, 1, 0, 0, 0] sample_pool)))),
      sp_given = {sid. password_given (sample_app sample_env) [post_request, login_request]
                         (pl_past (schedule [0, 1, 1, 0, 0, 0] sample_pool)) sid}\<rparr>"
proof -
  have "ledger_inv (net_ledger (sample_net []))" by simp
  from overlapping_requests_refine_spec [OF sample_app_fabric this reaches_schedule,
      where env = sample_env and d = fresh_disk and evs = "[post_request, login_request]"]
  show ?thesis unfolding sample_pool_def sample_net_ledger .
qed

end
