(* ===== verification/Setup.thy ===== *)
theory Setup
  imports Fabric
begin

text \<open>
  Building the connection to the network, app/fabricClient/setup.go: creating the SDK, the
  channel, the chaincode and the clients. The SDK, the packager and the configuration reader
  are the record \<open>fabric_api\<close>; the setup is changed in place, so an operation gives back the
  setup it left beside its result, also when it returns an error.
\<close>

section \<open>The libraries\<close>

record 'w fabric_api =
  fa_New :: "string \<Rightarrow> 'w \<Rightarrow> (error + 'w sdk_handle) \<times> 'w"
  fa_NewCCPackage :: "string \<Rightarrow> string \<Rightarrow> 'w \<Rightarrow> (error + bytes) \<times> 'w"
  fa_FromFile :: "string \<Rightarrow> error + config_backend"

text \<open>\<open>errors.WithMessage\<close> gives nil for a nil error.\<close>

definition WithMessage :: "error option \<Rightarrow> string \<Rightarrow> error option" where
  "WithMessage err msg = map_option (ErrWrap msg) err"

section \<open>Which peers have joined\<close>

definition OrgTargetPeers :: "string list \<Rightarrow> config_backend \<Rightarrow> string list \<times> error option" where
  "OrgTargetPeers orgs backend =
     (case backend of
        Inl e \<Rightarrow> ([], WithMessage (Some e) ''failed to get organizations from config '')
      | Inr organizations \<Rightarrow>
          (concat (map (\<lambda>org. case map_of organizations (map lower_char org) of
                          None \<Rightarrow> [] | Some peers \<Rightarrow> peers) orgs), None))"

definition HasPeerJoinedChannel ::
    "'w resmgmt_client \<Rightarrow> string \<Rightarrow> string \<Rightarrow> 'w \<Rightarrow> (bool \<times> error option) \<times> 'w" where
  "HasPeerJoinedChannel rc target channel w =
     (case rm_QueryChannels rc target w of
        (Inl e, w1) \<Rightarrow> ((False, WithMessage (Some e) ''failed to query channel for peer''), w1)
      | (Inr channels, w1) \<Rightarrow> ((fold (\<lambda>c found. if c = channel then True else found) channels False, None), w1))"

fun FilterTargetsJoinedChannel ::
    "'w resmgmt_client \<Rightarrow> string \<Rightarrow> string list \<Rightarrow> 'w \<Rightarrow> (string list \<times> error option) \<times> 'w" where
  "FilterTargetsJoinedChannel rc channelID [] w = (([], None), w)"
| "FilterTargetsJoinedChannel rc channelID (target # targets) w =
     (case HasPeerJoinedChannel rc target channelID w of
        ((joined, Some e), w1) \<Rightarrow>
          (([], WithMessage (Some e) ''failed while checking if primary peer has already joined channel''), w1)
      | ((joined, None), w1) \<Rightarrow>
          (case FilterTargetsJoinedChannel rc channelID targets w1 of
             ((rest, Some e), w2) \<Rightarrow> (([], Some e), w2)
           | ((rest, None), w2) \<Rightarrow> ((if joined then target # rest else rest, None), w2)))"

section \<open>Initialize\<close>

definition creatChannel :: "'w fabric_setup \<Rightarrow> string \<Rightarrow> 'w \<Rightarrow> error option outcome \<times> 'w" where
  "creatChannel st adminIdentity w =
     (case admin st of
        None \<Rightarrow> (Panic nil_dereference, w)
      | Some rc \<Rightarrow>
          (case rm_SaveChannel rc (ChannelID st) (ChannelConfig st) adminIdentity (OrdererID st) w of
             (Inl e, w1) \<Rightarrow> (Ret (WithMessage (Some e) ''failed to save channel''), w1)
           | (Inr txID, w1) \<Rightarrow>
               (if txID = '''' then (Ret (WithMessage None ''failed to save channel''), w1) else (Ret None, w1))))"

definition Initialize ::
    "'w fabric_api \<Rightarrow> bool \<Rightarrow> 'w fabric_setup \<Rightarrow> 'w \<Rightarrow> error option outcome \<times> 'w fabric_setup \<times> 'w" where
  "Initialize api hasChannel st w =
     (if initialized st then (Ret (Some (ErrText ''sdk already initialized'')), st, w)
      else case fa_New api (ConfigFile st) w of
        (Inl e, w1) \<Rightarrow> (Ret (WithMessage (Some e) ''failed to create SDK''), st, w1)
      | (Inr handle, w1) \<Rightarrow>
          (let st = st\<lparr>sdk := Some handle\<rparr>
           in case sd_resmgmt handle (OrgAdmin st) (OrgName st) w1 of
             (Inl e, w2) \<Rightarrow>
               (Ret (WithMessage (Some e) ''failed to create channel management client from Admin identity''), st, w2)
           | (Inr rc, w2) \<Rightarrow>
               (let st = st\<lparr>admin := Some rc\<rparr>
                in case sd_msp handle (OrgName st) w2 of
                  (Inl e, w3) \<Rightarrow> (Ret (WithMessage (Some e) ''failed to create MSP client''), st, w3)
                | (Inr GetSigningIdentity, w3) \<Rightarrow>
                    (case GetSigningIdentity (OrgAdmin st) of
                       Inl e \<Rightarrow> (Ret (WithMessage (Some e) ''failed to get admin signing identity''), st, w3)
                     | Inr adminIdentity \<Rightarrow>
                         (if hasChannel then (Ret None, st\<lparr>initialized := True\<rparr>, w3)
                          else case creatChannel st adminIdentity w3 of
                            (Panic m, w4) \<Rightarrow> (Panic m, st, w4)
                          | (Ret (Some e), w4) \<Rightarrow> (Ret (Some e), st, w4)
                          | (Ret None, w4) \<Rightarrow>
                              (case rm_JoinChannel rc (ChannelID st) (OrdererID st) w4 of
                                 (Some e, w5) \<Rightarrow> (Ret (WithMessage (Some e) ''failed to make admin join channel''), st, w5)
                               | (None, w5) \<Rightarrow> (Ret None, st\<lparr>initialized := True\<rparr>, w5)))))))"

section \<open>InstallAndInstantiateCC\<close>

definition policy_orgs :: "string list" where
  "policy_orgs = [''org1.cert.mot.gov.cn'']"

text \<open>The clients the service works with.\<close>

definition open_clients :: "'w fabric_setup \<Rightarrow> 'w \<Rightarrow> error option outcome \<times> 'w fabric_setup \<times> 'w" where
  "open_clients st w =
     (case sdk st of
        None \<Rightarrow> (Panic nil_dereference, st, w)
      | Some handle \<Rightarrow>
          (case sd_channel handle (ChannelID st) (UserName st) w of
             (Inl e, w1) \<Rightarrow> (Ret (WithMessage (Some e) ''failed to create new channel client''), st\<lparr>client := None\<rparr>, w1)
           | (Inr c, w1) \<Rightarrow>
               (case sd_event handle (ChannelID st) (UserName st) w1 of
                  (Inl e, w2) \<Rightarrow>
                    (Ret (WithMessage (Some e) ''failed to create new event client''), st\<lparr>client := Some c, event := None\<rparr>, w2)
                | (Inr ev, w2) \<Rightarrow> (Ret None, st\<lparr>client := Some c, event := Some ev\<rparr>, w2))))"

text \<open>
  The first installation. The first component is what the function returns at once, if it does:
  a failed call, or an empty transaction identifier, for which the error it wraps is nil.
\<close>

definition instantiate_cc ::
    "'w fabric_setup \<Rightarrow> 'w resmgmt_client \<Rightarrow> bytes \<Rightarrow> 'w \<Rightarrow> error option option \<times> 'w" where
  "instantiate_cc st rc ccPkg w =
     (case rm_InstallCC rc (ChainCodeID st) (ChaincodePath st) ''1.0'' ccPkg w of
        (Some e, w1) \<Rightarrow> (Some (WithMessage (Some e) ''failed to install chaincode''), w1)
      | (None, w1) \<Rightarrow>
          (case rm_InstantiateCC rc (ChannelID st) (ChainCodeID st) (ChaincodePath st) ''1.0'' [''init''] policy_orgs w1 of
             (Inl e, w2) \<Rightarrow> (Some (WithMessage (Some e) ''failed to instantiate the chaincode''), w2)
           | (Inr txID, w2) \<Rightarrow>
               (if txID = '''' then (Some (WithMessage None ''failed to instantiate the chaincode''), w2)
                else (None, w2))))"

text \<open>
  The upgrade: an error of \<open>OrgTargetPeers\<close> is overwritten by the next call's, and one of
  \<open>UpgradeCC\<close> is only logged.
\<close>

definition upgrade_cc ::
    "'w fabric_api \<Rightarrow> 'w fabric_setup \<Rightarrow> 'w resmgmt_client \<Rightarrow> bytes \<Rightarrow> 'w \<Rightarrow> error option option outcome \<times> 'w" where
  "upgrade_cc api st rc ccPkg w =
     (case rm_InstallCC rc (ChainCodeID st) (ChaincodePath st) ''1.5'' ccPkg w of
        (Some e, w1) \<Rightarrow> (Ret (Some (WithMessage (Some e) ''failed to install chaincode'')), w1)
      | (None, w1) \<Rightarrow>
          (case sdk st of
             None \<Rightarrow> (Panic nil_dereference, w1)
           | Some handle \<Rightarrow>
               (case (case sd_Config handle of Inr backend \<Rightarrow> Inr backend | Inl _ \<Rightarrow> fa_FromFile api (ConfigFile st)) of
                  Inl e \<Rightarrow> (Ret (Some (WithMessage (Some e) ''failed to get config backend from config'')), w1)
                | Inr backend \<Rightarrow>
                    (case FilterTargetsJoinedChannel rc (ChannelID st) (fst (OrgTargetPeers [OrgID st] backend)) w1 of
                       ((_, Some e), w2) \<Rightarrow> (Ret (Some (WithMessage (Some e) ''checking for joined targets failed'')), w2)
                     | ((joinedTargets, None), w2) \<Rightarrow>
                         (Ret None,
                          snd (rm_UpgradeCC rc (ChannelID st) (ChainCodeID st) (ChaincodePath st) ''1.5'' [''init'']
                                 policy_orgs joinedTargets w2))))))"

definition InstallAndInstantiateCC ::
    "'w fabric_api \<Rightarrow> bool \<Rightarrow> bool \<Rightarrow> 'w fabric_setup \<Rightarrow> 'w \<Rightarrow> error option outcome \<times> 'w fabric_setup \<times> 'w" where
  "InstallAndInstantiateCC api hasChannel upgrade st w =
     (case fa_NewCCPackage api (ChaincodePath st) (ChaincodeGoPath st) w of
        (Inl e, w1) \<Rightarrow> (Ret (WithMessage (Some e) ''failed to create chaincode package''), st, w1)
      | (Inr ccPkg, w1) \<Rightarrow>
          (if hasChannel \<and> \<not> upgrade then open_clients st w1
           else case admin st of
             None \<Rightarrow> (Panic nil_dereference, st, w1)
           | Some rc \<Rightarrow>
               (case (if hasChannel then upgrade_cc api st rc ccPkg w1
                      else (case instantiate_cc st rc ccPkg w1 of (r, w2) \<Rightarrow> (Ret r, w2))) of
                  (Panic m, w2) \<Rightarrow> (Panic m, st, w2)
                | (Ret (Some err), w2) \<Rightarrow> (Ret err, st, w2)
                | (Ret None, w2) \<Rightarrow> open_clients st w2)))"

text \<open>Closing: the receiver may be nil, and so may its SDK.\<close>

definition CloseSDK :: "'w fabric_setup option \<Rightarrow> 'w \<Rightarrow> unit outcome \<times> 'w" where
  "CloseSDK st w =
     (case st of
        None \<Rightarrow> (Panic nil_dereference, w)
      | Some s \<Rightarrow> (case sdk s of None \<Rightarrow> (Panic nil_dereference, w) | Some handle \<Rightarrow> (Ret (), sd_Close handle w)))"

section \<open>Lemmas\<close>

lemma fold_found: "fold (\<lambda>c found. if c = channel then True else found) channels b \<longleftrightarrow> b \<or> channel \<in> set channels"
  by (induction channels arbitrary: b) auto

lemma HasPeerJoined_answer:
  "rm_QueryChannels rc target w = (Inr channels, w1) \<Longrightarrow>
     HasPeerJoinedChannel rc target channel w = ((channel \<in> set channels, None), w1)"
  by (simp add: HasPeerJoinedChannel_def fold_found)

lemma filter_answered:
  assumes "\<And>t w. \<exists>w'. rm_QueryChannels rc t w = (Inr (joined t), w')"
  shows "\<exists>w'. FilterTargetsJoinedChannel rc channel ts w = ((filter (\<lambda>t. channel \<in> set (joined t)) ts, None), w')"
proof (induction ts arbitrary: w)
  case (Cons t ts)
  obtain w1 where "rm_QueryChannels rc t w = (Inr (joined t), w1)" using assms by blast
  with Cons.IH [of w1] show ?case by (auto simp: HasPeerJoined_answer)
qed simp

text \<open>Without a channel argument the clients are opened at once.\<close>

lemma open_clients_ready:
  "open_clients st w = (Ret None, st', w') \<Longrightarrow> client st' \<noteq> None \<and> event st' \<noteq> None"
  by (auto simp: open_clients_def WithMessage_def split: option.splits sum.splits prod.splits)

lemma creatChannel_returns: "admin st = Some rc \<Longrightarrow> creatChannel st i w \<noteq> (Panic m, w')"
  by (simp add: creatChannel_def split: option.split sum.split prod.split)

lemma instantiate_cc_done:
  "instantiate_cc st rc pkg w = (Some None, w') \<longleftrightarrow>
     (\<exists>w1. rm_InstallCC rc (ChainCodeID st) (ChaincodePath st) ''1.0'' pkg w = (None, w1) \<and>
        rm_InstantiateCC rc (ChannelID st) (ChainCodeID st) (ChaincodePath st) ''1.0'' [''init''] policy_orgs w1 = (Inr '''', w'))"
  by (auto simp: instantiate_cc_def WithMessage_def split: option.splits sum.splits prod.splits if_splits)

lemma upgrade_cc_continues: "upgrade_cc api st rc pkg w \<noteq> (Ret (Some None), w')"
  by (auto simp: upgrade_cc_def WithMessage_def split: option.splits sum.splits prod.splits)

section \<open>A sample SDK\<close>

text \<open>
  An SDK on which every call succeeds; the peers of \<open>org1\<close> are two, of which one has joined
  the channel, and \<open>txid\<close> is the transaction identifier its answers carry.
\<close>

definition sample_rc :: "string \<Rightarrow> 'w resmgmt_client" where
  "sample_rc txid = \<lparr>rm_SaveChannel = \<lambda>_ _ _ _ w. (Inr txid, w), rm_JoinChannel = \<lambda>_ _ w. (None, w),
     rm_InstallCC = \<lambda>_ _ _ _ w. (None, w), rm_InstantiateCC = \<lambda>_ _ _ _ _ _ w. (Inr txid, w),
     rm_UpgradeCC = \<lambda>_ _ _ _ _ _ _ w. (Inr txid, w),
     rm_QueryChannels = \<lambda>t w. (Inr (if t = ''peer0'' then [''motcert''] else []), w)\<rparr>"

definition sample_sdk :: "string \<Rightarrow> 'w channel_client \<Rightarrow> 'w event_client \<Rightarrow> 'w sdk_handle" where
  "sample_sdk txid c ev = \<lparr>sd_resmgmt = \<lambda>_ _ w. (Inr (sample_rc txid), w), sd_msp = \<lambda>_ w. (Inr (\<lambda>_. Inr ''id''), w),
     sd_Config = Inr (Inr [(''org1'', [''peer0'', ''peer1''])]), sd_channel = \<lambda>_ _ w. (Inr c, w),
     sd_event = \<lambda>_ _ w. (Inr ev, w), sd_Close = \<lambda>w. w\<rparr>"

definition sample_api :: "string \<Rightarrow> 'w channel_client \<Rightarrow> 'w event_client \<Rightarrow> 'w fabric_api" where
  "sample_api txid c ev = \<lparr>fa_New = \<lambda>_ w. (Inr (sample_sdk txid c ev), w), fa_NewCCPackage = \<lambda>_ _ w. (Inr ''pkg'', w),
     fa_FromFile = \<lambda>_. Inr (Inr [])\<rparr>"

definition blank_setup :: "'w fabric_setup" where
  "blank_setup = \<lparr>ConfigFile = '''', OrgID = ''org1'', OrdererID = '''', ChannelID = ''motcert'', ChainCodeID = ''motcert-cc1'',
     initialized = False, ChannelConfig = '''', ChaincodeGoPath = '''', ChaincodePath = '''', OrgAdmin = ''Admin'',
     OrgName = ''org1'', UserName = ''User1'', client = None, admin = None, sdk = None, event = None\<rparr>"

definition idle_channel :: "'w channel_client" where
  "idle_channel = \<lparr>ch_Query = \<lambda>_ _ _ w. (Inr '''', w), ch_Execute = \<lambda>_ _ _ _ w. (Inr ''tx'', w)\<rparr>"

definition idle_event :: "'w event_client" where
  "idle_event = \<lparr>ev_Register = \<lambda>_ _ w. (Inr 0, w), ev_Unregister = \<lambda>_ w. w, ev_Wait = \<lambda>_ w. (True, w)\<rparr>"

section \<open>Properties\<close>

text \<open>
  C38: Initialize marks the setup as initialised exactly when it reports no error, and then the
  SDK and the management client are there; it never panics, and on an initialised setup it
  fails without doing anything.
\<close>

theorem Initialize_outcomes:
  "(case Initialize api hasChannel st w of
      (Panic m, st', w') \<Rightarrow> False
    | (Ret None, st', w') \<Rightarrow> \<not> initialized st \<and> initialized st' \<and> sdk st' \<noteq> None \<and> admin st' \<noteq> None
    | (Ret (Some e), st', w') \<Rightarrow> initialized st' = initialized st
        \<and> (if initialized st then st' = st \<and> w' = w \<and> e = ErrText ''sdk already initialized'' else True))"
  by (auto simp: Initialize_def Let_def WithMessage_def creatChannel_returns
      split: prod.splits sum.splits option.splits outcome.splits)

text \<open>
  C37: What InstallAndInstantiateCC leaves behind when it reports no error: both clients, so that
  Query and Execute can be called, or, on a first installation whose transaction came back
  without an identifier, the setup as it was.
\<close>

theorem install_outcomes:
  assumes "InstallAndInstantiateCC api hasChannel upgrade st w = (Ret None, st', w')"
  shows "client st' \<noteq> None \<and> event st' \<noteq> None
    \<or> st' = st \<and> hasChannel = False
      \<and> (\<exists>rc w1. admin st = Some rc \<and> rm_InstantiateCC rc (ChannelID st) (ChainCodeID st) (ChaincodePath st) ''1.0''
            [''init''] policy_orgs w1 = (Inr '''', w'))"
  using assms
  by (auto simp: InstallAndInstantiateCC_def WithMessage_def upgrade_cc_continues instantiate_cc_done
      split: prod.splits sum.splits option.splits outcome.splits if_splits dest: open_clients_ready)

lemma install_outcomes_witness:
  "client (fst (snd (InstallAndInstantiateCC (sample_api ''tx'' idle_channel idle_event) True True
     (blank_setup\<lparr>admin := Some (sample_rc ''tx''), sdk := Some (sample_sdk ''tx'' idle_channel idle_event)\<rparr>) ()))) \<noteq> None"
proof -
  let ?st = "blank_setup\<lparr>admin := Some (sample_rc ''tx''), sdk := Some (sample_sdk ''tx'' idle_channel idle_event)\<rparr> :: unit fabric_setup"
  let ?r = "InstallAndInstantiateCC (sample_api ''tx'' idle_channel idle_event) True True ?st ()"
  have "fst ?r = Ret None"
    by (simp add: InstallAndInstantiateCC_def sample_api_def upgrade_cc_def sample_rc_def sample_sdk_def
        OrgTargetPeers_def HasPeerJoinedChannel_def open_clients_def blank_setup_def lower_char_def in_range_def)
  then have "?r = (Ret None, fst (snd ?r), snd (snd ?r))" by (metis prod.collapse)
  from install_outcomes [OF this] show ?thesis by blast
qed

text \<open>
  The peers an upgrade is sent to are those of the organisation that have joined the
  channel, in the order of the configuration, as long as every peer answers.
\<close>

lemma upgrade_targets:
  assumes "\<And>t w. \<exists>w'. rm_QueryChannels rc t w = (Inr (joined t), w')" "map_of orgs (map lower_char org) = Some peers"
  shows "\<exists>w'. FilterTargetsJoinedChannel rc channel (fst (OrgTargetPeers [org] (Inr orgs))) w
    = ((filter (\<lambda>t. channel \<in> set (joined t)) peers, None), w')"
  using filter_answered [OF assms(1)] assms(2) by (simp add: OrgTargetPeers_def)

lemma upgrade_targets_witness:
  "FilterTargetsJoinedChannel (sample_rc ''tx'') ''motcert'' (fst (OrgTargetPeers [''org1''] (Inr [(''org1'', [''peer0'', ''peer1''])]))) ()
    = (([''peer0''], None), ())"
  using upgrade_targets [of "sample_rc ''tx''" "\<lambda>t. if t = ''peer0'' then [''motcert''] else []" "[(''org1'', [''peer0'', ''peer1''])]"
      "''org1''" "[''peer0'', ''peer1'']" "''motcert''" "()"]
  by (simp add: sample_rc_def lower_char_def in_range_def)

end
