(* ===== verification/Server.thy ===== *)
theory Server
  imports Setup Handlers
begin

text \<open>
  The command line of app/server.go, app/version.go and app/benchmark.go, and the start of the
  HTTP service at the end of app/app.go. The configuration, the environment and the listening
  calls of net/http are parameters; the global \<open>FabricSetupEntity\<close> is an optional setup.
\<close>

section \<open>Configuration and libraries\<close>

record config =
  cf_tls_enabled :: bool
  cf_address :: string
  cf_tls_ca_file :: string
  cf_tls_cert_file :: string
  cf_tls_key_file :: string
  cf_version :: string

record 'w system =
  sy_ReadInConfig :: "error option"
  sy_config :: config
  sy_GOPATH :: string
  sy_ReadFile :: "string \<Rightarrow> 'w \<Rightarrow> (error + bytes) \<times> 'w"
  sy_ListenAndServeTLS :: "string \<Rightarrow> bytes \<Rightarrow> string \<Rightarrow> string \<Rightarrow> 'w \<Rightarrow> error \<times> 'w"
  sy_ListenAndServe :: "string \<Rightarrow> 'w \<Rightarrow> error \<times> 'w"
  sy_api :: "'w fabric_api"

section \<open>Starting the service\<close>

text \<open>What became of the HTTP server: it was never started, or it served until an error.\<close>

datatype service_end = NotStarted error | Served bool error

definition startServerFinally :: "'w system \<Rightarrow> bool \<Rightarrow> string \<Rightarrow> 'w \<Rightarrow> service_end \<times> 'w" where
  "startServerFinally sy tlsEnabled currentAddress w =
     (case sy_ReadFile sy (cf_tls_ca_file (sy_config sy)) w of
        (Inl e, w1) \<Rightarrow> (NotStarted e, w1)
      | (Inr caCrt, w1) \<Rightarrow>
          (if tlsEnabled then
             (case sy_ListenAndServeTLS sy currentAddress caCrt (cf_tls_cert_file (sy_config sy)) (cf_tls_key_file (sy_config sy)) w1 of
                (e, w2) \<Rightarrow> (Served True e, w2))
           else (case sy_ListenAndServe sy currentAddress w1 of (e, w2) \<Rightarrow> (Served False e, w2))))"

definition startService :: "'w system \<Rightarrow> 'w \<Rightarrow> service_end \<times> 'w" where
  "startService sy w =
     (let tlsEnabled = cf_tls_enabled (sy_config sy); address = cf_address (sy_config sy)
      in startServerFinally sy tlsEnabled address w)"

text \<open>The error result is nil whatever happened.\<close>

definition appService :: "'w system \<Rightarrow> 'w \<Rightarrow> (error option \<times> service_end) \<times> 'w" where
  "appService sy w = (case startService sy w of (r, w1) \<Rightarrow> ((None, r), w1))"

section \<open>The SDK\<close>

definition initial_setup :: "string \<Rightarrow> 'w fabric_setup" where
  "initial_setup gopath =
     \<lparr>ConfigFile = ''../config.yaml'', OrgID = ''org1'', OrdererID = ''orderer.cert.mot.gov.cn'',
      ChannelID = ''motcert'', ChainCodeID = ''motcert-cc1'', initialized = False,
      ChannelConfig = gopath @ ''/src/gitlab.chainnova.com/motcert-backend/fixtures/artifacts/motcert.channel.tx'',
      ChaincodeGoPath = gopath, ChaincodePath = ''gitlab.chainnova.com/motcert-backend/app/chaincode/'',
      OrgAdmin = ''Admin'', OrgName = ''org1'', UserName = ''User1'',
      client = None, admin = None, sdk = None, event = None\<rparr>"

text \<open>Both errors are logged and forgotten; the setup is global, so what was done stays done.\<close>

definition setFabricSdk :: "'w system \<Rightarrow> bool \<Rightarrow> bool \<Rightarrow> 'w \<Rightarrow> unit outcome \<times> 'w fabric_setup \<times> 'w" where
  "setFabricSdk sy hasChannel upgrade w =
     (case Initialize (sy_api sy) hasChannel (initial_setup (sy_GOPATH sy)) w of
        (Panic m, st, w1) \<Rightarrow> (Panic m, st, w1)
      | (Ret (Some e), st, w1) \<Rightarrow> (Ret (), st, w1)
      | (Ret None, st, w1) \<Rightarrow>
          (case InstallAndInstantiateCC (sy_api sy) hasChannel upgrade st w1 of
             (Panic m, st2, w2) \<Rightarrow> (Panic m, st2, w2)
           | (Ret err, st2, w2) \<Rightarrow> (Ret (), st2, w2)))"

section \<open>The benchmark\<close>

text \<open>
  \<open>WaitGroup.Add\<close> panics when the counter becomes negative; each of the goroutines, which do
  nothing, takes one off, and \<open>Wait\<close> returns at zero. What is printed is the loop variable.
\<close>

definition wait_group :: "int \<Rightarrow> int list outcome" where
  "wait_group loops =
     (if loops < 0 then Panic ''sync: negative WaitGroup counter'' else Ret (map int [0..<nat loops]))"

definition loops_of :: "string list \<Rightarrow> int" where
  "loops_of args =
     (case args of
        [a] \<Rightarrow> (if a \<noteq> '''' then (case parse_int 64 a of None \<Rightarrow> 10 | Some loop \<Rightarrow> loop) else 10)
      | _ \<Rightarrow> 10)"

definition testmain :: "string list \<Rightarrow> (int list \<times> int list) outcome" where
  "testmain args =
     (let loops = loops_of args
      in (case wait_group loops of
            Panic m \<Rightarrow> Panic m
          | Ret printed \<Rightarrow> (case wait_group loops of Panic m \<Rightarrow> Panic m | Ret printed2 \<Rightarrow> Ret (printed, printed2))))"

section \<open>The commands\<close>

datatype command = StartApp | UpdateApp | UpgradeApp | Version | Test "string list" | RootCommand bool | Unknown

text \<open>What a command prints, or the service it ran.\<close>

datatype command_result = Printed string | Help | Ran service_end | Tested "int list \<times> int list"

definition VersionPrint :: "config \<Rightarrow> string" where
  "VersionPrint cf = ''Fabric app server version '' @ cf_version cf @ [CHR 0x0A]"

definition start_command ::
    "'w system \<Rightarrow> bool \<Rightarrow> bool \<Rightarrow> 'w \<Rightarrow> (error option \<times> command_result) outcome \<times> 'w fabric_setup option \<times> 'w" where
  "start_command sy hasChannel upgrade w =
     (case setFabricSdk sy hasChannel upgrade w of
        (Panic m, st, w1) \<Rightarrow> (Panic m, Some st, w1)
      | (Ret _, st, w1) \<Rightarrow>
          (case appService sy w1 of ((err, r), w2) \<Rightarrow> (Ret (err, Ran r), Some st, w2)))"

definition version_command :: "'w system \<Rightarrow> error option \<times> command_result" where
  "version_command sy = (None, Printed (VersionPrint (sy_config sy)))"

definition testCmd :: "string list \<Rightarrow> (error option \<times> command_result) outcome" where
  "testCmd args = (case testmain args of Panic m \<Rightarrow> Panic m | Ret out \<Rightarrow> Ret (None, Tested out))"

definition mainCmd :: "'w system \<Rightarrow> bool \<Rightarrow> error option \<times> command_result" where
  "mainCmd sy versionFlag = (None, if versionFlag then Printed (VersionPrint (sy_config sy)) else Help)"

definition run_command ::
    "'w system \<Rightarrow> command \<Rightarrow> 'w \<Rightarrow> (error option \<times> command_result) outcome \<times> 'w fabric_setup option \<times> 'w" where
  "run_command sy cmd w =
     (case cmd of
        StartApp \<Rightarrow> start_command sy False False w
      | UpdateApp \<Rightarrow> start_command sy True False w
      | UpgradeApp \<Rightarrow> start_command sy True True w
      | Version \<Rightarrow> (Ret (version_command sy), None, w)
      | Test args \<Rightarrow> (testCmd args, None, w)
      | RootCommand versionFlag \<Rightarrow> (Ret (mainCmd sy versionFlag), None, w)
      | Unknown \<Rightarrow> (Ret (Some (ErrText ''unknown command''), Help), None, w))"

section \<open>main\<close>

datatype process_end = ExitCode nat | Crash string | Returned

text \<open>
  The receiver of the deferred \<open>CloseSDK\<close> is evaluated where the statement stands, before any
  command has run: it is the nil pointer the global starts with. \<open>os.Exit\<close> runs no deferred call.
\<close>

definition main_process :: "'w system \<Rightarrow> command \<Rightarrow> 'w \<Rightarrow> process_end \<times> 'w" where
  "main_process sy cmd w =
     (case sy_ReadInConfig sy of
        Some e \<Rightarrow> (Crash ''Fatal error config file'', w)
      | None \<Rightarrow>
          (let deferred = CloseSDK None
           in case run_command sy cmd w of
             (Panic m, _, w1) \<Rightarrow> (case deferred w1 of (_, w2) \<Rightarrow> (Crash m, w2))
           | (Ret (Some e, _), _, w1) \<Rightarrow> (ExitCode 1, w1)
           | (Ret (None, _), _, w1) \<Rightarrow>
               (case deferred w1 of
                  (Panic m, w2) \<Rightarrow> (Crash m, w2)
                | (Ret _, w2) \<Rightarrow> (Returned, w2))))"

section \<open>A sample system\<close>

definition sample_config :: config where
  "sample_config = \<lparr>cf_tls_enabled = False, cf_address = '':8080'', cf_tls_ca_file = ''ca.crt'', cf_tls_cert_file = ''server.pem'',
     cf_tls_key_file = ''server.key'', cf_version = ''1.0''\<rparr>"

text \<open>No network, and no certificate file unless one is given.\<close>

definition offline_system :: "bytes option \<Rightarrow> unit system" where
  "offline_system ca = \<lparr>sy_ReadInConfig = None, sy_config = sample_config, sy_GOPATH = ''/go'',
     sy_ReadFile = \<lambda>_ w. (case ca of None \<Rightarrow> (Inl (ErrText ''no such file or directory''), w) | Some b \<Rightarrow> (Inr b, w)),
     sy_ListenAndServeTLS = \<lambda>_ _ _ _ w. (ErrText ''closed'', w), sy_ListenAndServe = \<lambda>_ w. (ErrText ''closed'', w),
     sy_api = (sample_api '''' idle_channel idle_event)\<lparr>fa_New := \<lambda>_ w. (Inl (ErrText ''no config''), w)\<rparr>\<rparr>"

section \<open>Properties\<close>

text \<open>
  C39: main never returns and never closes the SDK: with a readable configuration, whatever the
  command, the process ends by exit code 1 when the command line is wrong, and by a panic
  otherwise, a nil dereference in the deferred CloseSDK when the command itself did not panic.
\<close>

theorem main_never_returns:
  assumes "sy_ReadInConfig sy = None"
  shows "(case run_command sy cmd w of
      (Panic m, st, w1) \<Rightarrow> main_process sy cmd w = (Crash m, w1)
    | (Ret (Some e, r), st, w1) \<Rightarrow> cmd = Unknown \<and> main_process sy cmd w = (ExitCode 1, w1)
    | (Ret (None, r), st, w1) \<Rightarrow> main_process sy cmd w = (Crash nil_dereference, w1))"
proof -
  have "cmd = Unknown" if "run_command sy cmd w = (Ret (Some e, r), st, w1)" for e r st w1
    using that by (cases cmd) (auto simp: run_command_def start_command_def appService_def version_command_def testCmd_def
        mainCmd_def split: prod.splits outcome.splits)
  then show ?thesis
    using assms by (auto simp: main_process_def CloseSDK_def Let_def split: prod.splits outcome.splits option.splits)
qed

lemma main_never_returns_witness:
  "main_process (offline_system None) Version () = (Crash nil_dereference, ())"
  using main_never_returns [of "offline_system None" Version "()"]
  by (simp add: offline_system_def run_command_def version_command_def)

text \<open>
  The start commands ignore a network that cannot be reached: when the SDK cannot be
  created, the service is started all the same, with a setup without clients.
\<close>

lemma start_without_network:
  assumes "fa_New (sy_api sy) ''../config.yaml'' w = (Inl e, w1)" "startService sy w1 = (r, w2)"
    and "cmd \<in> {StartApp, UpdateApp, UpgradeApp}"
  shows "run_command sy cmd w = (Ret (None, Ran r), Some (initial_setup (sy_GOPATH sy)), w2)"
proof -
  have "setFabricSdk sy hasChannel upgrade w = (Ret (), initial_setup (sy_GOPATH sy), w1)" for hasChannel upgrade
    using assms(1) by (simp add: setFabricSdk_def Initialize_def initial_setup_def WithMessage_def)
  with assms(2,3) show ?thesis by (auto simp: run_command_def start_command_def appService_def)
qed

lemma start_without_network_witness:
  "run_command (offline_system (Some ''ca'')) StartApp () =
     (Ret (None, Ran (Served False (ErrText ''closed''))), Some (initial_setup ''/go''), ())"
  using start_without_network [of "offline_system (Some ''ca'')" "()" "ErrText ''no config''" "()"
      "Served False (ErrText ''closed'')" "()" StartApp]
  by (simp add: offline_system_def startService_def startServerFinally_def sample_config_def sample_api_def)

text \<open>
  On such a setup every request for a certificate panics, whoever asks and whatever is on
  the ledger.
\<close>

lemma service_without_network:
  assumes "ap_fabric ap = initial_setup gopath" "i \<noteq> ''''"
  shows "fst (serve GET [''v1'', ''certificate'', i] ap ex s) = Panics nil_dereference"
  using assms
  by (simp add: serve_def setResponseType_def buildRouter_def getCertificate_def call_world_def CertificateOut_def
      Query_def initial_setup_def)

lemma service_without_network_witness:
  "fst (serve GET [''v1'', ''certificate'', ''C1'']
     \<lparr>ap_fabric = initial_setup ''/go'', ap_os = \<lparr>os_fault = \<lambda>_. None, os_reads = \<lambda>_ n. n\<rparr>, ap_now = \<lambda>_. 0, ap_random = \<lambda>_. None\<rparr>
     \<lparr>ex_cookie = None, ex_body = Inr '''', ex_params = Map.empty, ex_form = Inl end_of_file, ex_headers = [], ex_write = None\<rparr>
     \<lparr>sv_manager = initial_manager, sv_disk = \<lparr>d_files = [], d_dirs = [], d_tick = 0\<rparr>, sv_world = (), sv_tick = 0\<rparr>)
   = Panics nil_dereference"
  by (rule service_without_network [where gopath = "''/go''"]) simp_all

text \<open>
  The HTTP server needs the certificate authority's file even without TLS: when it cannot
  be read, appService reports success and nothing listens.
\<close>

lemma no_ca_no_service:
  assumes "sy_ReadFile sy (cf_tls_ca_file (sy_config sy)) w = (Inl e, w1)"
  shows "appService sy w = ((None, NotStarted e), w1)"
  using assms by (simp add: appService_def startService_def startServerFinally_def Let_def)

lemma no_ca_no_service_witness:
  "appService (offline_system None) () = ((None, NotStarted (ErrText ''no such file or directory'')), ())"
  using no_ca_no_service [of "offline_system None" "()"] by (simp add: offline_system_def)

text \<open>
  The benchmark prints the loop counter twice from zero up, as many times as its one
  argument says in decimal, ten times when there is no argument, several, or none that is a
  number; a negative number makes it panic.
\<close>

lemma testmain_counts:
  assumes "fits 64 n"
  shows "testmain [itoa n] =
     (if n < 0 then Panic ''sync: negative WaitGroup counter''
      else Ret (map int [0..<nat n], map int [0..<nat n]))"
proof -
  have "itoa n \<noteq> ''''" by (simp add: itoa_def)
  then have "loops_of [itoa n] = n" using parse_int_itoa [OF assms] by (simp add: loops_of_def)
  then show ?thesis by (simp add: testmain_def wait_group_def)
qed

lemma testmain_counts_witness:
  "testmain [itoa 3] = Ret ([0, 1, 2], [0, 1, 2]) \<and> testmain [itoa (- 1)] = Panic ''sync: negative WaitGroup counter''"
  using testmain_counts [of 3] testmain_counts [of "- 1"] by (simp add: fits_def upt_rec numeral_nat)

end
