(* ===== verification/Locks.thy ===== *)
theory Locks
  imports Session
begin

text \<open>
  The locking of the session package. Every goroutine that serves a request, and the collector,
  runs calls of the manager and of the stores. A call is given here by the locks it takes and the
  shared data it reads and writes, in the order of the code; which branch a lookup takes is a
  parameter of the call, so that every interleaving the data allow is among those considered. The
  lemmas of the last section tie the lists of accesses to the operations of theory Session: what an
  operation changes is among what its list writes.

  The properties: the two locks cannot deadlock and every schedule finishes all calls; the shared
  map and list of the provider are free of data races except between \<open>SessionDestroy\<close>, which holds
  the manager's lock only, and \<open>SessionUpdate\<close>, which holds the provider's only; and that race, of
  a logout with another request, can happen.
\<close>

section \<open>Locks, locations and the accesses of the code\<close>

datatype mutex = ManagerLock | ProviderLock

text \<open>The map and the list of the provider, and the two mutable fields of a store.\<close>

datatype location = SessionsMap | EvictionList | TimeAccessed nat | Values nat

datatype action = Lock mutex | Unlock mutex | Reads location | Writes location

text \<open>A new store is not shared before it is in the list and the map.\<close>

definition SessionInit_actions :: "action list" where
  "SessionInit_actions = [Lock ProviderLock, Writes EvictionList, Writes SessionsMap, Unlock ProviderLock]"

definition SessionRead_actions :: "bool \<Rightarrow> action list" where
  "SessionRead_actions found = Reads SessionsMap # (if found then [] else SessionInit_actions)"

definition SessionDestroy_actions :: "bool \<Rightarrow> action list" where
  "SessionDestroy_actions found = Reads SessionsMap # (if found then [Writes SessionsMap, Writes EvictionList] else [])"

text \<open>The stores the collector removes, and the one at which it stops, if any is left.\<close>

definition SessionGC_actions :: "nat list \<Rightarrow> nat option \<Rightarrow> action list" where
  "SessionGC_actions gone kept =
     Lock ProviderLock
     # concat (map (\<lambda>a. [Reads EvictionList, Reads (TimeAccessed a), Writes EvictionList, Writes SessionsMap]) gone)
     @ Reads EvictionList # (case kept of None \<Rightarrow> [] | Some a \<Rightarrow> [Reads (TimeAccessed a)])
     @ [Unlock ProviderLock]"

definition SessionUpdate_actions :: "nat option \<Rightarrow> action list" where
  "SessionUpdate_actions found =
     Lock ProviderLock # Reads SessionsMap
     # (case found of None \<Rightarrow> [] | Some a \<Rightarrow> [Writes (TimeAccessed a), Writes EvictionList])
     @ [Unlock ProviderLock]"

text \<open>The methods of a store touch its values without a lock.\<close>

definition store_Set_actions :: "nat \<Rightarrow> nat option \<Rightarrow> action list" where
  [simp]: "store_Set_actions a found = Writes (Values a) # SessionUpdate_actions found"

definition store_Get_actions :: "nat \<Rightarrow> nat option \<Rightarrow> action list" where
  [simp]: "store_Get_actions a found = SessionUpdate_actions found @ [Reads (Values a)]"

definition store_Delete_actions :: "nat \<Rightarrow> nat option \<Rightarrow> action list" where
  [simp]: "store_Delete_actions a found = Writes (Values a) # SessionUpdate_actions found"

text \<open>
  The calls a goroutine makes: starting a session without a cookie or with one, destroying it,
  a run of the collector, and the three methods of a store. A destroy without a cookie does nothing.
\<close>

datatype session_call =
    StartNew
  | StartWith bool
  | Destroy bool
  | CollectExpired "nat list" "nat option"
  | SetValue nat "nat option"
  | GetValue nat "nat option"
  | DeleteValue nat "nat option"

fun actions_of :: "session_call \<Rightarrow> action list" where
  "actions_of StartNew = Lock ManagerLock # SessionInit_actions @ [Unlock ManagerLock]"
| "actions_of (StartWith found) = Lock ManagerLock # SessionRead_actions found @ [Unlock ManagerLock]"
| "actions_of (Destroy found) = Lock ManagerLock # SessionDestroy_actions found @ [Unlock ManagerLock]"
| "actions_of (CollectExpired gone kept) =
     Lock ManagerLock # SessionGC_actions gone kept @ [Unlock ManagerLock]"
| "actions_of (SetValue a found) = store_Set_actions a found"
| "actions_of (GetValue a found) = store_Get_actions a found"
| "actions_of (DeleteValue a found) = store_Delete_actions a found"

definition program :: "session_call list \<Rightarrow> action list" where
  "program calls = concat (map actions_of calls)"

section \<open>Interleavings\<close>

text \<open>What each goroutine has still to do, and which goroutine holds a lock.\<close>

record locking =
  lk_todo :: "action list list"
  lk_owner :: "mutex \<Rightarrow> nat option"

definition starting :: "session_call list list \<Rightarrow> locking" where
  "starting css = \<lparr>lk_todo = map program css, lk_owner = \<lambda>_. None\<rparr>"

inductive lock_step :: "locking \<Rightarrow> locking \<Rightarrow> bool" where
  take_lock: "i < length (lk_todo c) \<Longrightarrow> lk_todo c ! i = Lock l # as \<Longrightarrow> lk_owner c l = None \<Longrightarrow>
    lock_step c (c\<lparr>lk_todo := (lk_todo c)[i := as], lk_owner := (lk_owner c)(l := Some i)\<rparr>)"
| free_lock: "i < length (lk_todo c) \<Longrightarrow> lk_todo c ! i = Unlock l # as \<Longrightarrow>
    lock_step c (c\<lparr>lk_todo := (lk_todo c)[i := as], lk_owner := (lk_owner c)(l := None)\<rparr>)"
| read_access: "i < length (lk_todo c) \<Longrightarrow> lk_todo c ! i = Reads x # as \<Longrightarrow>
    lock_step c (c\<lparr>lk_todo := (lk_todo c)[i := as]\<rparr>)"
| write_access: "i < length (lk_todo c) \<Longrightarrow> lk_todo c ! i = Writes x # as \<Longrightarrow>
    lock_step c (c\<lparr>lk_todo := (lk_todo c)[i := as]\<rparr>)"

definition finished :: "locking \<Rightarrow> bool" where
  "finished c \<longleftrightarrow> list_all (\<lambda>as. as = []) (lk_todo c)"

definition remaining :: "locking \<Rightarrow> nat" where
  "remaining c = sum_list (map length (lk_todo c))"

text \<open>Two goroutines about to touch one location, at least one of them to write it.\<close>

definition race :: "locking \<Rightarrow> nat \<Rightarrow> nat \<Rightarrow> location \<Rightarrow> bool" where
  "race c i j x \<longleftrightarrow>
     i < length (lk_todo c) \<and> j < length (lk_todo c) \<and> i \<noteq> j
     \<and> (\<exists>as bs. lk_todo c ! i = Writes x # as \<and> (lk_todo c ! j = Writes x # bs \<or> lk_todo c ! j = Reads x # bs))"

section \<open>The discipline the calls keep\<close>

text \<open>
  The locks a goroutine holds when it touches a location, by the code. With \<open>d\<close> it may be in
  \<open>SessionDestroy\<close>, which writes with the manager's lock alone.
\<close>

fun guarded :: "bool \<Rightarrow> mutex set \<Rightarrow> action \<Rightarrow> bool" where
  "guarded d H (Reads SessionsMap) = (H \<noteq> {})"
| "guarded d H (Writes SessionsMap) = (ManagerLock \<in> H \<and> (ProviderLock \<in> H \<or> d))"
| "guarded d H (Reads EvictionList) = (ProviderLock \<in> H)"
| "guarded d H (Writes EvictionList) = (ProviderLock \<in> H \<or> d \<and> ManagerLock \<in> H)"
| "guarded d H (Reads (TimeAccessed a)) = (ProviderLock \<in> H)"
| "guarded d H (Writes (TimeAccessed a)) = (ProviderLock \<in> H)"
| "guarded d H _ = True"

text \<open>Locks are taken in one order and given back, and every access is guarded.\<close>

fun disciplined :: "bool \<Rightarrow> mutex set \<Rightarrow> action list \<Rightarrow> bool" where
  "disciplined d H [] = (H = {})"
| "disciplined d H (Lock l # as) =
     (l \<notin> H \<and> (l = ManagerLock \<longrightarrow> ProviderLock \<notin> H) \<and> disciplined d (insert l H) as)"
| "disciplined d H (Unlock l # as) = (l \<in> H \<and> disciplined d (H - {l}) as)"
| "disciplined d H (a # as) = (guarded d H a \<and> disciplined d H as)"

definition held :: "locking \<Rightarrow> nat \<Rightarrow> mutex set" where
  "held c i = {l. lk_owner c l = Some i}"

definition locking_ok :: "(nat \<Rightarrow> bool) \<Rightarrow> locking \<Rightarrow> bool" where
  "locking_ok d c \<longleftrightarrow>
     (\<forall>i < length (lk_todo c). disciplined (d i) (held c i) (lk_todo c ! i))
     \<and> (\<forall>l i. lk_owner c l = Some i \<longrightarrow> i < length (lk_todo c))"

lemma disciplined_append:
  "disciplined d H as \<Longrightarrow> disciplined d {} bs \<Longrightarrow> disciplined d H (as @ bs)"
  by (induction d H as rule: disciplined.induct) auto

lemma disciplined_gc:
  "ProviderLock \<in> H \<Longrightarrow> ManagerLock \<in> H \<Longrightarrow>
     disciplined d H (concat (map (\<lambda>a. [Reads EvictionList, Reads (TimeAccessed a), Writes EvictionList, Writes SessionsMap]) es) @ bs)
       = disciplined d H bs"
  by (induction es) simp_all

lemma disciplined_call:
  assumes "c = Destroy True \<Longrightarrow> d"
  shows "disciplined d {} (actions_of c)"
proof (cases c)
  case (CollectExpired es kept)
  then show ?thesis
    by (cases kept) (simp_all add: SessionGC_actions_def disciplined_gc)
qed (use assms in \<open>auto simp: SessionInit_actions_def SessionRead_actions_def SessionDestroy_actions_def
      SessionUpdate_actions_def split: option.split\<close>)

lemma disciplined_program:
  assumes "Destroy True \<in> set calls \<Longrightarrow> d"
  shows "disciplined d {} (program calls)"
  using assms
proof (induction calls)
  case (Cons c calls)
  have "disciplined d {} (actions_of c)" using Cons.prems by (intro disciplined_call) auto
  moreover have "disciplined d {} (program calls)" using Cons.IH Cons.prems by auto
  ultimately show ?case by (simp add: program_def disciplined_append)
qed (simp add: program_def)

lemma starting_ok: "locking_ok (\<lambda>i. Destroy True \<in> set (css ! i)) (starting css)"
  by (auto simp: locking_ok_def starting_def held_def intro: disciplined_program)

lemma held_update:
  "held (c\<lparr>lk_todo := t, lk_owner := (lk_owner c)(l := Some i)\<rparr>) j = (if j = i then insert l (held c j) else held c j - {l})"
  "held (c\<lparr>lk_todo := t, lk_owner := (lk_owner c)(l := None)\<rparr>) j = held c j - {l}"
  "held (c\<lparr>lk_todo := t\<rparr>) j = held c j"
  by (auto simp: held_def)

lemma lock_step_ok:
  assumes "lock_step c c'" "locking_ok d c"
  shows "locking_ok d c'"
  using assms
proof (induction rule: lock_step.induct)
  case (take_lock i c l as)
  then have "disciplined (d i) (held c i) (Lock l # as)" by (metis locking_ok_def)
  moreover have "held c j - {l} = held c j" for j using take_lock.hyps(3) by (auto simp: held_def)
  ultimately show ?case
    using take_lock by (auto simp: locking_ok_def held_update nth_list_update)
next
  case (free_lock i c l as)
  then have own: "disciplined (d i) (held c i) (Unlock l # as)" by (metis locking_ok_def)
  then have "held c j - {l} = held c j" if "j \<noteq> i" for j using that by (auto simp: held_def)
  then show ?case
    using free_lock own by (auto simp: locking_ok_def held_update nth_list_update split: if_splits)
next
  case (read_access i c x as)
  then have "disciplined (d i) (held c i) (Reads x # as)" by (metis locking_ok_def)
  then show ?case
    using read_access by (auto simp: locking_ok_def held_update nth_list_update)
next
  case (write_access i c x as)
  then have "disciplined (d i) (held c i) (Writes x # as)" by (metis locking_ok_def)
  then show ?case
    using write_access by (auto simp: locking_ok_def held_update nth_list_update)
qed

lemma lock_steps_ok: "lock_step\<^sup>*\<^sup>* c c' \<Longrightarrow> locking_ok d c \<Longrightarrow> locking_ok d c'"
  by (induction rule: rtranclp_induct) (auto intro: lock_step_ok)

section \<open>Progress\<close>

lemma sum_list_shorten:
  "i < length xss \<Longrightarrow> xss ! i = a # as \<Longrightarrow> sum_list (map length xss) = Suc (sum_list (map length (xss[i := as])))"
proof (induction xss arbitrary: i)
  case (Cons xs xss)
  then show ?case by (cases i) auto
qed simp

lemma lock_step_remaining: "lock_step c c' \<Longrightarrow> remaining c = Suc (remaining c')"
  by (induction rule: lock_step.induct) (simp_all add: remaining_def sum_list_shorten)

lemma lock_steps_remaining: "(lock_step ^^ n) c c' \<Longrightarrow> remaining c = n + remaining c'"
proof (induction n arbitrary: c')
  case (Suc n)
  then obtain b where "(lock_step ^^ n) c b" "lock_step b c'" by auto
  with Suc.IH lock_step_remaining show ?case by fastforce
qed simp

lemma finished_remaining: "finished c \<longleftrightarrow> remaining c = 0"
  by (simp add: finished_def remaining_def list_all_iff)

text \<open>A goroutine can go on unless it waits for a lock that is taken.\<close>

lemma can_step:
  assumes "i < length (lk_todo c)" "lk_todo c ! i = a # as" "\<And>l. a = Lock l \<Longrightarrow> lk_owner c l = None"
  shows "\<exists>c'. lock_step c c'"
  using assms lock_step.intros [of i c] by (cases a) blast+

text \<open>The holder of the provider's lock never waits; then nor does the holder of the manager's.\<close>

lemma no_deadlock:
  assumes ok: "locking_ok d c" and "\<not> finished c"
  shows "\<exists>c'. lock_step c c'"
proof -
  have holder: "\<exists>a as. lk_todo c ! i = a # as \<and> disciplined (d i) (held c i) (a # as) \<and> i < length (lk_todo c)"
    if "lk_owner c l = Some i" for l i
  proof -
    have "i < length (lk_todo c)" "disciplined (d i) (held c i) (lk_todo c ! i)" "l \<in> held c i"
      using ok that by (auto simp: locking_ok_def held_def)
    then show ?thesis by (cases "lk_todo c ! i") auto
  qed
  show ?thesis
  proof (cases "lk_owner c ProviderLock")
    case (Some i)
    with holder obtain a as where a: "lk_todo c ! i = a # as" "disciplined (d i) (held c i) (a # as)" "i < length (lk_todo c)"
      by blast
    moreover have "a \<noteq> Lock l" for l using a(2) Some by (cases l) (auto simp: held_def)
    ultimately show ?thesis by (intro can_step) auto
  next
    case free: None
    show ?thesis
    proof (cases "lk_owner c ManagerLock")
      case (Some i)
      with holder obtain a as where a: "lk_todo c ! i = a # as" "disciplined (d i) (held c i) (a # as)" "i < length (lk_todo c)"
        by blast
      moreover have "lk_owner c l = None" if "a = Lock l" for l using a(2) Some that free by (cases l) (auto simp: held_def)
      ultimately show ?thesis by (intro can_step) auto
    next
      case None
      from assms(2) obtain i where i: "i < length (lk_todo c)" "lk_todo c ! i \<noteq> []"
        by (auto simp: finished_def list_all_length)
      then obtain a as where "lk_todo c ! i = a # as" by (cases "lk_todo c ! i") auto
      moreover have "lk_owner c l = None" for l using free None by (cases l) auto
      ultimately show ?thesis using i(1) by (intro can_step) auto
    qed
  qed
qed

section \<open>Races\<close>

lemma held_iff: "l \<in> held c i \<longleftrightarrow> lk_owner c l = Some i"
  by (simp add: held_def)

lemma held_disjoint: "i \<noteq> j \<Longrightarrow> held c i \<inter> held c j = {}"
  by (auto simp: held_def)

lemma some_mutex: "H \<noteq> {} \<longleftrightarrow> ManagerLock \<in> H \<or> ProviderLock \<in> H"
  by (metis ex_in_conv mutex.exhaust)

lemma race_locks:
  assumes "locking_ok d c" "race c i j x" "\<And>a. x \<noteq> Values a"
  shows "x \<in> {SessionsMap, EvictionList}
    \<and> (\<exists>m p. {m, p} = {i, j} \<and> lk_owner c ManagerLock = Some m \<and> lk_owner c ProviderLock = Some p \<and> d m)"
proof -
  obtain as bs b where r: "i < length (lk_todo c)" "j < length (lk_todo c)" "i \<noteq> j"
    "lk_todo c ! i = Writes x # as" "lk_todo c ! j = b # bs" "b = Writes x \<or> b = Reads x"
    using assms(2) by (auto simp: race_def)
  then have "disciplined (d i) (held c i) (Writes x # as)" "disciplined (d j) (held c j) (b # bs)"
    using assms(1) by (metis locking_ok_def)+
  then have "guarded (d i) (held c i) (Writes x)" "guarded (d j) (held c j) b" using r(6) by auto
  then have "x \<in> {SessionsMap, EvictionList} \<and>
      (lk_owner c ManagerLock = Some i \<and> lk_owner c ProviderLock = Some j \<and> d i
       \<or> lk_owner c ManagerLock = Some j \<and> lk_owner c ProviderLock = Some i \<and> d j)"
    using assms(3) r(3,6) held_disjoint [OF r(3), of c] by (cases x) (auto simp: some_mutex held_iff)
  then show ?thesis by auto
qed

section \<open>Running a schedule\<close>

definition advance :: "nat \<Rightarrow> action list \<Rightarrow> locking \<Rightarrow> locking" where
  "advance i as c = c\<lparr>lk_todo := (lk_todo c)[i := as]\<rparr>"

definition lock_next :: "nat \<Rightarrow> locking \<Rightarrow> locking option" where
  "lock_next i c =
     (if \<not> i < length (lk_todo c) then None
      else case lk_todo c ! i of
        [] \<Rightarrow> None
      | Lock l # as \<Rightarrow>
          (if lk_owner c l = None then Some ((advance i as c)\<lparr>lk_owner := (lk_owner c)(l := Some i)\<rparr>) else None)
      | Unlock l # as \<Rightarrow> Some ((advance i as c)\<lparr>lk_owner := (lk_owner c)(l := None)\<rparr>)
      | Reads x # as \<Rightarrow> Some (advance i as c)
      | Writes x # as \<Rightarrow> Some (advance i as c))"

fun lock_run :: "nat list \<Rightarrow> locking \<Rightarrow> locking option" where
  "lock_run [] c = Some c"
| "lock_run (i # is) c = (case lock_next i c of None \<Rightarrow> None | Some c' \<Rightarrow> lock_run is c')"

lemma lock_step_next: "lock_step c c' \<longleftrightarrow> (\<exists>i. lock_next i c = Some c')"
proof
  assume "lock_step c c'"
  then show "\<exists>i. lock_next i c = Some c'"
  proof (induction rule: lock_step.induct)
    case (take_lock i c l as)
    then show ?case by (intro exI [of _ i]) (simp add: lock_next_def advance_def)
  next
    case (free_lock i c l as)
    then show ?case by (intro exI [of _ i]) (simp add: lock_next_def advance_def)
  next
    case (read_access i c x as)
    then show ?case by (intro exI [of _ i]) (simp add: lock_next_def advance_def)
  next
    case (write_access i c x as)
    then show ?case by (intro exI [of _ i]) (simp add: lock_next_def advance_def)
  qed
next
  assume "\<exists>i. lock_next i c = Some c'"
  then obtain i where i: "lock_next i c = Some c'" ..
  then have len: "i < length (lk_todo c)" by (auto simp: lock_next_def split: if_splits)
  with i show "lock_step c c'"
    using lock_step.intros [OF len]
    by (auto simp: lock_next_def advance_def split: list.splits action.splits if_splits)
qed

lemma lock_run_steps: "lock_run is c = Some c' \<Longrightarrow> lock_step\<^sup>*\<^sup>* c c'"
proof (induction "is" arbitrary: c)
  case (Cons i "is")
  then obtain b where "lock_next i c = Some b" "lock_run is b = Some c'" by (auto split: option.splits)
  with Cons.IH lock_step_next show ?case by (meson converse_rtranclp_into_rtranclp)
qed simp

section \<open>The accesses and the operations\<close>

text \<open>What differs between two states of the provider, of the data that existed before.\<close>

definition changed :: "provider \<Rightarrow> provider \<Rightarrow> location set" where
  "changed p p' =
     {x. case x of
           SessionsMap \<Rightarrow> pr_sessions p' \<noteq> pr_sessions p
         | EvictionList \<Rightarrow> pr_list p' \<noteq> pr_list p
         | TimeAccessed a \<Rightarrow> a < length (pr_heap p) \<and> ss_timeAccessed (pr_heap p' ! a) \<noteq> ss_timeAccessed (pr_heap p ! a)
         | Values a \<Rightarrow> a < length (pr_heap p) \<and> ss_value (pr_heap p' ! a) \<noteq> ss_value (pr_heap p ! a)}"

definition written :: "action list \<Rightarrow> location set" where
  "written as = {x. Writes x \<in> set as}"

lemma changed_iff:
  "SessionsMap \<in> changed p p' \<longleftrightarrow> pr_sessions p' \<noteq> pr_sessions p"
  "EvictionList \<in> changed p p' \<longleftrightarrow> pr_list p' \<noteq> pr_list p"
  "TimeAccessed a \<in> changed p p' \<longleftrightarrow>
     a < length (pr_heap p) \<and> ss_timeAccessed (pr_heap p' ! a) \<noteq> ss_timeAccessed (pr_heap p ! a)"
  "Values a \<in> changed p p' \<longleftrightarrow> a < length (pr_heap p) \<and> ss_value (pr_heap p' ! a) \<noteq> ss_value (pr_heap p ! a)"
  by (simp_all add: changed_def)

lemma location_subset:
  "A \<subseteq> B \<longleftrightarrow> (SessionsMap \<in> A \<longrightarrow> SessionsMap \<in> B) \<and> (EvictionList \<in> A \<longrightarrow> EvictionList \<in> B)
     \<and> (\<forall>a. TimeAccessed a \<in> A \<longrightarrow> TimeAccessed a \<in> B) \<and> (\<forall>a. Values a \<in> A \<longrightarrow> Values a \<in> B)" (is "_ \<longleftrightarrow> ?r")
proof
  assume r: "?r"
  show "A \<subseteq> B"
  proof
    show "x \<in> B" if "x \<in> A" for x using r that by (cases x) auto
  qed
qed auto

lemma changed_written:
  "changed p (snd (SessionInit now sid p)) \<subseteq> written SessionInit_actions"
  "changed p (snd (SessionRead now sid p)) \<subseteq> written (SessionRead_actions (pr_sessions p sid \<noteq> None))"
  "changed p (SessionDestroy_provider sid p) \<subseteq> written (SessionDestroy_actions (pr_sessions p sid \<noteq> None))"
  "changed p (SessionUpdate now sid p) \<subseteq> written (SessionUpdate_actions (pr_sessions p sid))"
  by (auto simp: location_subset changed_iff written_def SessionInit_def SessionInit_actions_def SessionRead_def SessionRead_actions_def
      SessionDestroy_provider_def SessionDestroy_actions_def SessionUpdate_def SessionUpdate_actions_def Let_def
      nth_append nth_update_if split: option.splits if_splits)

lemma changed_written_store:
  "changed p (store_Set now a k v p) \<subseteq> written (actions_of (SetValue a (pr_sessions p (ss_sid (pr_heap p ! a)))))"
  "changed p (snd (store_Get now a k p)) \<subseteq> written (actions_of (GetValue a (pr_sessions p (ss_sid (pr_heap p ! a)))))"
  "changed p (store_Delete now a k p) \<subseteq> written (actions_of (DeleteValue a (pr_sessions p (ss_sid (pr_heap p ! a)))))"
  by (auto simp: location_subset changed_iff written_def store_Set_def store_Get_def store_Delete_def set_values_def SessionUpdate_def
      SessionUpdate_actions_def Let_def nth_update_if split: option.splits if_splits)

lemma changed_written_gc:
  "\<exists>gone kept. changed p (SessionGC life clock p) \<subseteq> written (SessionGC_actions gone kept)"
proof -
  have "pr_heap (SessionGC life clock p) = pr_heap p"
    by (induction life clock p rule: SessionGC.induct) (subst SessionGC.simps, simp add: Let_def)
  then have "changed p (SessionGC life clock p) \<subseteq> written (SessionGC_actions [0] None)"
    by (auto simp: location_subset changed_iff written_def SessionGC_actions_def)
  then show ?thesis by blast
qed

section \<open>Properties\<close>

text \<open>
  C18: The session package never deadlocks and never runs on. However the calls of any number of
  requests and collector runs interleave, some goroutine can go on until all calls are done, and
  all are done after exactly as many steps as the calls have together.
\<close>

theorem session_calls_finish:
  assumes "(lock_step ^^ n) (starting css) c"
  shows "(finished c \<longleftrightarrow> n = sum_list (map (\<lambda>cs. length (program cs)) css))
    \<and> (finished c \<or> (\<exists>c'. lock_step c c'))"
proof -
  have "locking_ok (\<lambda>i. Destroy True \<in> set (css ! i)) c"
    by (rule lock_steps_ok [OF relpowp_imp_rtranclp [OF assms] starting_ok])
  moreover have "remaining (starting css) = sum_list (map (\<lambda>cs. length (program cs)) css)"
    by (simp add: remaining_def starting_def o_def)
  ultimately show ?thesis
    using no_deadlock lock_steps_remaining [OF assms] by (auto simp: finished_remaining)
qed

lemma session_calls_finish_witness: "\<exists>c'. lock_step (starting [[StartNew, SetValue 0 (Some 0)], [Destroy True]]) c'"
  using session_calls_finish [of 0 "[[StartNew, SetValue 0 (Some 0)], [Destroy True]]"]
  by (simp add: finished_def starting_def program_def)

text \<open>
  C19: What the two locks protect. Whatever calls run at the same time, two goroutines meet at a
  shared location outside the values of one session, one of them to write it, only if one of them
  is in a \<open>SessionDestroy\<close> that found its session: then the location is the map or the list of the
  provider, and one goroutine holds the manager's lock and the other the provider's. In particular
  without logouts of such sessions the provider is free of data races.
\<close>

theorem session_races_need_destroy:
  assumes "lock_step\<^sup>*\<^sup>* (starting css) c" "race c i j x" "\<And>a. x \<noteq> Values a"
  shows "x \<in> {SessionsMap, EvictionList}
    \<and> (\<exists>m p. {m, p} = {i, j} \<and> lk_owner c ManagerLock = Some m \<and> lk_owner c ProviderLock = Some p
          \<and> Destroy True \<in> set (css ! m))"
  using race_locks [OF lock_steps_ok [OF assms(1) starting_ok] assms(2,3)] .

text \<open>The session calls of a logout, and of a request that checks its login, with one cookie.\<close>

definition logout_calls :: "nat \<Rightarrow> session_call list" where
  "logout_calls a = [StartWith True, DeleteValue a (Some a), Destroy True]"

definition login_check_calls :: "nat \<Rightarrow> session_call list" where
  "login_check_calls a = [StartWith True, GetValue a (Some a)]"

definition login_calls :: "nat \<Rightarrow> session_call list" where
  "login_calls a = [StartWith True, SetValue a (Some a)]"

lemmas calls_simps = logout_calls_def login_check_calls_def login_calls_def program_def SessionRead_actions_def
  SessionUpdate_actions_def SessionDestroy_actions_def starting_def lock_next_def advance_def race_def

lemma logout_race:
  "\<exists>c. lock_step\<^sup>*\<^sup>* (starting [logout_calls a, login_check_calls a]) c \<and> race c 0 1 SessionsMap"
proof -
  have "\<exists>c. lock_run (replicate 3 1 @ replicate 11 0 @ [1]) (starting [logout_calls a, login_check_calls a]) = Some c
      \<and> race c 0 1 SessionsMap"
    by (simp add: calls_simps numeral_eq_Suc)
  then show ?thesis using lock_run_steps by blast
qed

lemma value_race:
  "\<exists>c. lock_step\<^sup>*\<^sup>* (starting [login_calls a, login_check_calls a]) c \<and> race c 0 1 (Values a)"
proof -
  have "\<exists>c. lock_run (replicate 8 1 @ replicate 3 0) (starting [login_calls a, login_check_calls a]) = Some c
      \<and> race c 0 1 (Values a)"
    by (simp add: calls_simps numeral_eq_Suc)
  then show ?thesis using lock_run_steps by blast
qed

text \<open>
  The races happen. A logout with a session cookie and any other request with that cookie can
  come to the point where one writes the map of sessions while the other reads it, and a login and
  another request to where one writes and the other reads the values of the session. Go ends the
  process when it detects concurrent access to a map.
\<close>

lemma session_races_happen:
  "(\<exists>c. lock_step\<^sup>*\<^sup>* (starting [logout_calls a, login_check_calls a]) c \<and> race c 0 1 SessionsMap)
   \<and> (\<exists>c. lock_step\<^sup>*\<^sup>* (starting [login_calls a, login_check_calls a]) c \<and> race c 0 1 (Values a))"
  using logout_race value_race by simp

lemma session_races_need_destroy_witness:
  "\<exists>c. race c 0 1 SessionsMap \<and> (lk_owner c ManagerLock = Some 0 \<or> lk_owner c ManagerLock = Some 1)"
proof -
  obtain c where c: "lock_step\<^sup>*\<^sup>* (starting [logout_calls 0, login_check_calls 0]) c" "race c 0 1 SessionsMap"
    using logout_race by blast
  from session_races_need_destroy [OF this] have "\<exists>m p. {m, p} = {0, 1} \<and> lk_owner c ManagerLock = Some m" by auto
  then show ?thesis using c(2) by (metis insertE insert_iff singletonD)
qed

end
