(* ===== verification/Spec2Isabelle.thy ===== *)
theory Spec2Isabelle
  imports Uploads Paging Refinement Server Locks
begin

text \<open>
  This development models the Go service under src/app: the contract on the Fabric ledger
  (chaincode/main.go), the business code that talks to it (business/certificateIO.go), the Fabric
  client (fabricClient/setup.go, query.go, execute.go), the login sessions (session/*.go), the
  HTTP handlers and routes (app.go), and the command line (server.go, version.go, benchmark.go).

  How the parts interact. A request reaches a handler through the route table; the handler asks
  the session manager whether the client is logged in and calls an operation of the business code,
  which calls \<open>Query\<close> or \<open>Execute\<close> of the Fabric client; the network runs the contract on the
  ledger, and the answer travels back as a value, an error and a status code. Uploads and
  downloads go through files of the local disk on the way. A Go result \<open>(value, error, code)\<close> is a
  triple of optional value, optional error and number; a panic is a value of the type
  \<open>outcome\<close>, and the end of the process, or an endless loop, one of the type \<open>served\<close>.

  The theories, from the bottom.

    Prelude: outcomes, errors, sequencing, association lists with \<open>put\<close>.
    Codecs, Utf8, Decimal, Json: base64 and query escaping, UTF-8, decimal numbers, and
      encoding/json's printer and parser, with their round trips. The parser has fuel; twice the
      length of the text plus one is enough, and more changes nothing (\<open>json_parse_enough\<close>).
    Records: the structs of certificateIO.go and main.go with their JSON encodings.
    Shim, Clock: the functions of the vendored shim the contract calls, over the state of one
      invocation, and the time stamps. Clock, peers and their refusals are parameters.
    Chaincode: the contract; the ledger it builds is refined to two maps, and its invariant,
      its panics and what a reader gets back are proved over all histories of invocations.
    Fabric: \<open>FabricSetup\<close>, \<open>Query\<close>, \<open>Execute\<close>. The SDK is a record of calls (third-party code). The
      locale \<open>fabric_network\<close> states what it documents, \<open>ledger_client\<close> what the business code uses;
      both are interpreted on a network that runs the contract on every request, whose peers,
      faults and events an environment chooses (\<open>connected\<close>).
    Certificates, Paths, Files: \<open>CertificateIn\<close>, \<open>CertificateOut\<close>, \<open>ChangeStatus\<close>, \<open>UploadFile\<close>,
      \<open>DownloadFile\<close>, with path/filepath and a disk on which the environment may let any call fail.
    RichQuery, Selectors, Couch: the list queries. The query text is shown to parse to the intended
      selector (Selectors). The paging loop may run for ever and is a \<open>partial_function\<close> into
      option; the locale \<open>paged_list\<close> states what a database must promise for it to end with the
      right page, and Couch interprets it on a network whose peers read the selector and the sort
      clause of the query text as CouchDB documents them (the order of strings is a parameter; a
      list is in the order asked for if it is total and transitive, \<open>collation\<close>).
    Writes: which operations can change the ledger, and the invariant they keep.
    Session: stores, provider, collector and manager; the interface the handlers use is the
      locale \<open>session_provider\<close>, interpreted on the memory provider.
    Handlers, Service: the handlers, middleware and routes over the whole state of the server;
      histories of requests interleaved with collector runs.
    Sample: requests on a network that works, and a sample service for the concrete instances.
    Setup, Server: Initialize, InstallAndInstantiateCC and the peer lookup; commands and \<open>main\<close>.
    Programs: every handler and business operation once more, as a program of atomic steps
      (\<open>CertificateIn_steps\<close> for \<open>CertificateIn\<close>, and so on). A step is one call on what requests
      share: a call of the session package, a call on the disk, a \<open>Query\<close>, an \<open>Execute\<close>. A program
      that no other interrupts is shown to do what the handler does.
    Interleaving: the programs of any number of requests and collector runs in one pool, of which
      any may make the next step. The locale \<open>rely_guarantee\<close> carries an invariant of the steps over
      to the pool; its interpretation is on the server (\<open>sound\<close>, \<open>others\<close>, \<open>mine\<close>).
    Overlaps, Uploads: what holds for all overlapping requests, and what goes wrong with a status
      change, a logout or a second upload that comes between the steps of a request.
    Answers: the number of steps that a request outside the lists never exceeds (\<open>most_steps\<close>:
      4 for a post, 12 for an upload, 2 and 3 for every status of a status change), and that it is
      answered within them, whatever the others do.
    Refinement: the specification of the whole service, a machine (\<open>spec_step\<close>) over the two maps
      and the sessions with a right password; every interleaving is a run of it.
    Listing: what the public list shows while others write; \<open>yields\<close> carries a fact about each page
      to the reply.
    Paging: the lists end too: on the database of Couch the position of the loop in the result only
      grows, list programs write nothing (\<open>silent\<close>), and every other step adds at most one entry to
      the ledger, so six steps, one for every entry and one for every such step are enough.
    Locks: the accesses of the session package to shared data under its two locks, in the order of
      the code, for any number of goroutines: progress, and which accesses race.

  This theory has the properties that span the parts: logging in and out, who can change the
  ledger, the invariant over histories of requests, what the public list shows, what becomes
  of a posted certificate (it is served, and listed if it is public), and how requests are
  answered. Those over interleavings are in Refinement, Overlaps, Answers, Paging, Listing and
  Uploads.

  Not modelled: the log output; TLS and the listening sockets (parameters of Server); the HTTP
  parsing of net/http and the path normalisation of the router library (a request is given as
  method, path segments, cookie, body, form and headers); the contents of Set-Cookie beyond the
  session identifier; session/session_test.go, demonstration handlers that nothing serves.

  The grain of the interleavings. Each call of the session package is one step of Programs, as
  its locks intend; Locks shows where they do not suffice, and what a data race does to a Go
  process is not modelled. \<open>CertificateOut\<close> and \<open>getNewBookmarks\<close> make one call each and so are
  one step, \<open>Execute\<close> is one step with its event, and so are \<open>deleteFileOnDisk\<close> and the write and
  open of a download. An open file is named by its path; the properties that hold for all
  interleavings do not depend on what a file holds, and the one that shows mixed uploads opens the
  file on both sides before it writes, without a removal in between.
\<close>

section \<open>Properties\<close>

text \<open>
  C13: Nobody is logged in without a password. After any history of requests and collector
  runs of a started server, whatever cookies the clients invent, a session counts as logged in
  only if some earlier login request ran under its identifier with one of the two accounts'
  passwords, and no logout request has run under it since.
\<close>

theorem login_needs_password:
  assumes "logged_in (run_events ap evs (started d w)) sid"
  shows "\<exists>k < length evs. login_event ap (evs ! k) (run_events ap (take k evs) (started d w)) sid
      \<and> (\<forall>j. k < j \<longrightarrow> j < length evs \<longrightarrow> \<not> logout_event ap (evs ! j) (run_events ap (take j evs) (started d w)) sid)"
  using logged_in_since [OF started_sessions(1,2) assms] .

lemma login_needs_password_witness:
  "login_event (sample_app sample_env) login_request (started fresh_disk (sample_net [])) sample_sid"
proof -
  have "logged_in (run_events (sample_app sample_env) [login_request] (started fresh_disk (sample_net []))) sample_sid"
    by (simp add: sample_logged_in)
  from login_needs_password [OF this] show ?thesis by simp
qed

text \<open>
  C7: Only a client who has logged in changes the ledger. If a request to a started server,
  after any history, changes the ledger of the network, then it carries the cookie of a session
  under which an earlier login request gave a right password, with no logout since.
\<close>

theorem ledger_change_needs_login:
  assumes "ap_fabric ap = connected env"
    and "net_ledger (sv_world (run_event ap (Request meth path ex) (run_events ap evs (started d w))))
       \<noteq> net_ledger (sv_world (run_events ap evs (started d w)))"
  shows "has_cookie ex \<and>
    (\<exists>k < length evs. login_event ap (evs ! k) (run_events ap (take k evs) (started d w)) (unescaped (the (ex_cookie ex)))
      \<and> (\<forall>j. k < j \<longrightarrow> j < length evs \<longrightarrow>
           \<not> logout_event ap (evs ! j) (run_events ap (take j evs) (started d w)) (unescaped (the (ex_cookie ex)))))"
proof -
  let ?s = "run_events ap evs (started d w)"
  have ok: "session_ok (prov ?s)" by (simp add: run_events_ok)
  have "admitted ex ?s"
  proof (rule ccontr)
    assume "\<not> admitted ex ?s"
    then have "net_ledger (sv_world (snd (handler_of t ap (routed params ex) ?s))) = net_ledger (sv_world ?s)" for t params
      using net.handler_keeps [OF assms(1) ok, of "routed params ex" t] by simp
    with assms(2) show False by (simp add: serve_routed split: option.splits prod.splits)
  qed
  then show ?thesis
    using logged_in_since [OF started_sessions(1,2), of ap evs d w] by (simp add: admitted_def)
qed

lemma put_nonempty: "put k v l \<noteq> []"
  by (cases "(k, v, l)" rule: put.cases) auto

lemma sample_post_changes:
  assumes "logged_in s sample_sid" "session_ok (prov s)" "sv_world s = sample_net []"
  shows "net_ledger (sv_world (run_event (sample_app sample_env) post_request s)) \<noteq> net_ledger (sv_world s)"
proof -
  let ?ex = "routed Map.empty (sample_exchange (Some (query_escape sample_sid)) (marshal_cert sample_cert))"
  have adm: "admitted ?ex s"
    using assms(1) sample_cookie by (simp add: admitted_def has_cookie_def)
  obtain b cs s2 where l: "isLogin (sample_app sample_env) ?ex s = (b, cs, s2)"
    by (cases "isLogin (sample_app sample_env) ?ex s") auto
  have s2: "b" "sv_world s2 = sample_net []"
    using isLogin_law(2,5) [OF assms(2) l] adm assms(3) by simp_all
  have u: "unmarshal_cert (marshal_cert sample_cert) = (sample_cert, None)" by (simp add: cert_roundtrip)
  obtain txid n' where run: "CertificateIn (connected sample_env) (marshal_cert sample_cert) (sample_net []) = (Ret (Some txid, None, 200), n')"
    using healthy_CertificateIn [OF sample_healthy u, of "sample_net []"] by auto
  have "net_ledger n' \<noteq> []"
  proof (cases rule: net.CertificateIn_cases [of "marshal_cert sample_cert" sample_env "sample_net []"])
    case (stored c up txid2 w' p t)
    from run stored(2) have "n' = w'" by simp
    then show ?thesis using put_nonempty stored(7) by metis
  qed (use run in auto)
  moreover have "find_route buildRouter POST [''v1'', ''certificate''] = Some (PostCertificate, Map.empty)"
    by (simp add: buildRouter_def)
  ultimately show ?thesis
    using l s2 run assms(3) by (simp add: post_request_def serve_routed postCertificate_def call_world_def)
qed

lemma ledger_change_needs_login_witness:
  "has_cookie (sample_exchange (Some (query_escape sample_sid)) (marshal_cert sample_cert))
    \<and> login_event (sample_app sample_env) login_request (started fresh_disk (sample_net [])) sample_sid"
proof -
  let ?s = "run_events (sample_app sample_env) [login_request] (started fresh_disk (sample_net []))"
  have "sv_world ?s = sample_net []" by (simp add: sample_logged_in(2))
  then have "net_ledger (sv_world (run_event (sample_app sample_env) post_request ?s)) \<noteq> net_ledger (sv_world ?s)"
    by (intro sample_post_changes run_events_ok) (simp_all add: sample_logged_in)
  from ledger_change_needs_login [OF sample_app_fabric this [unfolded post_request_def]] show ?thesis
    using sample_cookie by simp
qed

text \<open>
  The ledger stays sound whatever clients do. From a ledger with the service's invariant
  (keys distinct, every entry a stamped certificate under its own identifier or a file, every
  open certificate with an upload mark and a file), any history of requests and collector runs
  leads to one with the invariant, and the session provider keeps its own.
\<close>

lemma service_keeps_ledger:
  assumes "ap_fabric ap = connected env" "ledger_inv (net_ledger w)"
  shows "ledger_inv (net_ledger (sv_world (run_events ap evs (started d w))))
    \<and> session_ok (prov (run_events ap evs (started d w)))"
  using run_events_inv [OF assms(1), of "started d w"] assms(2) by (simp add: run_events_ok)

lemma service_keeps_ledger_witness:
  "ledger_inv (net_ledger (sv_world (run_events (sample_app sample_env) [login_request, Collect, post_request]
     (started fresh_disk (sample_net [])))))"
  by (rule service_keeps_ledger [THEN conjunct1]) simp_all

lemma answered_shown:
  assumes "r = list_answer R qc" "c \<in> set (answered (Some (r, w)))"
  shows "c \<in> set R"
  using assms(2) by (auto simp: assms(1) answered_list_answer shown_page_def dest: in_set_takeD in_set_dropD)

lemma open_list_covered:
  assumes "ledger_inv (net_ledger w)" "unmarshal_conditions b = (qc, None)" "plain_conditions qc"
    and "paging_ok qc (net_ledger w)"
    and "c \<in> set (answered (OpenListRichQuery (connected (couch_env le clock)) b l w))"
  shows "isOpen c \<and> hasUpload c \<and> abs_files (net_ledger w) (certId c) \<noteq> None"
proof -
  have inv: "service_ledger (net_ledger w)" using assms(1) by (simp add: ledger_inv_def)
  obtain L w' where L: "OpenListRichQuery (connected (couch_env le clock)) b l w = Some (list_answer (map shorten L) qc, w')"
    "right_list le (\<lambda>c. isOpen c \<and> isCompleted c \<and> \<not> isDeleted c \<and> fulfils le qc c) (net_ledger w) L"
    using open_list_result [OF assms(2,3) inv assms(4), of le clock l] by blast
  have "c \<in> set (map shorten L)" by (rule answered_shown [OF refl assms(5) [unfolded L(1)]])
  then obtain c0 where c0: "c = shorten c0" "c0 \<in> set (stored_certs (net_ledger w))" "isOpen c0"
    using right_list_set [OF L(2)] by auto
  with open_stored_covered [OF assms(1) c0(2,3)] show ?thesis by (simp add: shorten_def)
qed

text \<open>
  What the public list shows is covered by a file. After any history of a started service
  on a database as CouchDB documents it, every certificate that the public list answers anyone
  with is open and marked as uploaded, and the ledger holds its file.
\<close>

lemma public_list_has_files:
  assumes "ap_fabric ap = connected (couch_env le clock)" "ledger_inv (net_ledger w)"
    and "unmarshal_conditions b = (qc, None)" "plain_conditions qc"
    and "paging_ok qc (net_ledger (sv_world (run_events ap evs (started d w))))"
    and "c \<in> set (answered (OpenListRichQuery (ap_fabric ap) b l (sv_world (run_events ap evs (started d w)))))"
  shows "isOpen c \<and> hasUpload c \<and> abs_files (net_ledger (sv_world (run_events ap evs (started d w)))) (certId c) \<noteq> None"
  using open_list_covered [OF _ assms(3-5)] run_events_inv [OF assms(1), of "started d w"] assms(1,2,6) by simp

lemma public_list_has_files_witness:
  "isOpen (shorten open_cert) \<and> hasUpload (shorten open_cert)
    \<and> abs_files (net_ledger (sample_net filed_ledger)) (certId (shorten open_cert)) \<noteq> None"
  using public_list_has_files [OF sample_app_fabric _ list_body list_conditions_ok(1), where w = "sample_net filed_ledger"
      and evs = "[]" and d = fresh_disk and c = "shorten open_cert" and le = "(=)" and clock = "\<lambda>_. 0" and l = False] filed_listed filed_ledger_inv list_conditions_ok(2)
  by (simp add: paging_ok_def fits_def filed_ledger_def)

text \<open>
  C27: Logging in works. A login request without a session cookie and with a right password is
  answered with status 200 and one cookie, and every request that brings this cookie to the
  server as the login left it is treated as logged in; the random identifier must not be empty.
\<close>

theorem login_admits:
  assumes "right_login ex" "\<not> has_cookie ex" "ex_write ex = None"
    and "ap_random ap (sv_tick (run_events ap evs (started d w))) = Some r" "r \<noteq> ''''"
  shows "\<exists>rp v. fst (serve POST [''v1'', ''login''] ap ex (run_events ap evs (started d w))) = Answer rp
    \<and> rp_status rp = 200 \<and> rp_cookies rp = [SetSession v]
    \<and> (\<forall>ex'. ex_cookie ex' = Some v \<longrightarrow>
          admitted ex' (snd (serve POST [''v1'', ''login''] ap ex (run_events ap evs (started d w)))))"
proof -
  let ?s = "run_events ap evs (started d w)" and ?ex = "routed Map.empty ex"
  have route: "find_route buildRouter POST [''v1'', ''login''] = Some (Login, Map.empty)" by (simp add: find_login)
  have ok: "session_ok (prov ?s)" by (simp add: run_events_ok)
  let ?v = "query_escape (sessionId (Some r))"
  have sid: "session_of ap ex ?s = sessionId (Some r)" using assms(2,4) by (simp add: session_of_def)
  obtain h s1 where st: "start_session ap ?ex ?s = (h, [SetSession ?v], s1)"
    using assms(2,4) by (auto simp: start_session_def SessionStart_def has_cookie_def SessionInit_def Let_def)
  obtain b u where b: "ex_body ex = Inr b" "unmarshal_user b = (u, None)" "isRightUser u"
    using assms(1) by (auto simp: right_login_def split: sum.splits prod.splits option.splits)
  have "fst (postLogin ap ?ex ?s) = Answer \<lparr>rp_status = 200, rp_headers = ex_headers ?ex, rp_cookies = [SetSession ?v],
      rp_body = ResultBody \<lparr>rs_ResultCode = 200, rs_Message = Message ''login in'', rs_Data = TextData ''''\<rparr>\<rparr>"
    using st b assms(3) by (simp add: postLogin_def encode_result_def)
  moreover have "logged_in (snd (postLogin ap ?ex ?s)) (sessionId (Some r))"
    using postLogin_sessions(2) [OF ok, of ap ?ex "sessionId (Some r)"] assms(1) sid by simp
  moreover have "?v \<noteq> ''''" "unescaped ?v = sessionId (Some r)"
    using assms(5) by (auto simp: unescaped_def sessionId_def)
  ultimately show ?thesis
    by (simp add: serve_routed route admitted_def has_cookie_def)
qed

lemma login_admits_witness:
  "\<exists>v. admitted (sample_exchange (Some v) '''')
     (snd (serve POST [''v1'', ''login''] (sample_app sample_env) (sample_exchange None login_body)
       (run_events (sample_app sample_env) [] (started fresh_disk (sample_net [])))))"
  using login_admits [OF sample_login, of None "sample_app sample_env" "[]" fresh_disk "sample_net []" "replicate 32 (CHR ''r'')"]
  by (auto simp: has_cookie_def sample_app_def) (metis sample_exchange_simps(1))

text \<open>
  C26: Logging out works although the session is not destroyed. A logout request with a session
  cookie is answered with status 200 and the text "logout success", and afterwards no request
  with that cookie is treated as logged in.
\<close>

theorem logout_ends_session:
  assumes "has_cookie ex" "ex_write ex = None"
  shows "\<exists>rp. fst (serve POST [''v1'', ''logout''] ap ex (run_events ap evs (started d w))) = Answer rp
    \<and> rp_status rp = 200
    \<and> rp_body rp = ResultBody \<lparr>rs_ResultCode = 200, rs_Message = Message ''logout success'', rs_Data = NilData\<rparr>
    \<and> (\<forall>ex'. ex_cookie ex' = ex_cookie ex \<longrightarrow>
          \<not> admitted ex' (snd (serve POST [''v1'', ''logout''] ap ex (run_events ap evs (started d w)))))"
proof -
  let ?s = "run_events ap evs (started d w)" and ?ex = "routed Map.empty ex"
  have route: "find_route buildRouter POST [''v1'', ''logout''] = Some (Logout, Map.empty)" by (simp add: find_logout)
  have ok: "session_ok (prov ?s)" by (simp add: run_events_ok)
  have "\<not> logged_in (snd (postLogout ap ?ex ?s)) (unescaped (the (ex_cookie ex)))"
    using postLogout_sessions(2) [OF ok, of ap ?ex "unescaped (the (ex_cookie ex))"] assms(1)
    by (auto simp: session_of_def)
  moreover obtain cs where "fst (postLogout ap ?ex ?s) = Answer \<lparr>rp_status = 200, rp_headers = ex_headers ?ex, rp_cookies = cs,
      rp_body = ResultBody (zero_result\<lparr>rs_ResultCode := 200, rs_Message := Message ''logout success''\<rparr>)\<rparr>"
    using postLogout_sessions(5) [OF ok, of ?ex ap] assms by auto
  ultimately show ?thesis
    by (auto simp: serve_routed route admitted_def zero_result_def)
qed

lemma logout_ends_session_witness:
  "\<not> admitted (sample_exchange (Some (query_escape sample_sid)) '''')
     (snd (serve POST [''v1'', ''logout''] (sample_app sample_env) (sample_exchange (Some (query_escape sample_sid)) '''')
       (run_events (sample_app sample_env) [login_request] (started fresh_disk (sample_net [])))))"
proof -
  have "has_cookie (sample_exchange (Some (query_escape sample_sid)) '''')"
    using sample_cookie by (simp add: has_cookie_def)
  from logout_ends_session [OF this, of "sample_app sample_env" "[login_request]" fresh_disk "sample_net []"]
  show ?thesis by auto
qed

text \<open>
  Every request gets an answer. On a network with the chaincode, after any history, a
  request to any route but the three lists ends with a reply, never with a panic, an exit of
  the process or an endless loop, whatever the peers refuse, the disk fails and the client
  sends, provided the reply can be written and an upload names its certificate.
\<close>

lemma every_request_answered:
  assumes "ap_fabric ap = connected env" "ledger_inv (net_ledger w)"
    and "find_route buildRouter meth path = Some (t, params)" "t \<notin> {OpenList, DeletedList, DraftList}"
    and "ex_write ex = None" "\<And>fm. ex_form ex = Inr fm \<Longrightarrow> fm_certId fm \<noteq> []"
  shows "\<exists>rp. fst (serve meth path ap ex (run_events ap evs (started d w))) = Answer rp"
proof -
  let ?s = "run_events ap evs (started d w)"
  have "ledger_inv (net_ledger (sv_world ?s))" "session_ok (prov ?s)"
    using run_events_inv [OF assms(1), of "started d w"] assms(2) by (simp_all add: run_events_ok)
  from net.handler_answers [OF assms(1) this(2,1), of "routed params ex" t] assms(3-6) show ?thesis
    by (auto simp: serve_routed)
qed

lemma every_request_answered_witness:
  "\<exists>rp. fst (serve GET [''v1'', ''certificate'', ''C1''] (sample_app sample_env) (sample_exchange None '''')
     (run_events (sample_app sample_env) [login_request, post_request] (started fresh_disk (sample_net [])))) = Answer rp"
proof (rule every_request_answered [OF sample_app_fabric])
  show "find_route buildRouter GET [''v1'', ''certificate'', ''C1''] = Some (GetCertificate, [''certId'' \<mapsto> ''C1''])"
    by (simp add: buildRouter_def)
qed (simp_all add: sample_exchange_def)

text \<open>
  The status line does not tell a refusal. A request to post a certificate, to upload a
  file or to change statuses that is not logged in is answered with HTTP status 200 and a body
  with result code 401, and reaches neither the ledger nor the disk.
\<close>

lemma refusal_has_status_200:
  assumes "\<not> admitted ex (run_events ap evs (started d w))" "ex_write ex = None"
    and "path \<in> {[''v1'', ''certificate''], [''v1'', ''uploadFile''], [''v1'', ''changeStatus'']}"
  shows "\<exists>rp s'. serve POST path ap ex (run_events ap evs (started d w)) = (Answer rp, s')
    \<and> rp_status rp = 200
    \<and> rp_body rp = ResultBody \<lparr>rs_ResultCode = 401, rs_Message = Message ''Should login'', rs_Data = NilData\<rparr>
    \<and> sv_world s' = sv_world (run_events ap evs (started d w)) \<and> sv_disk s' = sv_disk (run_events ap evs (started d w))"
proof -
  let ?s = "run_events ap evs (started d w)" and ?ex = "routed Map.empty ex"
  have ok: "session_ok (prov ?s)" by (simp add: run_events_ok)
  obtain b cs s2 where l: "isLogin ap ?ex ?s = (b, cs, s2)" by (cases "isLogin ap ?ex ?s") auto
  have s2: "\<not> b" "sv_world s2 = sv_world ?s" "sv_disk s2 = sv_disk ?s"
    using isLogin_law(2,3,5) [OF ok l] assms(1) by simp_all
  have "find_route buildRouter POST [''v1'', ''certificate''] = Some (PostCertificate, Map.empty)"
    "find_route buildRouter POST [''v1'', ''uploadFile''] = Some (PostUploadFile, Map.empty)"
    "find_route buildRouter POST [''v1'', ''changeStatus''] = Some (PostChangeStatus, Map.empty)"
    by (simp_all add: buildRouter_def)
  then show ?thesis
    using assms(2,3) l s2
    by (auto simp: serve_routed postCertificate_def postUploadFile_def postChangeStatus_def encode_result_def
        should_login_def zero_result_def)
qed

lemma refusal_has_status_200_witness:
  "\<exists>rp s'. serve POST [''v1'', ''certificate''] (sample_app sample_env) (sample_exchange None '''')
     (run_events (sample_app sample_env) [] (started fresh_disk (sample_net []))) = (Answer rp, s') \<and> rp_status rp = 200"
  using refusal_has_status_200 [of "sample_exchange None ''''" "sample_app sample_env" "[]" fresh_disk "sample_net []"
      "[''v1'', ''certificate'']"]
  by (auto simp: admitted_def has_cookie_def)

text \<open>
  A missing certificate is reported as success, a missing file as a bad request. On a
  healthy network, asking for a certificate the ledger does not have is answered with HTTP
  status 200, the message "OK" and a body whose result code alone is 404; downloading a file
  the ledger does not have is answered with status 400, although the business code says 404.
\<close>

lemma missing_records_replies:
  assumes "ap_fabric ap = connected env" "healthy env" "id_ok i" "i \<noteq> ''''" "ex_write ex = None"
    and "abs_certs (net_ledger (sv_world s)) i = None" "abs_files (net_ledger (sv_world s)) i = None"
  shows "(\<exists>rp. fst (serve GET [''v1'', ''certificate'', i] ap ex s) = Answer rp \<and> rp_status rp = 200
      \<and> rp_body rp = ResultBody \<lparr>rs_ResultCode = 404, rs_Message = Message ''OK'', rs_Data = NilData\<rparr>)
    \<and> (\<exists>rp. fst (serve GET [''v1'', ''downloadFile'', i] ap ex s) = Answer rp \<and> rp_status rp = 400
      \<and> rp_body rp = FileBody '''')"
proof -
  let ?p = "[''certId'' \<mapsto> i]"
  have routes: "find_route buildRouter GET [''v1'', ''certificate'', i] = Some (GetCertificate, ?p)"
    "find_route buildRouter GET [''v1'', ''downloadFile'', i] = Some (GetDownloadFile, ?p)"
    using assms(4) by (simp_all add: buildRouter_def)
  have none: "map_of (net_ledger (sv_world s)) (cert_key i) = None" "map_of (net_ledger (sv_world s)) (file_key i) = None"
    using assms(6,7) by (simp_all add: abs_certs_def abs_files_def)
  have "fst (CertificateOut (ap_fabric ap) ?p (sv_world s)) = Ret (None, None, 404)"
    using healthy_query_cert [OF assms(2,3)] none by (simp add: assms(1) CertificateOut_def lookup_param_def)
  moreover have "fst (DownloadFile (ap_os ap) (ap_fabric ap) ?p (sv_disk s, sv_world s)) = Ret ('''', '''', None, None, 404)"
    using healthy_query_file [OF assms(2,3)] none
    by (simp add: assms(1) DownloadFile_def lookup_param_def on_world_def)
  ultimately show ?thesis
    using assms(5)
    by (auto simp: serve_routed routes getCertificate_def getDownloadFile_def call_world_def call_disk_def
        copy_file_def encode_result_def split: prod.split)
qed

lemma missing_records_replies_witness:
  "\<exists>rp. fst (serve GET [''v1'', ''certificate'', ''C1''] (sample_app sample_env) (sample_exchange None '''')
       (started fresh_disk (sample_net []))) = Answer rp \<and> rp_status rp = 200
     \<and> rp_body rp = ResultBody \<lparr>rs_ResultCode = 404, rs_Message = Message ''OK'', rs_Data = NilData\<rparr>"
  by (rule missing_records_replies [OF sample_app_fabric sample_healthy, THEN conjunct1])
     (simp_all add: plain_id_ok unreserved_def is_digit_def in_range_def abs_certs_def abs_files_def)

text \<open>What a posted certificate leaves behind, until somebody posts again.\<close>

lemma posted_on_ledger:
  assumes "ap_fabric ap = connected env" "healthy env" "ledger_inv (net_ledger w)"
    and "s = run_events ap evs (started d w)" "admitted ex s" "ex_body ex = Inr b" "ex_write ex = None"
    and "unmarshal_cert b = (c, None)" "plain_text (certId c)"
    and "isOpen c \<Longrightarrow> \<exists>v fs. abs_files (net_ledger (sv_world s)) (certId c) = Some v \<and> v \<noteq> [] \<and> unmarshal_file v = (fs, None)"
    and "s' = run_events ap (Request POST [''v1'', ''certificate''] ex # later) s" "list_all reading_event later"
  obtains rp u t where "fst (serve POST [''v1'', ''certificate''] ap ex s) = Answer rp" "rp_status rp = 200"
    "isOpen c \<longrightarrow> u" "u \<longrightarrow> abs_files (net_ledger (sv_world s)) (certId c) \<noteq> None"
    "abs_certs (net_ledger (sv_world s')) (certId c) = Some (c\<lparr>hasUpload := u, updateDate := format_prc t\<rparr>)"
    "ledger_inv (net_ledger (sv_world s'))" "session_ok (prov s')"
proof -
  let ?s1 = "run_event ap (Request POST [''v1'', ''certificate''] ex) s"
  have ok: "session_ok (prov s)" by (simp add: assms(4) run_events_ok)
  have ok1: "session_ok (prov ?s1)" by (rule run_event_sessions(1) [OF ok])
  have inv: "ledger_inv (net_ledger (sv_world s))"
    using run_events_inv [OF assms(1), of "started d w"] assms(3,4) by simp
  obtain txid n' where run: "CertificateIn (connected env) b (sv_world s) = (Ret (Some txid, None, 200), n')"
    using healthy_CertificateIn [OF assms(2,8,9), of "sv_world s"] assms(10) by blast
  obtain u t where ut: "isOpen c \<longrightarrow> u" "u \<longrightarrow> abs_files (net_ledger (sv_world s)) (certId c) \<noteq> None"
    and at: "abs_certs (net_ledger n') (certId c) = Some (c\<lparr>hasUpload := u, updateDate := format_prc t\<rparr>)"
    using certificate_posted [OF assms(8) run] by blast
  obtain rp where post: "fst (serve POST [''v1'', ''certificate''] ap ex s) = Answer rp" "rp_status rp = 200"
      "sv_world ?s1 = n'"
    using admitted_post [OF assms(1) ok assms(5,6,7) run] by auto
  have s1: "ledger_inv (net_ledger (sv_world ?s1))" by (rule run_event_inv [OF assms(1) ok inv])
  have l: "net_ledger (sv_world s') = net_ledger n'"
    using reading_events_keep [OF assms(1) ok1 assms(12)] post(3) by (simp add: assms(11))
  have "session_ok (prov s')"
    using run_events_ok [OF ok] by (simp only: assms(11))
  with post ut at s1 l show thesis by (intro that [of rp u t]) simp_all
qed

text \<open>
  C10: What is posted is served. On a healthy network, a client who is logged in and posts a
  certificate with a plain identifier (an open one only if the ledger has its file) is answered
  with status 200, and after any further requests that post no certificate, file or status, by
  anyone, and any collector runs, anybody who asks for the identifier is answered with status 200
  and the certificate as posted, except for the date of the contract's clock and the upload mark.
\<close>

theorem posted_certificate_served:
  assumes "ap_fabric ap = connected env" "healthy env" "ledger_inv (net_ledger w)"
    and "s = run_events ap evs (started d w)" "admitted ex s" "ex_body ex = Inr b" "ex_write ex = None"
    and "unmarshal_cert b = (c, None)" "plain_text (certId c)" "certId c \<noteq> []"
    and "isOpen c \<Longrightarrow> \<exists>v fs. abs_files (net_ledger (sv_world s)) (certId c) = Some v \<and> v \<noteq> [] \<and> unmarshal_file v = (fs, None)"
    and "s' = run_events ap (Request POST [''v1'', ''certificate''] ex # later) s" "list_all reading_event later"
    and "ex_write ex' = None"
  shows "\<exists>rp rp' u t. fst (serve POST [''v1'', ''certificate''] ap ex s) = Answer rp \<and> rp_status rp = 200
    \<and> fst (serve GET [''v1'', ''certificate'', certId c] ap ex' s') = Answer rp' \<and> rp_status rp' = 200
    \<and> rp_body rp' = ResultBody \<lparr>rs_ResultCode = 200, rs_Message = Message ''OK'',
         rs_Data = CertData (c\<lparr>hasUpload := u, updateDate := format_date t\<rparr>)\<rparr>
    \<and> (u \<longrightarrow> abs_files (net_ledger (sv_world s)) (certId c) \<noteq> None) \<and> (isOpen c \<longrightarrow> u)"
proof -
  obtain rp u t where post: "fst (serve POST [''v1'', ''certificate''] ap ex s) = Answer rp" "rp_status rp = 200"
      "isOpen c \<longrightarrow> u" "u \<longrightarrow> abs_files (net_ledger (sv_world s)) (certId c) \<noteq> None"
    and at: "abs_certs (net_ledger (sv_world s')) (certId c) = Some (c\<lparr>hasUpload := u, updateDate := format_prc t\<rparr>)"
    and inv: "ledger_inv (net_ledger (sv_world s'))" "session_ok (prov s')"
    by (rule posted_on_ledger [OF assms(1-9,11-13)])
  have "ledger_ok (net_ledger (sv_world s'))" using inv by (simp add: ledger_inv_def app_ok_def)
  then obtain rp' where "fst (serve GET [''v1'', ''certificate'', certId c] ap ex' s') = Answer rp'" "rp_status rp' = 200"
    "rp_body rp' = ResultBody \<lparr>rs_ResultCode = 200, rs_Message = Message ''OK'',
         rs_Data = CertData (c\<lparr>hasUpload := u, updateDate := format_date t\<rparr>)\<rparr>"
    using healthy_get [OF assms(1,2) plain_id_ok [OF assms(9)] assms(10) _ _ assms(14),
        where s = s' and c = "c\<lparr>hasUpload := u\<rparr>" and t = t] at by auto
  with post show ?thesis by blast
qed

lemma posted_certificate_served_witness:
  "\<exists>rp u t. fst (serve GET [''v1'', ''certificate'', ''C1''] (sample_app sample_env) (sample_exchange None '''')
       (run_events (sample_app sample_env) [post_request, Collect]
         (run_events (sample_app sample_env) [login_request] (started fresh_disk (sample_net []))))) = Answer rp
     \<and> \<not> u \<and> rp_body rp = ResultBody \<lparr>rs_ResultCode = 200, rs_Message = Message ''OK'',
         rs_Data = CertData (sample_cert\<lparr>hasUpload := u, updateDate := format_date t\<rparr>)\<rparr>"
proof -
  let ?s = "run_events (sample_app sample_env) [login_request] (started fresh_disk (sample_net []))"
    and ?ex = "sample_exchange (Some (query_escape sample_sid)) (marshal_cert sample_cert)"
  have u: "unmarshal_cert (marshal_cert sample_cert) = (sample_cert, None)" by (simp add: cert_roundtrip)
  have adm: "admitted ?ex ?s" using sample_logged_in(1) sample_cookie by (simp add: admitted_def has_cookie_def)
  have c: "plain_text (certId sample_cert)" "certId sample_cert = ''C1''" "\<not> isOpen sample_cert"
    by (simp_all add: sample_cert_def zero_cert_def plain_text_def unreserved_def is_digit_def in_range_def)
  have none: "abs_files (net_ledger (sv_world ?s)) ''C1'' = None"
    by (simp add: sample_logged_in(2) abs_files_def)
  obtain rp u t where "fst (serve GET [''v1'', ''certificate'', ''C1''] (sample_app sample_env) (sample_exchange None '''')
       (run_events (sample_app sample_env) [post_request, Collect] ?s)) = Answer rp"
    and "rp_body rp = ResultBody \<lparr>rs_ResultCode = 200, rs_Message = Message ''OK'',
         rs_Data = CertData (sample_cert\<lparr>hasUpload := u, updateDate := format_date t\<rparr>)\<rparr>" and "\<not> u"
    using posted_certificate_served [OF sample_app_fabric sample_healthy _ refl adm _ _ u c(1) _ _ refl,
        of "[Collect]" "sample_exchange None ''''", folded post_request_def, unfolded c(2) none]
    by (auto simp: c(3) reading_event_def)
  then show ?thesis by blast
qed

text \<open>
  C11: What is posted for the public is listed. On a database as CouchDB documents it, a client who
  is logged in and posts a certificate that is open, completed and not deleted, with its file on
  the ledger, is answered with status 200, and after any further requests that post nothing there
  is a page of the public list, among those that the number of certificates admits, that shows it
  to anyone who asks for it under conditions that the certificate fulfils.
\<close>

theorem posted_certificate_listed:
  assumes "ap_fabric ap = connected (couch_env le clock)" "ledger_inv (net_ledger w)"
    and "s = run_events ap evs (started d w)" "admitted ex s" "ex_body ex = Inr b" "ex_write ex = None"
    and "unmarshal_cert b = (c, None)" "plain_text (certId c)" "isOpen c" "isCompleted c" "\<not> isDeleted c"
    and "abs_files (net_ledger (sv_world s)) (certId c) = Some v" "v \<noteq> []" "unmarshal_file v = (fs, None)"
    and "s' = run_events ap (Request POST [''v1'', ''certificate''] ex # later) s" "list_all reading_event later"
    and "plain_conditions qc" "paging_ok qc (net_ledger (sv_world s'))"
    and "\<And>t. fulfils le qc (c\<lparr>hasUpload := True, updateDate := format_prc t\<rparr>)"
  shows "\<exists>rp t i. fst (serve POST [''v1'', ''certificate''] ap ex s) = Answer rp \<and> rp_status rp = 200
    \<and> 1 \<le> i \<and> (i - 1) * qc_pageSize qc < int (length (stored_certs (net_ledger (sv_world s'))))
    \<and> (\<forall>ex' b'. ex_body ex' = Inr b' \<longrightarrow> ex_write ex' = None \<longrightarrow> unmarshal_conditions b' = (qc\<lparr>qc_pageIndex := i\<rparr>, None) \<longrightarrow>
          shorten (c\<lparr>hasUpload := True, updateDate := format_prc t\<rparr>)
            \<in> set (reply_certs (Some (fst (serve POST [''v1'', ''certificate'', ''openList''] ap ex' s')))))"
proof -
  let ?l = "net_ledger (sv_world s')" and ?N = "nat (qc_pageSize qc)" and ?q = "editQueryString open_head qc"
  obtain rp u t where post: "fst (serve POST [''v1'', ''certificate''] ap ex s) = Answer rp" "rp_status rp = 200" "u"
    and at: "abs_certs ?l (certId c) = Some (c\<lparr>hasUpload := u, updateDate := format_prc t\<rparr>)"
    and inv: "ledger_inv ?l" "session_ok (prov s')"
    using posted_on_ledger [OF assms(1) couch_healthy assms(2-8) _ assms(15,16)] assms(9,12-14) by blast
  let ?c = "c\<lparr>hasUpload := True, updateDate := format_prc t\<rparr>" and ?R = "couch_list le (sv_world s') ?q"
  have sl: "service_ledger ?l" "ledger_ok ?l" using inv(1) by (simp_all add: ledger_inv_def app_ok_def)
  note q = open_query_means [OF assms(17)] flags_there(1) [of "condition_clauses qc"] sl(1)
  have L: "right_list le (\<lambda>c. isOpen c \<and> isCompleted c \<and> \<not> isDeleted c \<and> fulfils le qc c) ?l (couch_certs le (sv_world s') ?q)"
    "?R = map shorten (couch_certs le (sv_world s') ?q)"
    using couch_certs_right [OF q, of le] unfolding clauses_hold by simp_all
  have "?c \<in> set (couch_certs le (sv_world s') ?q)"
    using abs_certs_stored [OF sl(2) at] assms(9-11,19) post(3) by (simp add: right_list_set [OF L(1)])
  then have c: "shorten ?c \<in> set ?R" by (simp add: L(2))
  have len: "length ?R \<le> length (stored_certs ?l)" using right_list_length [OF L(1)] by (simp add: L(2))
  have N: "0 < ?N" "int ?N = qc_pageSize qc" using assms(18) by (simp_all add: paging_ok_def)
  from some_page_shows [OF c N(1)] obtain i where i: "1 \<le> i" "(nat i - 1) * ?N < length ?R"
    "shorten ?c \<in> set (shown_page ?N ?R (shown_index ?N (length ?R) i))" by blast
  have "int ((nat i - 1) * ?N) = (i - 1) * qc_pageSize qc" using i(1) N(2) by (simp add: of_nat_diff)
  then have "(i - 1) * qc_pageSize qc < int (length (stored_certs ?l))" using i(2) len by linarith
  moreover have "shorten ?c \<in> set (reply_certs (Some (fst (serve POST [''v1'', ''certificate'', ''openList''] ap ex' s'))))"
    if ex': "ex_body ex' = Inr b'" "ex_write ex' = None" "unmarshal_conditions b' = (qc\<lparr>qc_pageIndex := i\<rparr>, None)" for ex' b'
  proof -
    have route: "find_route buildRouter POST [''v1'', ''certificate'', ''openList''] = Some (OpenList, Map.empty)"
      by (simp add: buildRouter_def)
    obtain b cs s2 where l: "isLogin ap (routed Map.empty ex') s' = (b, cs, s2)" by (cases "isLogin ap (routed Map.empty ex') s'") auto
    have s2: "sv_world s2 = sv_world s'" using isLogin_law(2) [OF inv(2) l] .
    have "plain_conditions (qc\<lparr>qc_pageIndex := i\<rparr>)" "paging_ok (qc\<lparr>qc_pageIndex := i\<rparr>) ?l"
      using assms(17,18) i(1) by (simp_all add: plain_conditions_def paging_ok_def)
    from open_list_rows [OF ex'(3) this(1) sl(1) this(2), of le clock b] obtain w' where
      "OpenListRichQuery (connected (couch_env le clock)) b' b (sv_world s') = Some (list_answer ?R (qc\<lparr>qc_pageIndex := i\<rparr>), w')"
      by auto
    then show ?thesis
      using i(3) ex'(1,2) by (auto simp: serve_routed route getOpenList_def l s2 assms(1) query_reply_def encode_result_def
        list_answer_def Let_def appended_def)
  qed
  ultimately show ?thesis using post(1,2) i(1) by blast
qed

text \<open>
  On a ledger that has only the file, a client posts the open certificate; the first page of the
  list shows it.
\<close>

definition file_ledger :: ledger where
  "file_ledger = [(file_key ''C1'', marshal_file (file_record ''C1'' ''%PDF-''))]"

definition open_post :: certificate where
  "open_post = sample_cert\<lparr>isOpen := True, isCompleted := True\<rparr>"

lemma file_ledger_inv: "ledger_inv file_ledger"
proof -
  have id: "id_ok ''C1''" by (rule plain_id_ok) (simp add: unreserved_def is_digit_def in_range_def)
  have "app_ok []" using ledger_inv_Nil by (simp add: ledger_inv_def)
  then have "app_ok (put (file_key ''C1'') (marshal_file (file_record ''C1'' ''%PDF-'')) [])"
    by (rule app_ok_put_file) (rule file_entry_marshalled; simp add: id)
  then show ?thesis by (auto simp: ledger_inv_def file_ledger_def service_ledger_def service_file_def)
qed

lemma CertificateIn_grows: "length (net_ledger (snd (CertificateIn (connected env) body w))) \<le> Suc (length (net_ledger w))"
  by (cases rule: net.CertificateIn_cases [of body env w])
     (use length_transact [of "net_ledger w"] in auto)

lemma serve_post_grows:
  assumes "ap_fabric ap = connected env" "session_ok (prov s)"
  shows "length (net_ledger (sv_world (snd (serve POST [''v1'', ''certificate''] ap ex s)))) \<le> Suc (length (net_ledger (sv_world s)))"
proof -
  obtain b cs s2 where l: "isLogin ap (routed Map.empty ex) s = (b, cs, s2)"
    by (cases "isLogin ap (routed Map.empty ex) s") auto
  have "sv_world s2 = sv_world s" using isLogin_law(2) [OF assms(2) l] .
  moreover have "length (net_ledger w') \<le> Suc (length (net_ledger (sv_world s)))"
    if "CertificateIn (connected env) x (sv_world s) = (r, w')" for x r w'
    using CertificateIn_grows [of env x "sv_world s"] that by simp
  moreover have "find_route buildRouter POST [''v1'', ''certificate''] = Some (PostCertificate, Map.empty)"
    by (simp add: buildRouter_def)
  ultimately show ?thesis
    using assms(1) l
    by (auto simp: serve_routed postCertificate_def call_world_def split: sum.split prod.split outcome.split)
qed

lemma posted_certificate_listed_witness:
  "\<exists>t. shorten (open_post\<lparr>hasUpload := True, updateDate := format_prc t\<rparr>) \<in> set (reply_certs (Some (fst
     (serve POST [''v1'', ''certificate'', ''openList''] (sample_app (couch_env text_le (\<lambda>_. 0))) (sample_exchange None all_body)
       (run_events (sample_app (couch_env text_le (\<lambda>_. 0)))
          [login_request,
           Request POST [''v1'', ''certificate''] (sample_exchange (Some (query_escape sample_sid)) (marshal_cert open_post))]
          (started fresh_disk (sample_net file_ledger)))))))"
proof -
  let ?ap = "sample_app (couch_env text_le (\<lambda>_. 0))"
    and ?ex = "sample_exchange (Some (query_escape sample_sid)) (marshal_cert open_post)"
  let ?s = "run_events ?ap [login_request] (started fresh_disk (sample_net file_ledger))"
  let ?s' = "run_events ?ap (Request POST [''v1'', ''certificate''] ?ex # []) ?s"
  have w: "sv_world ?s = sample_net file_ledger" by (simp add: sample_logged_in(2))
  have adm: "admitted ?ex ?s" using sample_logged_in(1) sample_cookie by (simp add: admitted_def has_cookie_def)
  have u: "unmarshal_cert (marshal_cert open_post) = (open_post, None)"
    using sample_cert_ok by (intro cert_roundtrip) (simp add: open_post_def cert_ok_def)
  have c: "plain_text (certId open_post)" "isOpen open_post" "isCompleted open_post" "\<not> isDeleted open_post" "certId open_post = ''C1''"
    by (simp_all add: open_post_def sample_cert_def zero_cert_def plain_text_def unreserved_def is_digit_def in_range_def)
  have f: "abs_files (net_ledger (sv_world ?s)) (certId open_post) = Some (marshal_file (file_record ''C1'' ''%PDF-''))"
    unfolding w c(5) abs_files_def by (simp add: file_ledger_def)
  have ok: "file_ok (file_record ''C1'' ''%PDF-'')" by (simp add: file_ok_def file_record_def utf8_valid_asciis)
  have v: "marshal_file (file_record ''C1'' ''%PDF-'') \<noteq> []" using ok by (simp add: marshal_file_def file_json_ok)
  note fs = file_roundtrip [OF ok]
  have len: "length (net_ledger (sv_world ?s')) \<le> 2"
    using serve_post_grows [OF sample_app_fabric run_events_ok [OF started_sessions(1)], of "couch_env text_le (\<lambda>_. 0)" ?ex ?ap
        "[login_request]" fresh_disk "sample_net file_ledger"] w
    by (simp add: file_ledger_def numeral_2_eq_2)
  have pg: "plain_conditions all_conditions" "paging_ok all_conditions (net_ledger (sv_world ?s'))"
    using all_conditions_ok len by (simp_all add: paging_ok_def fits_def)
  have ful: "fulfils text_le all_conditions (open_post\<lparr>hasUpload := True, updateDate := format_prc t\<rparr>)" for t
    by (simp add: fulfils_def all_conditions_def zero_conditions_def eq_holds_def ge_holds_def le_holds_def squeeze_def remove_char_def)
  have inv: "ledger_inv (net_ledger (sample_net file_ledger))" using file_ledger_inv by simp
  obtain t i where i: "1 \<le> i" "(i - 1) * qc_pageSize all_conditions < int (length (stored_certs (net_ledger (sv_world ?s'))))"
    and shown: "\<And>ex' b'. ex_body ex' = Inr b' \<Longrightarrow> ex_write ex' = None \<Longrightarrow>
      unmarshal_conditions b' = (all_conditions\<lparr>qc_pageIndex := i\<rparr>, None) \<Longrightarrow>
      shorten (open_post\<lparr>hasUpload := True, updateDate := format_prc t\<rparr>)
        \<in> set (reply_certs (Some (fst (serve POST [''v1'', ''certificate'', ''openList''] ?ap ex' ?s'))))"
    using posted_certificate_listed [OF sample_app_fabric inv refl adm _ _ u c(1-4) f v(1) fs refl _ pg ful] by auto
  have "length (stored_certs (net_ledger (sv_world ?s'))) \<le> 2"
    using len length_filter_le order_trans unfolding stored_certs_def length_map by blast
  with i have "i = 1" by (simp add: all_conditions_def zero_conditions_def)
  then have "all_conditions\<lparr>qc_pageIndex := i\<rparr> = all_conditions" by (simp add: all_conditions_def zero_conditions_def)
  with shown [of "sample_exchange None all_body" all_body] all_body show ?thesis by auto
qed

text \<open>
  A client can stop the server. If the reply to a request on any route but the download
  cannot be written, no reply is sent, and for login and logout, which anyone may call, the
  process ends through the Fatalf of the logger.
\<close>

lemma unwritable_reply_exits:
  assumes "ex_write ex = Some e" "find_route buildRouter meth path = Some (t, params)" "t \<noteq> GetDownloadFile"
  shows "fst (serve meth path ap ex s) \<noteq> Answer rp
    \<and> (t \<in> {Login, Logout} \<longrightarrow> fst (serve meth path ap ex s) = Exits ''serializing result'')"
proof -
  have ex: "ex_write (routed params ex) = Some e" using assms(1) by simp
  note exits = encode_fails [OF ex] deal4xx_fails [OF ex]
  show ?thesis
    using assms(2,3)
    by (cases t)
       (auto simp: serve_routed postLogin_def postLogout_def postCertificate_def postUploadFile_def getCertificate_def
          getOpenList_def getDeletedList_def getDraftList_def postChangeStatus_def query_reply_def call_world_def
          call_disk_def exits Let_def index_panic_def
          split: prod.splits sum.splits option.splits outcome.splits list.splits)
qed

end
